(* ===== verification/Prelude.thy ===== *)
theory Prelude
  imports
    Main
    "HOL-Library.Word"
    "HOL-Library.Char_ord"
    "HOL-Library.List_Lexorder"
begin

text \<open>
  Shared vocabulary of the PMLib development.

  \<^item> the machine-level types (bytes, the C++ \<open>int\<close> and \<open>long long\<close> as \<open>int\<close> with the
    wrap-around written out);
  \<^item> the outcome of a C++ statement sequence: a value, a thrown exception, or undefined
    behaviour (a null or dangling access, a division by zero), and the sequencing combinators of
    state-threading programs with \<open>try\<close>/\<open>catch\<close>;
  \<^item> \<open>std::map\<close> as an association list sorted by key, with the interface the other theories
    use stated as a locale and discharged for this representation;
  \<^item> little-endian byte strings, the representation every fixed-size value has on the wire.
\<close>

section \<open>Named collections\<close>

named_theorems prog_simps \<open>unfolding rules of the sequencing combinators\<close>
named_theorems i32_simps \<open>rewriting of the 32-bit wrap-around\<close>

section \<open>Machine integers\<close>

type_synonym byte = "8 word"

text \<open>Conversion to the 32-bit and 64-bit signed C++ integer types.\<close>

definition i32 :: "int \<Rightarrow> int" where
  "i32 x = signed_take_bit 31 x"

definition i64 :: "int \<Rightarrow> int" where
  "i64 x = signed_take_bit 63 x"

definition is_i32 :: "int \<Rightarrow> bool" where
  "is_i32 x \<longleftrightarrow> - 2147483648 \<le> x \<and> x < 2147483648"

lemma i32_id [i32_simps]: "is_i32 x \<Longrightarrow> i32 x = x"
  by (simp add: i32_def is_i32_def signed_take_bit_int_eq_self)

lemma i32_range [simp]: "is_i32 (i32 x)"
  using signed_take_bit_int_less_exp [of 31 x] signed_take_bit_int_greater_eq_minus_exp [of 31 x]
  by (simp add: i32_def is_i32_def)

lemma i32_nat_id [i32_simps]: "n < 2147483648 \<Longrightarrow> i32 (int n) = int n"
  by (rule i32_id) (simp add: is_i32_def)

lemma i32_mod: "i32 x mod 4294967296 = x mod 4294967296"
proof -
  have "take_bit 32 (signed_take_bit 31 x) = take_bit 32 x"
    by (simp add: take_bit_signed_take_bit)
  then show ?thesis by (simp add: i32_def take_bit_eq_mod)
qed

text \<open>C++ integer division and remainder truncate towards zero.\<close>

definition cdiv :: "int \<Rightarrow> int \<Rightarrow> int" where
  "cdiv a b = sgn a * sgn b * (\<bar>a\<bar> div \<bar>b\<bar>)"

definition cmod :: "int \<Rightarrow> int \<Rightarrow> int" where
  "cmod a b = a - b * cdiv a b"

lemma cdiv_nonneg [simp]: "0 \<le> a \<Longrightarrow> 0 < b \<Longrightarrow> cdiv a b = a div b"
  by (cases "a = 0") (simp_all add: cdiv_def)

lemma cmod_nonneg [simp]: "0 \<le> a \<Longrightarrow> 0 < b \<Longrightarrow> cmod a b = a mod b"
  by (simp add: cmod_def minus_mult_div_eq_mod)

section \<open>Outcomes and state-threading programs\<close>

text \<open>
  The exceptions the modelled code throws or lets through: \<open>std::runtime_error\<close> with its
  message, the two socket failures Boost.Asio reports (end of stream on a read, a broken
  connection on a write), and the standard library's \<open>length_error\<close>, \<open>out_of_range\<close> and
  \<open>invalid_argument\<close>. All of them derive from \<open>std::exception\<close>, so every handler of the code
  catches all of them. Undefined behaviour is not an exception and no handler catches it.
\<close>

datatype exn =
    Runtime_error string
  | Eof
  | Broken_pipe
  | Length_error
  | Out_of_range
  | Invalid_argument

datatype 'a res = Ok 'a | Throw exn | Undef string

type_synonym ('s, 'a) prog = "'s \<Rightarrow> 'a res \<times> 's"

definition ret_p :: "'a \<Rightarrow> ('s, 'a) prog" where
  "ret_p x = (\<lambda>s. (Ok x, s))"

definition throw_p :: "exn \<Rightarrow> ('s, 'a) prog" where
  "throw_p e = (\<lambda>s. (Throw e, s))"

definition undef_p :: "string \<Rightarrow> ('s, 'a) prog" where
  "undef_p u = (\<lambda>s. (Undef u, s))"

definition bind_p :: "('s, 'a) prog \<Rightarrow> ('a \<Rightarrow> ('s, 'b) prog) \<Rightarrow> ('s, 'b) prog" where
  "bind_p m f = (\<lambda>s. case m s of
     (Ok a, s') \<Rightarrow> f a s'
   | (Throw e, s') \<Rightarrow> (Throw e, s')
   | (Undef u, s') \<Rightarrow> (Undef u, s'))"

definition then_p :: "('s, 'a) prog \<Rightarrow> ('s, 'b) prog \<Rightarrow> ('s, 'b) prog" where
  "then_p m n = bind_p m (\<lambda>_. n)"

definition catch_p :: "('s, 'a) prog \<Rightarrow> (exn \<Rightarrow> ('s, 'a) prog) \<Rightarrow> ('s, 'a) prog" where
  "catch_p m h = (\<lambda>s. case m s of (Throw e, s') \<Rightarrow> h e s' | r \<Rightarrow> r)"

definition gets_p :: "('s \<Rightarrow> 'a) \<Rightarrow> ('s, 'a) prog" where
  "gets_p f = (\<lambda>s. (Ok (f s), s))"

definition mod_p :: "('s \<Rightarrow> 's) \<Rightarrow> ('s, unit) prog" where
  "mod_p f = (\<lambda>s. (Ok (), f s))"

definition lift_p :: "'a res \<Rightarrow> ('s, 'a) prog" where
  "lift_p r = (\<lambda>s. (r, s))"

text \<open>Running one program after another over a list, as a range-based \<open>for\<close> does.\<close>

fun for_p :: "'x list \<Rightarrow> ('x \<Rightarrow> ('s, unit) prog) \<Rightarrow> ('s, unit) prog" where
  "for_p [] f = ret_p ()"
| "for_p (x # xs) f = then_p (f x) (for_p xs f)"

text \<open>The same loop over a value that may fail, with no other state.\<close>

fun bind_r :: "'a res \<Rightarrow> ('a \<Rightarrow> 'b res) \<Rightarrow> 'b res" where
  "bind_r (Ok a) f = f a"
| "bind_r (Throw e) f = Throw e"
| "bind_r (Undef u) f = Undef u"

fun fold_r :: "('x \<Rightarrow> 'a \<Rightarrow> 'a res) \<Rightarrow> 'x list \<Rightarrow> 'a \<Rightarrow> 'a res" where
  "fold_r f [] a = Ok a"
| "fold_r f (x # xs) a = bind_r (f x a) (fold_r f xs)"

fun map_r :: "('x \<Rightarrow> 'a res) \<Rightarrow> 'x list \<Rightarrow> 'a list res" where
  "map_r f [] = Ok []"
| "map_r f (x # xs) = bind_r (f x) (\<lambda>a. bind_r (map_r f xs) (\<lambda>as. Ok (a # as)))"

lemma bind_p_apply [prog_simps]:
  "m s = (Ok a, s') \<Longrightarrow> bind_p m f s = f a s'"
  "m s = (Throw e, s') \<Longrightarrow> bind_p m f s = (Throw e, s')"
  "m s = (Undef u, s') \<Longrightarrow> bind_p m f s = (Undef u, s')"
  by (simp_all add: bind_p_def)

lemma then_p_apply [prog_simps]:
  "m s = (Ok a, s') \<Longrightarrow> then_p m n s = n s'"
  "m s = (Throw e, s') \<Longrightarrow> then_p m n s = (Throw e, s')"
  "m s = (Undef u, s') \<Longrightarrow> then_p m n s = (Undef u, s')"
  by (simp_all add: then_p_def bind_p_def)

lemma catch_p_apply [prog_simps]:
  "m s = (Ok a, s') \<Longrightarrow> catch_p m h s = (Ok a, s')"
  "m s = (Throw e, s') \<Longrightarrow> catch_p m h s = h e s'"
  "m s = (Undef u, s') \<Longrightarrow> catch_p m h s = (Undef u, s')"
  by (simp_all add: catch_p_def)

lemma prim_p_apply [prog_simps, simp]:
  "ret_p x s = (Ok x, s)"
  "throw_p e s = (Throw e, s)"
  "undef_p u s = (Undef u, s)"
  "gets_p g s = (Ok (g s), s)"
  "mod_p h s = (Ok (), h s)"
  "lift_p r s = (r, s)"
  by (simp_all add: ret_p_def throw_p_def undef_p_def gets_p_def mod_p_def lift_p_def)

text \<open>
  Triples with a second postcondition for exceptional ends: from a state with \<open>P\<close>, the program ends
  normally with \<open>Q\<close> or by an exception with \<open>E\<close>. Undefined behaviour promises nothing.
\<close>

definition triple :: "('s \<Rightarrow> bool) \<Rightarrow> ('s, 'a) prog \<Rightarrow> ('a \<Rightarrow> 's \<Rightarrow> bool) \<Rightarrow> ('s \<Rightarrow> bool) \<Rightarrow> bool" where
  "triple P m Q E \<longleftrightarrow> (\<forall>s. P s \<longrightarrow> (case m s of
     (Ok a, s') \<Rightarrow> Q a s' | (Throw e, s') \<Rightarrow> E s' | (Undef u, s') \<Rightarrow> True))"

lemma tripleI:
  assumes "\<And>s a s'. P s \<Longrightarrow> m s = (Ok a, s') \<Longrightarrow> Q a s'"
    and "\<And>s e s'. P s \<Longrightarrow> m s = (Throw e, s') \<Longrightarrow> E s'"
  shows "triple P m Q E"
  using assms by (auto simp: triple_def split: prod.split res.split)

lemma triple_Ok: "triple P m Q E \<Longrightarrow> P s \<Longrightarrow> m s = (Ok a, s') \<Longrightarrow> Q a s'"
  by (auto simp: triple_def split: prod.splits)

lemma triple_Throw: "triple P m Q E \<Longrightarrow> P s \<Longrightarrow> m s = (Throw e, s') \<Longrightarrow> E s'"
  by (auto simp: triple_def split: prod.splits)

lemma triple_bind:
  assumes "triple P m R E" and "\<And>a. triple (R a) (f a) Q E"
  shows "triple P (bind_p m f) Q E"
  unfolding triple_def
proof (intro allI impI)
  fix s assume s: "P s"
  obtain r s1 where m: "m s = (r, s1)" by (cases "m s")
  show "case bind_p m f s of (Ok a, s') \<Rightarrow> Q a s' | (Throw e, s') \<Rightarrow> E s' | (Undef u, s') \<Rightarrow> True"
  proof (cases r)
    case (Ok a)
    have "R a s1" using triple_Ok [OF assms(1) s] m Ok by blast
    with assms(2) [of a] show ?thesis by (simp add: bind_p_def m Ok triple_def)
  next
    case (Throw e)
    then show ?thesis using triple_Throw [OF assms(1) s] m by (simp add: bind_p_def)
  qed (simp add: bind_p_def m)
qed

lemma triple_then: "triple P m (\<lambda>_. R) E \<Longrightarrow> triple R n Q E \<Longrightarrow> triple P (then_p m n) Q E"
  unfolding then_p_def by (rule triple_bind)

lemma triple_weaken:
  "triple P' m Q' E' \<Longrightarrow> (\<And>s. P s \<Longrightarrow> P' s) \<Longrightarrow> (\<And>a s. Q' a s \<Longrightarrow> Q a s) \<Longrightarrow> (\<And>s. E' s \<Longrightarrow> E s) \<Longrightarrow>
     triple P m Q E"
  unfolding triple_def by (fastforce split: prod.splits res.splits)

lemma triple_catch:
  "triple P m Q R \<Longrightarrow> (\<And>e. triple R (h e) Q E) \<Longrightarrow> triple P (catch_p m h) Q E"
  unfolding triple_def catch_p_def by (fastforce split: prod.splits res.splits)

lemma bind_r_Ok_iff: "bind_r r f = Ok b \<longleftrightarrow> (\<exists>a. r = Ok a \<and> f a = Ok b)"
  by (cases r) auto

lemma fold_r_append: "fold_r f (xs @ ys) a = bind_r (fold_r f xs a) (fold_r f ys)"
proof (induction xs arbitrary: a)
  case (Cons x xs)
  then show ?case by (cases "f x a") simp_all
qed simp

lemma fold_r_invariant:
  assumes "fold_r f xs a = Ok b" and "P a"
    and "\<And>x a b. x \<in> set xs \<Longrightarrow> P a \<Longrightarrow> f x a = Ok b \<Longrightarrow> P b"
  shows "P b"
  using assms
proof (induction xs arbitrary: a)
  case (Cons x xs)
  from Cons.prems(1) obtain c where c: "f x a = Ok c" "fold_r f xs c = Ok b"
    by (auto simp: bind_r_Ok_iff)
  have "P c" using Cons.prems(3) [of x] Cons.prems(2) c(1) by simp
  with c(2) show ?case by (rule Cons.IH) (use Cons.prems(3) in auto)
qed simp

lemma fold_r_pure:
  assumes "\<And>x a. x \<in> set xs \<Longrightarrow> P a \<Longrightarrow> f x a = Ok (g x a) \<and> P (g x a)" and "P a"
  shows "fold_r f xs a = Ok (fold g xs a) \<and> P (fold g xs a)"
  using assms by (induction xs arbitrary: a) simp_all

lemma map_r_map: "(\<And>x. x \<in> set xs \<Longrightarrow> f x = Ok (g x)) \<Longrightarrow> map_r f xs = Ok (map g xs)"
  by (induction xs) simp_all

lemma map_r_length: "map_r f xs = Ok ys \<Longrightarrow> length ys = length xs"
  by (induction xs arbitrary: ys) (auto simp: bind_r_Ok_iff)

section \<open>Ordered maps\<close>

text \<open>
  \<open>std::map\<close>: an association list with strictly increasing keys, so that iteration visits the
  keys in order, as the code's range-based loops do.
\<close>

type_synonym ('k, 'v) amap = "('k \<times> 'v) list"

fun amap_get :: "('k, 'v) amap \<Rightarrow> 'k \<Rightarrow> 'v option" where
  "amap_get [] k = None"
| "amap_get ((k', v) # m) k = (if k' = k then Some v else amap_get m k)"

fun amap_put :: "'k::linorder \<Rightarrow> 'v \<Rightarrow> ('k, 'v) amap \<Rightarrow> ('k, 'v) amap" where
  "amap_put k v [] = [(k, v)]"
| "amap_put k v ((k', v') # m) =
     (if k < k' then (k, v) # (k', v') # m
      else if k = k' then (k, v) # m
      else (k', v') # amap_put k v m)"

fun amap_del :: "'k \<Rightarrow> ('k, 'v) amap \<Rightarrow> ('k, 'v) amap" where
  "amap_del k [] = []"
| "amap_del k ((k', v) # m) = (if k' = k then m else (k', v) # amap_del k m)"

definition amap_keys :: "('k, 'v) amap \<Rightarrow> 'k list" where
  "amap_keys m = map fst m"

definition amap_ok :: "('k::linorder, 'v) amap \<Rightarrow> bool" where
  "amap_ok m \<longleftrightarrow> sorted_wrt (<) (map fst m)"

text \<open>What the components rely on: a finite map whose keys are enumerated in increasing order.\<close>

locale ordered_map =
  fixes get :: "'m \<Rightarrow> 'k::linorder \<Rightarrow> 'v option"
    and put :: "'k \<Rightarrow> 'v \<Rightarrow> 'm \<Rightarrow> 'm"
    and del :: "'k \<Rightarrow> 'm \<Rightarrow> 'm"
    and keys :: "'m \<Rightarrow> 'k list"
    and ok :: "'m \<Rightarrow> bool"
  assumes get_put: "ok m \<Longrightarrow> get (put k v m) k' = (if k' = k then Some v else get m k')"
    and get_del: "ok m \<Longrightarrow> get (del k m) k' = (if k' = k then None else get m k')"
    and keys_get: "ok m \<Longrightarrow> set (keys m) = {k. get m k \<noteq> None}"
    and keys_sorted: "ok m \<Longrightarrow> sorted (keys m)"
    and keys_distinct: "ok m \<Longrightarrow> distinct (keys m)"
    and ok_put: "ok m \<Longrightarrow> ok (put k v m)"
    and ok_del: "ok m \<Longrightarrow> ok (del k m)"
begin

lemma keys_put: "ok m \<Longrightarrow> set (keys (put k v m)) = insert k (set (keys m))"
  using keys_get [OF ok_put, of m k v] by (auto simp: get_put keys_get)

lemma keys_del: "ok m \<Longrightarrow> set (keys (del k m)) = set (keys m) - {k}"
  using keys_get [OF ok_del, of m k] by (auto simp: get_del keys_get)

text \<open>Overwriting a present key keeps the enumeration: a map is never reordered by an update.\<close>

lemma keys_put_present:
  assumes "ok m" and "get m k \<noteq> None"
  shows "keys (put k v m) = keys m"
proof (rule sorted_distinct_set_unique)
  show "set (keys (put k v m)) = set (keys m)"
    using assms by (auto simp: keys_put keys_get)
qed (use assms in \<open>auto simp: keys_sorted keys_distinct ok_put\<close>)

lemma del_fresh_put:
  assumes "ok m" and "get m k = None"
  shows "get (del k (put k v m)) k' = get m k'"
  using assms by (auto simp: get_put get_del ok_put)

lemma length_keys_put:
  assumes "ok m"
  shows "length (keys (put k v m)) = (if get m k = None then Suc (length (keys m)) else length (keys m))"
proof -
  have "length (keys (put k v m)) = card (insert k (set (keys m)))"
    using assms distinct_card [OF keys_distinct [OF ok_put [OF assms]], of k v] by (simp add: keys_put)
  moreover have "card (set (keys m)) = length (keys m)"
    using assms keys_distinct distinct_card by blast
  moreover have "k \<in> set (keys m) \<longleftrightarrow> get m k \<noteq> None"
    using assms by (simp add: keys_get)
  ultimately show ?thesis by (simp add: card_insert_if)
qed

end

lemma amap_get_None_iff: "amap_get m k = None \<longleftrightarrow> k \<notin> set (map fst m)"
  by (induction m k rule: amap_get.induct) auto

lemma amap_get_in: "amap_get m k = Some v \<Longrightarrow> (k, v) \<in> set m"
  by (induction m k rule: amap_get.induct) (auto split: if_splits)

lemma amap_get_put [simp]: "amap_get (amap_put k v m) k' = (if k' = k then Some v else amap_get m k')"
  by (induction k v m rule: amap_put.induct) auto

lemma amap_get_of_in: "amap_ok m \<Longrightarrow> (k, v) \<in> set m \<Longrightarrow> amap_get m k = Some v"
  by (induction m k rule: amap_get.induct) (force simp: amap_ok_def)+

lemma amap_get_del: "amap_ok m \<Longrightarrow> amap_get (amap_del k m) k' = (if k' = k then None else amap_get m k')"
proof (induction m)
  case (Cons a m)
  have "amap_get m (fst a) = None"
    using Cons.prems by (auto simp: amap_ok_def amap_get_None_iff)
  with Cons show ?case by (cases a) (auto simp: amap_ok_def)
qed simp

lemma set_amap_put: "set (map fst (amap_put k v m)) = insert k (set (map fst m))"
  by (induction k v m rule: amap_put.induct) auto

lemma set_amap_del: "set (map fst (amap_del k m)) \<subseteq> set (map fst m)"
  by (induction k m rule: amap_del.induct) auto

lemma amap_ok_Cons: "amap_ok (a # m) \<longleftrightarrow> (\<forall>k \<in> set (map fst m). fst a < k) \<and> amap_ok m"
  by (simp add: amap_ok_def)

lemma amap_ok_put [simp]: "amap_ok m \<Longrightarrow> amap_ok (amap_put k v m)"
proof (induction m)
  case (Cons a m)
  then show ?case
    by (cases a) (use set_amap_put [of k v m] in \<open>simp add: amap_ok_Cons; fastforce\<close>)
qed (simp add: amap_ok_def)

lemma amap_ok_del [simp]: "amap_ok m \<Longrightarrow> amap_ok (amap_del k m)"
proof (induction m)
  case (Cons a m)
  then show ?case
    by (cases a) (use set_amap_del [of k m] in \<open>simp add: amap_ok_Cons; fastforce\<close>)
qed simp

lemma amap_ok_Nil [simp]: "amap_ok []"
  by (simp add: amap_ok_def)

interpretation amap: ordered_map amap_get amap_put amap_del amap_keys amap_ok
proof unfold_locales
  fix m :: "('a, 'b) amap" and k k' :: 'a and v :: 'b
  assume ok: "amap_ok m"
  show "set (amap_keys m) = {k. amap_get m k \<noteq> None}"
    by (auto simp: amap_keys_def amap_get_None_iff)
  show "sorted (amap_keys m)" and "distinct (amap_keys m)"
    using ok by (auto simp: amap_keys_def amap_ok_def strict_sorted_iff)
qed (simp_all add: amap_get_del)

text \<open>Changing the value of a present key where it stands.\<close>

lemma amap_put_present:
  assumes "amap_ok m" and "amap_get m k = Some v"
  shows "amap_put k v' m = map (\<lambda>(j, w). if j = k then (j, v') else (j, w)) m"
  using assms
proof (induction m)
  case (Cons a m)
  obtain j w where a: "a = (j, w)" by (cases a)
  have fresh: "map (\<lambda>(i, u). if i = k then (i, v') else (i, u)) m = m" if "j = k"
    using that Cons.prems(1) by (intro map_idI) (auto simp: a amap_ok_Cons)
  show ?case
  proof (cases "j = k")
    case True
    with fresh show ?thesis by (simp add: a)
  next
    case False
    with Cons.prems have "amap_get m k = Some v" "amap_ok m" "j < k"
      using amap_get_in [of m k v] by (auto simp: a amap_ok_Cons dest: amap_get_in)
    then show ?thesis using Cons.IH False by (auto simp: a)
  qed
qed simp

section \<open>Little-endian byte strings\<close>

text \<open>The bytes of an unsigned value, least significant first, and the value of such bytes.\<close>

fun le_bytes :: "nat \<Rightarrow> nat \<Rightarrow> byte list" where
  "le_bytes 0 x = []"
| "le_bytes (Suc n) x = of_nat (x mod 256) # le_bytes n (x div 256)"

fun le_val :: "byte list \<Rightarrow> nat" where
  "le_val [] = 0"
| "le_val (b # bs) = unat b + 256 * le_val bs"

lemma length_le_bytes [simp]: "length (le_bytes n x) = n"
  by (induction n arbitrary: x) simp_all

lemma unat_byte_less [simp]: "unat (b :: byte) < 256"
  using unsigned_less [of b] by simp

lemma unat_byte_of_mod: "unat (of_nat (x mod 256) :: byte) = x mod 256"
  by (simp add: unat_of_nat)

lemma le_val_le_bytes: "le_val (le_bytes n x) = x mod 256 ^ n"
proof (induction n arbitrary: x)
  case (Suc n)
  have "x mod (256 * 256 ^ n) = x mod 256 + 256 * (x div 256 mod 256 ^ n)"
    by (simp add: mod_mult2_eq)
  with Suc show ?case by (simp add: unat_byte_of_mod)
qed simp

lemma le_val_less: "le_val bs < 256 ^ length bs"
proof (induction bs)
  case (Cons b bs)
  show ?case using Cons unat_byte_less [of b] by (simp del: unat_byte_less)
qed simp

lemma le_bytes_le_val: "le_bytes (length bs) (le_val bs) = bs"
proof (induction bs)
  case (Cons b bs)
  have "unat b < 256" by simp
  then have "(unat b + 256 * le_val bs) mod 256 = unat b"
    and "(unat b + 256 * le_val bs) div 256 = le_val bs" by simp_all
  with Cons show ?case by simp
qed simp

section \<open>Strings as byte sequences\<close>

definition char_byte :: "char \<Rightarrow> byte" where
  "char_byte c = of_nat (of_char c)"

definition byte_char :: "byte \<Rightarrow> char" where
  "byte_char b = char_of (unat b)"

lemma byte_char_char_byte [simp]: "byte_char (char_byte c) = c"
  by (simp add: byte_char_def char_byte_def unat_of_nat)

lemma char_byte_byte_char [simp]: "char_byte (byte_char b) = b"
proof -
  have "of_char (char_of (unat b) :: char) = unat b mod 256" by simp
  moreover have "unat b < 256" by simp
  ultimately show ?thesis by (simp add: char_byte_def byte_char_def)
qed

definition bytes_of_string :: "string \<Rightarrow> byte list" where
  "bytes_of_string s = map char_byte s"

definition string_of_bytes :: "byte list \<Rightarrow> string" where
  "string_of_bytes bs = map byte_char bs"

lemma string_of_bytes_of_string [simp]: "string_of_bytes (bytes_of_string s) = s"
  by (simp add: string_of_bytes_def bytes_of_string_def comp_def)

lemma bytes_of_string_simps [simp]:
  "bytes_of_string [] = []" "bytes_of_string (c # s) = char_byte c # bytes_of_string s"
  by (simp_all add: bytes_of_string_def)

lemma length_bytes_of_string [simp]: "length (bytes_of_string s) = length s"
  by (simp add: bytes_of_string_def)

section \<open>Decimal numerals\<close>

text \<open>\<open>std::to_string\<close> of an integer.\<close>

fun dec_digits :: "nat \<Rightarrow> string" where
  "dec_digits n = (if n < 10 then [char_of (48 + n)] else dec_digits (n div 10) @ [char_of (48 + n mod 10)])"

declare dec_digits.simps [simp del]

definition to_string :: "int \<Rightarrow> string" where
  "to_string i = (if i < 0 then ''-'' @ dec_digits (nat (- i)) else dec_digits (nat i))"

end
