(* ===== verification/Ieee.thy ===== *)
theory Ieee
  imports Prelude Complex_Main
begin

text \<open>
  The C++ floating-point types the server computes with: \<open>float\<close> and \<open>double\<close> as IEEE 754
  bit patterns, with the operations of the language the code uses (addition, multiplication,
  division, comparisons, conversions from and to integers, \<open>round\<close>), rounding to nearest with
  ties to even. A finite number is a sign, a mantissa and an exponent; every result is the exact
  rational result rounded once by \<open>round_mag\<close>. A NaN result is the quiet NaN of
  \<open>std::numeric_limits\<close>: the language leaves its payload open.

  The lemmas show that rounding is within half a unit of the exact value, that the mantissa
  fits the format and that what \<open>unpack\<close> reads back is what \<open>round_mag\<close> computed.
\<close>

section \<open>Formats\<close>

record fmt =
  prec :: nat
  ebits :: nat

definition binary32 :: fmt where
  "binary32 = \<lparr>prec = 24, ebits = 8\<rparr>"

definition binary64 :: fmt where
  "binary64 = \<lparr>prec = 53, ebits = 11\<rparr>"

text \<open>The exponent of the smallest subnormal, the pattern of infinity, the sign bit.\<close>

definition emin :: "fmt \<Rightarrow> int" where
  "emin F = 3 - 2 ^ (ebits F - 1) - int (prec F)"

definition inf_mag :: "fmt \<Rightarrow> nat" where
  "inf_mag F = (2 ^ ebits F - 1) * 2 ^ (prec F - 1)"

definition sign_bit :: "fmt \<Rightarrow> nat" where
  "sign_bit F = 2 ^ (ebits F + prec F - 1)"

datatype fpv = NaN | Inf bool | Fin bool nat int

section \<open>Rounding a positive rational\<close>

fun bitlen :: "nat \<Rightarrow> nat" where
  "bitlen n = (if n = 0 then 0 else Suc (bitlen (n div 2)))"

declare bitlen.simps [simp del]

text \<open>\<open>scaled num den e\<close> is \<open>num / den / 2\<^sup>e\<close> as a fraction of naturals.\<close>

definition scaled :: "nat \<Rightarrow> nat \<Rightarrow> int \<Rightarrow> nat \<times> nat" where
  "scaled num den e =
     (if 0 \<le> e then (num, den * 2 ^ nat e) else (num * 2 ^ nat (- e), den))"

definition flog :: "nat \<Rightarrow> nat \<Rightarrow> int" where
  "flog num den =
     (let k = int (bitlen num) - int (bitlen den); (n, d) = scaled num den k
      in if d \<le> n then k else k - 1)"

definition ulp_exp :: "fmt \<Rightarrow> nat \<Rightarrow> nat \<Rightarrow> int" where
  "ulp_exp F num den = max (emin F) (flog num den - (int (prec F) - 1))"

definition rne :: "nat \<Rightarrow> nat \<Rightarrow> nat" where
  "rne n d =
     (let q = n div d; r = n mod d
      in if d < 2 * r \<or> (2 * r = d \<and> odd q) then q + 1 else q)"

text \<open>The magnitude bits (exponent and fraction fields) of the rounded value.\<close>

definition round_mag :: "fmt \<Rightarrow> nat \<Rightarrow> nat \<Rightarrow> nat" where
  "round_mag F num den =
     (if num = 0 then 0
      else let e = ulp_exp F num den; (n, d) = scaled num den e
           in min (nat (e - emin F) * 2 ^ (prec F - 1) + rne n d) (inf_mag F))"

definition pack :: "fmt \<Rightarrow> bool \<Rightarrow> nat \<Rightarrow> nat" where
  "pack F s mag = (if s then sign_bit F else 0) + mag"

definition unpack :: "fmt \<Rightarrow> nat \<Rightarrow> fpv" where
  "unpack F bits =
     (let s = odd (bits div sign_bit F); mag = bits mod sign_bit F;
          b = mag div 2 ^ (prec F - 1); f = mag mod 2 ^ (prec F - 1)
      in if b = 2 ^ ebits F - 1 then (if f = 0 then Inf s else NaN)
         else if b = 0 then Fin s f (emin F)
         else Fin s (f + 2 ^ (prec F - 1)) (emin F + int b - 1))"

text \<open>Encoding a value of the format's extended range: \<open>Fin s m e\<close> is \<open>\<plusminus> m * 2\<^sup>e\<close>.\<close>

definition nan_bits :: "fmt \<Rightarrow> nat" where
  "nan_bits F = inf_mag F + 2 ^ (prec F - 2)"

definition fp_frac :: "fmt \<Rightarrow> bool \<Rightarrow> nat \<Rightarrow> nat \<Rightarrow> nat" where
  "fp_frac F s num den = pack F s (round_mag F num den)"

definition encode :: "fmt \<Rightarrow> fpv \<Rightarrow> nat" where
  "encode F v = (case v of
     NaN \<Rightarrow> nan_bits F
   | Inf s \<Rightarrow> pack F s (inf_mag F)
   | Fin s m e \<Rightarrow> (let (n, d) = scaled m 1 (- e) in fp_frac F s n d))"

section \<open>Operations\<close>

text \<open>The signed integer \<open>\<plusminus> m * 2\<^bsup>e - e0\<^esup>\<close>, for \<open>e0 \<le> e\<close>.\<close>

definition signed_at :: "int \<Rightarrow> bool \<Rightarrow> nat \<Rightarrow> int \<Rightarrow> int" where
  "signed_at e0 s m e = (if s then -1 else 1) * int (m * 2 ^ nat (e - e0))"

fun fp_add :: "fpv \<Rightarrow> fpv \<Rightarrow> fpv" where
  "fp_add NaN _ = NaN"
| "fp_add _ NaN = NaN"
| "fp_add (Inf s) (Inf t) = (if s = t then Inf s else NaN)"
| "fp_add (Inf s) (Fin _ _ _) = Inf s"
| "fp_add (Fin _ _ _) (Inf t) = Inf t"
| "fp_add (Fin s m e) (Fin t n f) =
     (let e0 = min e f; x = signed_at e0 s m e + signed_at e0 t n f
      in if x = 0 then Fin (s \<and> t) 0 e0 else Fin (x < 0) (nat \<bar>x\<bar>) e0)"

fun fp_mul :: "fpv \<Rightarrow> fpv \<Rightarrow> fpv" where
  "fp_mul NaN _ = NaN"
| "fp_mul _ NaN = NaN"
| "fp_mul (Inf s) (Inf t) = Inf (s \<noteq> t)"
| "fp_mul (Inf s) (Fin t n _) = (if n = 0 then NaN else Inf (s \<noteq> t))"
| "fp_mul (Fin s m _) (Inf t) = (if m = 0 then NaN else Inf (s \<noteq> t))"
| "fp_mul (Fin s m e) (Fin t n f) = Fin (s \<noteq> t) (m * n) (e + f)"

text \<open>Division yields the bits: the exact quotient need not be a multiple of a power of two.\<close>

fun fp_div :: "fmt \<Rightarrow> fpv \<Rightarrow> fpv \<Rightarrow> nat" where
  "fp_div F NaN _ = nan_bits F"
| "fp_div F _ NaN = nan_bits F"
| "fp_div F (Inf _) (Inf _) = nan_bits F"
| "fp_div F (Inf s) (Fin t _ _) = pack F (s \<noteq> t) (inf_mag F)"
| "fp_div F (Fin s _ _) (Inf t) = pack F (s \<noteq> t) 0"
| "fp_div F (Fin s m e) (Fin t n f) =
     (if n = 0 then (if m = 0 then nan_bits F else pack F (s \<noteq> t) (inf_mag F))
      else let (a, b) = scaled m n (f - e) in fp_frac F (s \<noteq> t) a b)"

fun fp_lt :: "fpv \<Rightarrow> fpv \<Rightarrow> bool" where
  "fp_lt (Inf s) (Inf t) = (s \<and> \<not> t)"
| "fp_lt (Inf s) (Fin _ _ _) = s"
| "fp_lt (Fin _ _ _) (Inf t) = (\<not> t)"
| "fp_lt (Fin s m e) (Fin t n f) =
     (let e0 = min e f in signed_at e0 s m e < signed_at e0 t n f)"
| "fp_lt _ _ = False"

fun fp_eq :: "fpv \<Rightarrow> fpv \<Rightarrow> bool" where
  "fp_eq (Inf s) (Inf t) = (s = t)"
| "fp_eq (Fin s m e) (Fin t n f) =
     (let e0 = min e f in signed_at e0 s m e = signed_at e0 t n f)"
| "fp_eq _ _ = False"

definition fp_le :: "fpv \<Rightarrow> fpv \<Rightarrow> bool" where
  "fp_le x y \<longleftrightarrow> fp_lt x y \<or> fp_eq x y"

definition fp_of_int :: "int \<Rightarrow> fpv" where
  "fp_of_int i = Fin (i < 0) (nat \<bar>i\<bar>) 0"

text \<open>
  The conversion to an integer type truncates; it is defined for finite values only (the
  language leaves the others, and values out of the target's range, undefined).
\<close>

fun fp_trunc :: "fpv \<Rightarrow> int option" where
  "fp_trunc (Fin s m e) =
     Some ((if s then -1 else 1) * int (if 0 \<le> e then m * 2 ^ nat e else m div 2 ^ nat (- e)))"
| "fp_trunc _ = None"

text \<open>\<open>std::round\<close>: to the nearest integer, halves away from zero.\<close>

fun fp_round_away :: "fpv \<Rightarrow> int option" where
  "fp_round_away (Fin s m e) =
     Some ((if s then -1 else 1) *
       int (if 0 \<le> e then m * 2 ^ nat e
            else (2 * m + 2 ^ nat (- e)) div (2 * 2 ^ nat (- e))))"
| "fp_round_away _ = None"

subsection \<open>The two C++ types\<close>

type_synonym double = "64 word"
type_synonym float = "32 word"

definition d_val :: "double \<Rightarrow> fpv" where "d_val x = unpack binary64 (unat x)"
definition f_val :: "float \<Rightarrow> fpv" where "f_val x = unpack binary32 (unat x)"
definition d_enc :: "fpv \<Rightarrow> double" where "d_enc v = of_nat (encode binary64 v)"
definition f_enc :: "fpv \<Rightarrow> float" where "f_enc v = of_nat (encode binary32 v)"

definition d_add :: "double \<Rightarrow> double \<Rightarrow> double" where
  "d_add x y = d_enc (fp_add (d_val x) (d_val y))"

definition d_mul :: "double \<Rightarrow> double \<Rightarrow> double" where
  "d_mul x y = d_enc (fp_mul (d_val x) (d_val y))"

definition d_div :: "double \<Rightarrow> double \<Rightarrow> double" where
  "d_div x y = of_nat (fp_div binary64 (d_val x) (d_val y))"

definition d_of_int :: "int \<Rightarrow> double" where "d_of_int i = d_enc (fp_of_int i)"
definition d_of_ratio :: "nat \<Rightarrow> nat \<Rightarrow> double" where
  "d_of_ratio n d = of_nat (fp_frac binary64 False n d)"

definition f_of_int :: "int \<Rightarrow> float" where "f_of_int i = f_enc (fp_of_int i)"
definition f_div :: "float \<Rightarrow> float \<Rightarrow> float" where
  "f_div x y = of_nat (fp_div binary32 (f_val x) (f_val y))"

definition d_of_f :: "float \<Rightarrow> double" where "d_of_f x = d_enc (f_val x)"
definition f_of_d :: "double \<Rightarrow> float" where "f_of_d x = f_enc (d_val x)"

definition d_zero :: double where "d_zero = 0"

section \<open>Rounding is correct\<close>

lemma bitlen_0 [simp]: "bitlen 0 = 0"
  by (simp add: bitlen.simps)

lemma bitlen_bounds: "0 < n \<Longrightarrow> 2 ^ (bitlen n - 1) \<le> n \<and> n < 2 ^ bitlen n \<and> 0 < bitlen n"
proof (induction n rule: bitlen.induct)
  case (1 n)
  show ?case
  proof (cases "n = 1")
    case True
    have "bitlen 1 = 1" by (simp add: bitlen.simps [of "Suc 0"])
    with True show ?thesis by simp
  next
    case False
    with 1 have IH: "2 ^ (bitlen (n div 2) - 1) \<le> n div 2" "n div 2 < 2 ^ bitlen (n div 2)"
      "0 < bitlen (n div 2)" by auto
    have b: "bitlen n = Suc (bitlen (n div 2))"
      using 1 by (simp add: bitlen.simps [of n])
    obtain k where k: "bitlen (n div 2) = Suc k"
      using IH(3) gr0_implies_Suc by blast
    have "2 ^ Suc k \<le> n" and "n < 2 ^ Suc (Suc k)"
      using IH(1,2) k by simp_all
    then show ?thesis by (simp add: b k)
  qed
qed

abbreviation ratio :: "nat \<Rightarrow> nat \<Rightarrow> real" where
  "ratio n d \<equiv> real n / real d"

lemma scaled_ratio:
  assumes "scaled num den e = (n, d)"
  shows "ratio n d = ratio num den / 2 powi e"
  using assms
  by (auto simp: scaled_def power_int_def field_simps split: if_splits)

lemma scaled_pos:
  assumes "scaled num den e = (n, d)" and "0 < den"
  shows "0 < d"
  using assms by (auto simp: scaled_def split: if_splits)

lemma flog_bounds:
  assumes "0 < num" and "0 < den"
  shows "2 powi flog num den \<le> ratio num den" and "ratio num den < 2 powi (flog num den + 1)"
proof -
  define k where "k = int (bitlen num) - int (bitlen den)"
  obtain n d where nd: "scaled num den k = (n, d)" by (cases "scaled num den k") auto
  have d: "0 < d" using scaled_pos [OF nd] assms by simp
  note bn = bitlen_bounds [OF assms(1)] and bd = bitlen_bounds [OF assms(2)]
  have pw: "(2::real) powi (int (bitlen m) - 1) \<le> real m" "real m < 2 powi int (bitlen m)"
    if "0 < m" for m
  proof -
    have "(2::real) ^ (bitlen m - 1) \<le> real m"
      using bitlen_bounds [OF that] by (metis of_nat_le_iff of_nat_numeral of_nat_power)
    moreover have "int (bitlen m) - 1 = int (bitlen m - 1)"
      using bitlen_bounds [OF that] by simp
    ultimately show "(2::real) powi (int (bitlen m) - 1) \<le> real m"
      by (simp only: power_int_of_nat)
    show "real m < 2 powi int (bitlen m)"
      using bitlen_bounds [OF that] by (metis of_nat_less_iff of_nat_numeral of_nat_power power_int_of_nat)
  qed
  have up: "ratio num den < 2 powi (k + 1)"
  proof -
    have "real num < 2 powi int (bitlen num)" using pw assms by simp
    also have "(2::real) powi int (bitlen num) = 2 powi (k + 1) * 2 powi (int (bitlen den) - 1)"
      by (simp add: k_def flip: power_int_add)
    also have "\<dots> \<le> 2 powi (k + 1) * real den"
      using pw(1) [OF assms(2)] by (intro mult_left_mono) auto
    finally show ?thesis using assms by (simp add: field_simps)
  qed
  have lo: "2 powi (k - 1) \<le> ratio num den"
  proof -
    have "2 powi (k - 1) * real den \<le> 2 powi (k - 1) * 2 powi int (bitlen den)"
      using pw(2) [OF assms(2)] by (intro mult_left_mono) auto
    also have "\<dots> = 2 powi (int (bitlen num) - 1)"
      unfolding k_def by (subst power_int_add [symmetric]) (auto simp: algebra_simps)
    also have "\<dots> \<le> real num" using pw assms by simp
    finally show ?thesis using assms by (simp add: field_simps)
  qed
  have "d \<le> n \<longleftrightarrow> 1 \<le> ratio n d" using d by (simp add: le_divide_eq_1)
  then have mid: "d \<le> n \<longleftrightarrow> 2 powi k \<le> ratio num den"
    unfolding scaled_ratio [OF nd]
    by (simp only: le_divide_eq_1_pos zero_less_power_int zero_less_numeral)
  have fl: "flog num den = (if d \<le> n then k else k - 1)"
    using nd by (simp add: flog_def k_def [symmetric])
  show "2 powi flog num den \<le> ratio num den" using fl mid lo by simp
  show "ratio num den < 2 powi (flog num den + 1)" using fl mid up by auto
qed

text \<open>Round to nearest: the result is within half a unit, and never passes an integer bound.\<close>

lemma rne_half_unit:
  assumes "0 < d"
  shows "2 * rne n d * d \<le> 2 * n + d" and "2 * n \<le> 2 * rne n d * d + d"
proof -
  define q r where "q = n div d" and "r = n mod d"
  have n: "n = q * d + r" and r: "r < d" using assms by (simp_all add: q_def r_def)
  have c: "rne n d = q + 1 \<and> d \<le> 2 * r \<or> rne n d = q \<and> 2 * r \<le> d"
    by (auto simp: rne_def Let_def q_def r_def)
  show "2 * rne n d * d \<le> 2 * n + d" "2 * n \<le> 2 * rne n d * d + d"
    using c r unfolding n by (auto simp: algebra_simps)
qed

lemma rne_le: "0 < d \<Longrightarrow> n \<le> k * d \<Longrightarrow> rne n d \<le> k"
proof -
  assume d: "0 < d" and le: "n \<le> k * d"
  define q r where "q = n div d" and "r = n mod d"
  have n: "n = q * d + r" and r: "r < d" using d by (simp_all add: q_def r_def)
  have "q \<le> k" using le n d
    by (metis div_le_mono nonzero_mult_div_cancel_right q_def less_not_refl2)
  moreover have "r = 0" if "q = k" using le n that by simp
  ultimately show "rne n d \<le> k" using d
    by (cases "q = k") (auto simp: rne_def Let_def q_def [symmetric] r_def [symmetric])
qed

lemma rne_ge: "0 < d \<Longrightarrow> k * d \<le> n \<Longrightarrow> k \<le> rne n d"
proof -
  assume d: "0 < d" and le: "k * d \<le> n"
  then have "k \<le> n div d" by (simp add: less_eq_div_iff_mult_less_eq)
  then show "k \<le> rne n d" by (auto simp: rne_def Let_def)
qed

lemma rne_exact: "0 < d \<Longrightarrow> rne (k * d) d = k"
  by (simp add: rne_def Let_def)

text \<open>The mantissa fits the format, and has the leading bit unless the number is subnormal.\<close>

lemma mantissa_bounds:
  assumes "0 < num" and "0 < den" and "0 < prec F"
    and "scaled num den (ulp_exp F num den) = (n, d)"
  shows "rne n d \<le> 2 ^ prec F"
    and "emin F < ulp_exp F num den \<Longrightarrow> 2 ^ (prec F - 1) \<le> rne n d"
proof -
  let ?e = "ulp_exp F num den" and ?l = "flog num den"
  note d = scaled_pos [OF assms(4,2)]
  note sr = scaled_ratio [OF assms(4)]
  note fb = flog_bounds [OF assms(1,2)]
  have "ratio num den < 2 powi (?e + int (prec F))"
    using fb(2) by (rule less_le_trans) (simp add: ulp_exp_def power_int_increasing)
  then have "ratio num den < 2 ^ prec F * 2 powi ?e"
    by (simp add: power_int_add mult.commute)
  then have "ratio n d < 2 ^ prec F"
    unfolding sr by (subst pos_divide_less_eq) simp_all
  then have "real n < 2 ^ prec F * real d" using d by (simp add: pos_divide_less_eq)
  then have "real n < real (2 ^ prec F * d)" by simp
  then have "n \<le> 2 ^ prec F * d" by (simp only: of_nat_less_iff less_imp_le)
  then show "rne n d \<le> 2 ^ prec F" by (rule rne_le [OF d])
  assume "emin F < ?e"
  then have e: "?e = ?l - (int (prec F) - 1)" by (auto simp: ulp_exp_def)
  have "2 powi (?e + int (prec F - 1)) \<le> ratio num den"
    using fb(1) assms(3) by (simp add: e of_nat_diff)
  then have "2 ^ (prec F - 1) * 2 powi ?e \<le> ratio num den"
    by (simp add: power_int_add mult.commute)
  then have "2 ^ (prec F - 1) \<le> ratio n d"
    unfolding sr by (subst pos_le_divide_eq) simp_all
  then have "2 ^ (prec F - 1) * real d \<le> real n" using d by (simp add: pos_le_divide_eq)
  then have "real (2 ^ (prec F - 1) * d) \<le> real n" by simp
  then have "2 ^ (prec F - 1) * d \<le> n" by (simp only: of_nat_le_iff)
  then show "2 ^ (prec F - 1) \<le> rne n d" by (rule rne_ge [OF d])
qed

text \<open>Reading back the magnitude \<open>x * 2\<^bsup>p-1\<^esup> + m\<close> of a mantissa in its range.\<close>

lemma unpack_mag:
  assumes "2 \<le> prec F" and "x * 2 ^ (prec F - 1) + m < inf_mag F"
    and "m < 2 ^ prec F" and "0 < x \<longrightarrow> 2 ^ (prec F - 1) \<le> m"
  shows "unpack F (pack F s (x * 2 ^ (prec F - 1) + m)) = Fin s m (emin F + int x)"
proof -
  let ?p = "2 ^ (prec F - 1) :: nat" and ?g = "x * 2 ^ (prec F - 1) + m"
  have p: "2 ^ prec F = 2 * ?p" using assms(1) by (cases "prec F") simp_all
  have sb: "sign_bit F = 2 ^ ebits F * ?p"
    using assms(1) by (simp add: sign_bit_def flip: power_add)
  have lt: "?g < sign_bit F"
    using assms(2) unfolding sb inf_mag_def by (rule less_le_trans) simp
  have sgn: "odd (pack F s ?g div sign_bit F) = s" "pack F s ?g mod sign_bit F = ?g"
    using lt by (auto simp: pack_def)
  have b: "?g div ?p \<noteq> 2 ^ ebits F - 1"
  proof
    assume "?g div ?p = 2 ^ ebits F - 1"
    then have "(2 ^ ebits F - 1) * ?p \<le> ?g" by (metis div_times_less_eq_dividend)
    with assms(2) show False by (simp add: inf_mag_def)
  qed
  show ?thesis
  proof (cases "m < ?p")
    case True
    with assms(4) have "x = 0" by simp
    with True sgn b show ?thesis by (simp add: unpack_def Let_def)
  next
    case False
    then have m: "?g = (x + 1) * ?p + (m - ?p)" "m - ?p < ?p"
      using assms(3) p by simp_all
    have "(y * ?p + r) div ?p = y" "(y * ?p + r) mod ?p = r" if "r < ?p" for y r
      using that by simp_all
    then have "?g div ?p = x + 1" "?g mod ?p = m - ?p"
      unfolding m(1) using m(2) by blast+
    with False sgn b show ?thesis by (simp add: unpack_def Let_def)
  qed
qed

text \<open>
  What a rounded fraction reads back as: the rounded mantissa at the chosen exponent, or, when
  rounding carried into the next binade, half of it at the next exponent: the same number.
\<close>

lemma unpack_frac:
  assumes "0 < num" and "0 < den" and "2 \<le> prec F"
    and sc: "scaled num den (ulp_exp F num den) = (n, d)"
    and fin: "nat (ulp_exp F num den - emin F) * 2 ^ (prec F - 1) + rne n d < inf_mag F"
  shows "unpack F (fp_frac F s num den) =
    (if rne n d = 2 ^ prec F then Fin s (2 ^ (prec F - 1)) (ulp_exp F num den + 1)
     else Fin s (rne n d) (ulp_exp F num den))"
proof -
  let ?e = "ulp_exp F num den"
  define x where "x = nat (?e - emin F)"
  have e: "emin F + int x = ?e" by (simp add: x_def ulp_exp_def)
  have rm: "round_mag F num den = x * 2 ^ (prec F - 1) + rne n d"
    using assms(1) sc fin by (simp add: round_mag_def Let_def x_def)
  note mb = mantissa_bounds [OF assms(1,2) _ sc]
  show ?thesis
  proof (cases "rne n d = 2 ^ prec F")
    case True
    have "rne n d = 2 ^ (prec F - 1) + 2 ^ (prec F - 1)"
      using True assms(3) by (cases "prec F") simp_all
    then have "x * 2 ^ (prec F - 1) + rne n d = Suc x * 2 ^ (prec F - 1) + 2 ^ (prec F - 1)"
      by simp
    then show ?thesis
      using True unpack_mag [of F "Suc x" "2 ^ (prec F - 1)" s] assms(3) fin e rm
      by (simp add: fp_frac_def x_def add_ac)
  next
    case False
    then have "rne n d < 2 ^ prec F" using mb(1) assms(3) by simp
    moreover have "0 < x \<longrightarrow> 2 ^ (prec F - 1) \<le> rne n d"
      using mb(2) assms(3) by (simp add: x_def)
    ultimately show ?thesis
      using False unpack_mag [of F x "rne n d" s] assms(3) fin e rm
      by (simp add: fp_frac_def x_def)
  qed
qed

text \<open>Only the value of the fraction matters, not its terms.\<close>

lemma flog_unique:
  assumes "0 < num" and "0 < den" and "2 powi l \<le> ratio num den" and "ratio num den < 2 powi (l + 1)"
  shows "flog num den = l"
proof -
  note fb = flog_bounds [OF assms(1,2)]
  have "(2::real) powi flog num den < 2 powi (l + 1)" "(2::real) powi l < 2 powi (flog num den + 1)"
    using fb assms(3,4) by linarith+
  then have "flog num den < l + 1" "l < flog num den + 1"
    by (metis linorder_not_less one_le_numeral power_int_increasing)+
  then show ?thesis by simp
qed

lemma flog_cancel: "0 < num \<Longrightarrow> 0 < den \<Longrightarrow> 0 < k \<Longrightarrow> flog (num * k) (den * k) = flog num den"
  using flog_bounds [of num den] by (intro flog_unique) simp_all

lemma rne_cancel: "0 < k \<Longrightarrow> rne (n * k) (d * k) = rne n d"
  by (simp add: rne_def Let_def mult_ac)

lemma frac_cancel:
  assumes "0 < num" and "0 < den" and "0 < k"
  shows "fp_frac F s (num * k) (den * k) = fp_frac F s num den"
proof -
  obtain n d where nd: "scaled num den (ulp_exp F num den) = (n, d)" by force
  have e: "ulp_exp F (num * k) (den * k) = ulp_exp F num den"
    using assms by (simp add: ulp_exp_def flog_cancel)
  have "scaled (num * k) (den * k) (ulp_exp F num den) = (n * k, d * k)"
    using nd by (auto simp: scaled_def split: if_splits)
  then show ?thesis using nd assms e by (simp add: fp_frac_def round_mag_def rne_cancel)
qed

lemma frac_less:
  assumes "2 \<le> prec F"
  shows "fp_frac F s num den < 2 * sign_bit F"
proof -
  have "sign_bit F = 2 ^ ebits F * 2 ^ (prec F - 1)"
    using assms by (simp add: sign_bit_def flip: power_add)
  then have "inf_mag F < sign_bit F" by (simp add: inf_mag_def)
  moreover have "round_mag F num den \<le> inf_mag F"
    by (simp add: round_mag_def Let_def split: prod.split)
  ultimately show ?thesis by (simp add: fp_frac_def pack_def)
qed

subsection \<open>Small integers are exact, and so is the rounding of their quotient\<close>

lemmas binary32_consts [simp] =
  binary32_def [THEN arg_cong [where f = prec], simplified]
  binary32_def [THEN arg_cong [where f = ebits], simplified]

lemma emin_binary32 [simp]: "emin binary32 = -149"
  by (simp add: emin_def)

lemma inf_mag_binary32 [simp]: "inf_mag binary32 = 2139095040"
  by (simp add: inf_mag_def)

text \<open>Rounding a quotient between 1 and \<open>2\<^sup>1\<^sup>2\<close> to \<open>float\<close>.\<close>

lemma float_quotient:
  assumes "0 < b" and "b \<le> a" and "a < 4096"
  obtains t where "12 \<le> t" and "t \<le> 23"
    and "unpack binary32 (fp_frac binary32 s a b) = Fin s (rne (a * 2 ^ t) b) (- int t) \<or>
      rne (a * 2 ^ t) b = 2 ^ 24 \<and>
      unpack binary32 (fp_frac binary32 s a b) = Fin s (2 ^ 23) (- int t + 1)"
proof -
  let ?l = "flog a b"
  have pos: "0 < a" using assms by simp
  note fb = flog_bounds [OF pos assms(1)]
  have r: "1 \<le> ratio a b" "ratio a b < 4096"
    using assms by (simp_all add: le_divide_eq_1_pos pos_divide_less_eq)
  have "(2::real) powi ?l < 2 powi 12" using fb(1) r(2) by simp
  then have l12: "?l < 12" by (metis linorder_not_less one_le_numeral power_int_increasing)
  have "(2::real) powi 0 < 2 powi (?l + 1)" using fb(2) r(1) by simp
  then have l0: "0 < ?l + 1" by (metis linorder_not_less one_le_numeral power_int_increasing)
  define t where "t = nat (23 - ?l)"
  have t: "12 \<le> t" "t \<le> 23" "ulp_exp binary32 a b = - int t"
    using l12 l0 by (auto simp: t_def ulp_exp_def)
  have sc: "scaled a b (ulp_exp binary32 a b) = (a * 2 ^ t, b)"
    using t by (simp add: scaled_def)
  have "rne (a * 2 ^ t) b \<le> 2 ^ 24"
    using mantissa_bounds(1) [OF pos assms(1) _ sc] by simp
  then have fin: "nat (ulp_exp binary32 a b - emin binary32) * 2 ^ (prec binary32 - 1) +
      rne (a * 2 ^ t) b < inf_mag binary32"
    using t by (simp add: nat_diff_distrib)
  show ?thesis
    by (rule that [OF t(1,2)])
      (use unpack_frac [OF pos assms(1) _ sc fin, of s] t(3) in \<open>auto split: if_splits\<close>)
qed

lemma nearest_quotient:
  fixes a b m t :: nat
  assumes "0 < b" and "b < 2 ^ t" and "0 < t" and m: "m = rne (a * 2 ^ t) b"
  shows "(2 * m + 2 ^ t) div (2 * 2 ^ t) = (2 * a + b) div (2 * b)"
proof -
  define r T where "r = (2 * a + b) div (2 * b)" and "T = (2::nat) ^ t"
  have ev: "even T" using assms(3) by (simp add: T_def)
  have r: "2 * b * r \<le> 2 * a + b" "2 * a + b < 2 * b * (r + 1)"
    using assms(1) div_times_less_eq_dividend [of "2 * a + b" "2 * b"]
      dividend_less_div_times [of "2 * b" "2 * a + b"]
    by (simp_all add: r_def mult.commute)
  have hi: "2 * m * b \<le> 2 * (a * T) + b" and lo: "2 * (a * T) \<le> 2 * m * b + b"
    using rne_half_unit [OF assms(1), of "a * T"] by (simp_all add: m T_def)
  have "2 * T * r \<le> 2 * m + T"
  proof (rule ccontr)
    assume "\<not> 2 * T * r \<le> 2 * m + T"
    moreover have "x + 2 \<le> y" if "x < y" "even x" "even y" for x y :: nat
      using that by presburger
    ultimately have "2 * m + T + 2 \<le> 2 * T * r" using ev by simp
    then have "(2 * m + T + 2) * b \<le> T * (2 * b * r)"
      using mult_le_mono1 [of "2 * m + T + 2" "2 * T * r" b] by (simp add: mult_ac)
    also have "\<dots> \<le> T * (2 * a + b)" using r(1) by (rule mult_le_mono2)
    finally have "2 * m * b + T * b + 2 * b \<le> 2 * (a * T) + T * b" by (simp add: algebra_simps)
    with lo assms(1) show False by linarith
  qed
  moreover have "2 * m + T < 2 * T * Suc r"
  proof (rule ccontr)
    assume "\<not> 2 * m + T < 2 * T * Suc r"
    then have "2 * T * Suc r * b \<le> (2 * m + T) * b" by (intro mult_le_mono1) simp
    moreover have "T * (2 * a + b + 1) \<le> T * (2 * b * (r + 1))"
      using r(2) by (intro mult_le_mono2) simp
    ultimately have "2 * (a * T) + T * b + T \<le> 2 * m * b + T * b" by (simp add: algebra_simps)
    with hi have "T \<le> b" by linarith
    with assms(2) show False by (simp add: T_def)
  qed
  ultimately have "(2 * m + T) div (2 * T) = r" by (intro div_nat_eqI) (simp_all add: mult_ac)
  then show ?thesis by (simp add: T_def r_def)
qed

lemma fp_round_away_float_quotient:
  assumes "0 < b" and "b \<le> a" and "a < 4096"
  shows "fp_round_away (unpack binary32 (fp_frac binary32 s a b)) =
    Some ((if s then -1 else 1) * int ((2 * a + b) div (2 * b)))"
proof -
  obtain t where t: "12 \<le> t" "t \<le> 23"
    and u: "unpack binary32 (fp_frac binary32 s a b) = Fin s (rne (a * 2 ^ t) b) (- int t) \<or>
      rne (a * 2 ^ t) b = 2 ^ 24 \<and>
      unpack binary32 (fp_frac binary32 s a b) = Fin s (2 ^ 23) (- int t + 1)"
    using float_quotient [OF assms] by blast
  have "b < 4096" using assms by simp
  also have "(4096::nat) \<le> 2 ^ t" using power_increasing [OF t(1), of "2::nat"] by simp
  finally have q: "(2 * rne (a * 2 ^ t) b + 2 ^ t) div (2 * 2 ^ t) = (2 * a + b) div (2 * b)"
    using t(1) assms(1) by (intro nearest_quotient) simp_all
  obtain u' where t': "t = Suc u'" using t(1) by (cases t) auto
  have "(2 * 2 ^ 24 + 2 ^ Suc u') div (2 * 2 ^ Suc u') = (2 * 2 ^ 23 + 2 ^ u') div (2 * 2 ^ u' :: nat)"
  proof -
    have "2 * 2 ^ 24 + 2 ^ Suc u' = 2 * (2 * 2 ^ 23 + 2 ^ u' :: nat)" by simp
    then show ?thesis by (simp only: power_Suc div_mult_mult1 zero_neq_numeral)
  qed
  note half = this
  from u show ?thesis
  proof (elim disjE conjE)
    assume "unpack binary32 (fp_frac binary32 s a b) = Fin s (rne (a * 2 ^ t) b) (- int t)"
    with q t(1) show ?thesis by simp
  next
    assume m: "rne (a * 2 ^ t) b = 2 ^ 24"
      and v: "unpack binary32 (fp_frac binary32 s a b) = Fin s (2 ^ 23) (- int t + 1)"
    have "- int t + 1 = - int u'" "0 < u'" using t(1) by (simp_all add: t')
    with v half q show ?thesis by (simp only: m) (simp add: t')
  qed
qed

text \<open>Converting an integer below \<open>2\<^sup>1\<^sup>2\<close> to \<open>float\<close> is exact.\<close>

lemma f_val_of_nat:
  assumes "0 < a" and "a < 4096"
  obtains t where "f_val (f_of_int (int a)) = Fin False (a * 2 ^ t) (- int t)"
proof -
  obtain t where t: "12 \<le> t" "t \<le> 23"
    and u: "unpack binary32 (fp_frac binary32 False a 1) = Fin False (rne (a * 2 ^ t) 1) (- int t) \<or>
      rne (a * 2 ^ t) 1 = 2 ^ 24 \<and>
      unpack binary32 (fp_frac binary32 False a 1) = Fin False (2 ^ 23) (- int t + 1)"
    using float_quotient [of 1 a] assms by auto
  have rne1: "rne (a * 2 ^ t) 1 = a * 2 ^ t" using rne_exact [of 1 "a * 2 ^ t"] by simp
  have "unat (f_of_int (int a)) = fp_frac binary32 False a 1"
    using frac_less [of binary32 False a 1] assms(1)
    by (simp add: f_of_int_def f_enc_def fp_of_int_def encode_def scaled_def sign_bit_def unat_of_nat)
  then have v: "f_val (f_of_int (int a)) = unpack binary32 (fp_frac binary32 False a 1)"
    by (simp add: f_val_def)
  show ?thesis
  proof (cases "rne (a * 2 ^ t) 1 = 2 ^ 24 \<and>
      unpack binary32 (fp_frac binary32 False a 1) = Fin False (2 ^ 23) (- int t + 1)")
    case False
    with u v rne1 show ?thesis by (intro that [of t]) auto
  next
    case True
    obtain t' where t': "t = Suc t'" using t(1) by (cases t) auto
    have "a * 2 ^ t' = 2 ^ 23" using True rne1 by (simp add: t')
    with True v show ?thesis by (intro that [of t']) (simp add: t')
  qed
qed

lemma f_div_small:
  assumes "0 < a" and "a < 4096" and "0 < b" and "b < 4096"
  shows "f_val (f_div (f_of_int (int a)) (f_of_int (int b))) = unpack binary32 (fp_frac binary32 False a b)"
proof -
  obtain t where t: "f_val (f_of_int (int a)) = Fin False (a * 2 ^ t) (- int t)"
    using f_val_of_nat assms by blast
  obtain u where u: "f_val (f_of_int (int b)) = Fin False (b * 2 ^ u) (- int u)"
    using f_val_of_nat assms by blast
  have "fp_div binary32 (Fin False (a * 2 ^ t) (- int t)) (Fin False (b * 2 ^ u) (- int u)) =
    fp_frac binary32 False a b"
  proof (cases "u \<le> t")
    case True
    then have "nat (int t - int u) = t - u" "(2::nat) ^ u * 2 ^ (t - u) = 2 ^ t"
      by (simp_all flip: power_add)
    with True assms frac_cancel [of a b "2 ^ t" binary32 False] show ?thesis
      by (simp add: scaled_def mult.assoc)
  next
    case False
    then have "nat (int u - int t) = u - t" "(2::nat) ^ t * 2 ^ (u - t) = 2 ^ u"
      by (simp_all flip: power_add)
    with False assms frac_cancel [of a b "2 ^ u" binary32 False] show ?thesis
      by (simp add: scaled_def mult.assoc)
  qed
  note eq = this
  have "fp_frac binary32 False a b < 2 ^ 32"
    using frac_less [of binary32 False a b] by (simp add: sign_bit_def)
  then have "unat (f_div (f_of_int (int a)) (f_of_int (int b))) = fp_frac binary32 False a b"
    unfolding f_div_def t u eq by (simp add: unat_of_nat)
  then show ?thesis by (simp only: f_val_def)
qed

end
