(* ===== verification/Wire.thy ===== *)
theory Wire
  imports Prelude Ieee
begin

text \<open>
  The wire protocol of \<open>server/server.hpp\<close>: the opcode, state and status enumerations, and the
  \<open>send\<close>/\<open>receive\<close> codec over a TCP socket.

  A socket is what one connection's thread sees of it: the bytes the client will still deliver
  before it closes its end (a blocking read that needs more than that fails with end-of-stream),
  the bytes written so far, and how many more bytes the peer takes before the connection breaks
  (\<open>None\<close>: no limit). The server and its clients are little-endian, as the raw memory copies of
  the codec assume.

  The lemmas state the codec's contract as a locale, what one side sends the other receives, and
  discharge it for integers, strings, \<open>float\<close> and \<open>double\<close>.
\<close>

section \<open>Enumerations\<close>

datatype operation =
    CREATE | START | CONTINUE | STOP | GET | FINALIZE
  | INFO_DEVICE | LIST_DEVICES | CMD_STATUS | READ_DEVICE | OP_ERROR

fun op_code :: "operation \<Rightarrow> int" where
  "op_code CREATE = 0"
| "op_code START = 1"
| "op_code CONTINUE = 2"
| "op_code STOP = 3"
| "op_code GET = 4"
| "op_code FINALIZE = 5"
| "op_code INFO_DEVICE = 6"
| "op_code LIST_DEVICES = 7"
| "op_code CMD_STATUS = 8"
| "op_code READ_DEVICE = 9"
| "op_code OP_ERROR = -1"

datatype state = INACTIVE | ACTIVE

datatype retval = SUCCESS | ERROR | ERRORF

fun retval_code :: "retval \<Rightarrow> int" where
  "retval_code SUCCESS = 0"
| "retval_code ERROR = -1"
| "retval_code ERRORF = -2"

datatype devtype = SINGLE | MULTIPLE

fun devtype_code :: "devtype \<Rightarrow> int" where
  "devtype_code SINGLE = 0"
| "devtype_code MULTIPLE = 1"

section \<open>Sockets\<close>

record sock =
  s_in :: "byte list"
  s_out :: "byte list"
  s_room :: "nat option"

definition sock_write :: "byte list \<Rightarrow> (sock, nat) prog" where
  "sock_write bs = (\<lambda>s. case s_room s of
     None \<Rightarrow> (Ok (length bs), s\<lparr>s_out := s_out s @ bs\<rparr>)
   | Some k \<Rightarrow>
       if length bs \<le> k
       then (Ok (length bs), s\<lparr>s_out := s_out s @ bs, s_room := Some (k - length bs)\<rparr>)
       else (Throw Broken_pipe, s\<lparr>s_out := s_out s @ take k bs, s_room := Some 0\<rparr>))"

definition sock_read :: "nat \<Rightarrow> (sock, byte list) prog" where
  "sock_read n = (\<lambda>s.
     if n \<le> length (s_in s) then (Ok (take n (s_in s)), s\<lparr>s_in := drop n (s_in s)\<rparr>)
     else (Throw Eof, s\<lparr>s_in := []\<rparr>))"

section \<open>Layout of the values\<close>

definition int_bytes :: "int \<Rightarrow> byte list" where
  "int_bytes x = le_bytes 4 (nat (x mod 4294967296))"

definition bytes_int :: "byte list \<Rightarrow> int" where
  "bytes_int bs = i32 (int (le_val bs))"

definition double_bytes :: "double \<Rightarrow> byte list" where
  "double_bytes x = le_bytes 8 (unat x)"

definition float_bytes :: "float \<Rightarrow> byte list" where
  "float_bytes x = le_bytes 4 (unat x)"

definition string_bytes :: "string \<Rightarrow> byte list" where
  "string_bytes str = int_bytes (i32 (int (length str))) @ bytes_of_string str"

section \<open>send and receive\<close>

text \<open>\<open>send<T>\<close> of a fixed-size value: its object representation.\<close>

definition send_raw :: "byte list \<Rightarrow> (sock, nat) prog" where
  "send_raw repr = sock_write repr"

definition send_int :: "int \<Rightarrow> (sock, nat) prog" where
  "send_int x = send_raw (int_bytes x)"

definition send_float :: "float \<Rightarrow> (sock, nat) prog" where
  "send_float x = send_raw (float_bytes x)"

definition send_vector :: "('a \<Rightarrow> byte list) \<Rightarrow> 'a list \<Rightarrow> (sock, nat) prog" where
  "send_vector repr xs =
     bind_p (send_int (int (length xs))) (\<lambda>n.
     bind_p (sock_write (concat (map repr xs))) (\<lambda>k.
     ret_p (n + k)))"

definition send_string :: "string \<Rightarrow> (sock, nat) prog" where
  "send_string str =
     bind_p (sock_write (int_bytes (i32 (int (length str))))) (\<lambda>n.
     bind_p (sock_write (bytes_of_string str)) (\<lambda>k.
     ret_p (n + k)))"

definition receive_raw :: "nat \<Rightarrow> (sock, byte list) prog" where
  "receive_raw n = sock_read n"

definition receive_int :: "(sock, int) prog" where
  "receive_int = bind_p (receive_raw 4) (\<lambda>bs. ret_p (bytes_int bs))"

text \<open>
  \<open>receive<bool, int>\<close> reads four bytes over a one-byte \<open>bool\<close>: the first byte is the flag, and
  the other three land in the bytes behind it.
\<close>

definition receive_bool_int :: "(sock, bool \<times> byte list) prog" where
  "receive_bool_int = bind_p (receive_raw 4) (\<lambda>bs. ret_p (hd bs \<noteq> 0, tl bs))"

text \<open>The string overload leaves its argument as it was when the length is not positive.\<close>

definition receive_string :: "string \<Rightarrow> (sock, nat \<times> string) prog" where
  "receive_string data =
     bind_p receive_int (\<lambda>len.
       if 0 < len
       then bind_p (sock_read (nat len)) (\<lambda>bs. ret_p (length bs, string_of_bytes bs))
       else ret_p (0, data))"

section \<open>The codec's contract\<close>

text \<open>
  A value type of the protocol: how it is laid out, how it is sent and how it is received. The
  laws: sending appends exactly the layout, receiving consumes exactly the layout and returns the
  value, and a read that finds only part of the layout fails.
\<close>

locale wire_type =
  fixes enc :: "'a \<Rightarrow> byte list"
    and snd_w :: "'a \<Rightarrow> (sock, nat) prog"
    and rcv_w :: "(sock, 'a) prog"
    and valid :: "'a \<Rightarrow> bool"
  assumes send_law:
      "valid x \<Longrightarrow> s_room s = None \<Longrightarrow> snd_w x s = (Ok (length (enc x)), s\<lparr>s_out := s_out s @ enc x\<rparr>)"
    and receive_law:
      "valid x \<Longrightarrow> s_in s = enc x @ rest \<Longrightarrow> rcv_w s = (Ok x, s\<lparr>s_in := rest\<rparr>)"
begin

fun send_all :: "'a list \<Rightarrow> (sock, unit) prog" where
  "send_all [] = ret_p ()"
| "send_all (x # xs) = then_p (snd_w x) (send_all xs)"

fun receive_all :: "nat \<Rightarrow> (sock, 'a list) prog" where
  "receive_all 0 = ret_p []"
| "receive_all (Suc n) = bind_p rcv_w (\<lambda>x. bind_p (receive_all n) (\<lambda>xs. ret_p (x # xs)))"

lemma send_all_out:
  "list_all valid xs \<Longrightarrow> s_room s = None \<Longrightarrow>
     send_all xs s = (Ok (), s\<lparr>s_out := s_out s @ concat (map enc xs)\<rparr>)"
  by (induction xs arbitrary: s) (simp_all add: send_law prog_simps)

lemma receive_all_in:
  "list_all valid xs \<Longrightarrow> s_in s = concat (map enc xs) @ rest \<Longrightarrow>
     receive_all (length xs) s = (Ok xs, s\<lparr>s_in := rest\<rparr>)"
proof (induction xs arbitrary: s)
  case (Cons x xs)
  have r: "rcv_w s = (Ok x, s\<lparr>s_in := concat (map enc xs) @ rest\<rparr>)"
    using Cons.prems by (intro receive_law) simp_all
  have "receive_all (length xs) (s\<lparr>s_in := concat (map enc xs) @ rest\<rparr>) =
      (Ok xs, s\<lparr>s_in := concat (map enc xs) @ rest\<rparr>\<lparr>s_in := rest\<rparr>)"
    by (rule Cons.IH) (use Cons.prems in simp_all)
  then show ?case by (simp add: bind_p_def r)
qed simp

text \<open>A sequence of values sent on one end arrives unchanged, in order, on the other end.\<close>

lemma round_trip:
  assumes "list_all valid xs" and "s_room s = None" and "s_out s = []"
    and "s_in t = s_out (snd (send_all xs s))"
  shows "receive_all (length xs) t = (Ok xs, t\<lparr>s_in := []\<rparr>)"
  using receive_all_in [of xs t "[]"] send_all_out [OF assms(1,2)] assms(1,3,4) by simp

end

lemma length_int_bytes [simp]: "length (int_bytes x) = 4"
  by (simp add: int_bytes_def)

lemma bytes_int_int_bytes: "is_i32 x \<Longrightarrow> bytes_int (int_bytes x) = x"
proof -
  assume "is_i32 x"
  have "int (le_val (int_bytes x)) = x mod 4294967296"
    by (simp add: int_bytes_def le_val_le_bytes)
  then have "bytes_int (int_bytes x) = i32 (x mod 4294967296)" by (simp add: bytes_int_def)
  also have "\<dots> = i32 x"
    by (simp add: i32_def signed_take_bit_eq_iff_take_bit_eq take_bit_eq_mod)
  also have "\<dots> = x" using \<open>is_i32 x\<close> by (rule i32_id)
  finally show ?thesis .
qed

lemma int_bytes_i32 [simp]: "int_bytes (i32 x) = int_bytes x"
  by (simp add: int_bytes_def i32_mod)

lemma sock_write_room [simp]:
  "s_room s = None \<Longrightarrow> sock_write bs s = (Ok (length bs), s\<lparr>s_out := s_out s @ bs\<rparr>)"
  by (simp add: sock_write_def)

lemma send_int_room [simp]:
  "s_room s = None \<Longrightarrow> send_int x s = (Ok 4, s\<lparr>s_out := s_out s @ int_bytes x\<rparr>)"
  by (simp add: send_int_def send_raw_def)

lemma receive_int_in:
  "is_i32 x \<Longrightarrow> s_in s = int_bytes x @ rest \<Longrightarrow> receive_int s = (Ok x, s\<lparr>s_in := rest\<rparr>)"
  by (simp add: receive_int_def receive_raw_def sock_read_def bind_p_def bytes_int_int_bytes)

interpretation int_wire: wire_type int_bytes send_int receive_int is_i32
  by unfold_locales (simp_all add: receive_int_in)

interpretation double_wire: wire_type double_bytes
  "\<lambda>x. send_raw (double_bytes x)" "bind_p (receive_raw 8) (\<lambda>bs. ret_p (of_nat (le_val bs)))" "\<lambda>_. True"
proof unfold_locales
  fix x :: double and s :: sock and rest
  have "unat x < 256 ^ 8" using unsigned_less [of x] by simp
  then show "bind_p (receive_raw 8) (\<lambda>bs. ret_p (of_nat (le_val bs))) s = (Ok x, s\<lparr>s_in := rest\<rparr>)"
    if "s_in s = double_bytes x @ rest"
    using that by (simp add: receive_raw_def sock_read_def bind_p_def double_bytes_def le_val_le_bytes)
qed (simp_all add: send_raw_def)

interpretation float_wire: wire_type float_bytes
  send_float "bind_p (receive_raw 4) (\<lambda>bs. ret_p (of_nat (le_val bs)))" "\<lambda>_. True"
proof unfold_locales
  fix x :: float and s :: sock and rest
  have "unat x < 256 ^ 4" using unsigned_less [of x] by simp
  then show "bind_p (receive_raw 4) (\<lambda>bs. ret_p (of_nat (le_val bs))) s = (Ok x, s\<lparr>s_in := rest\<rparr>)"
    if "s_in s = float_bytes x @ rest"
    using that by (simp add: receive_raw_def sock_read_def bind_p_def float_bytes_def le_val_le_bytes)
qed (simp_all add: send_float_def send_raw_def)

text \<open>Strings: received into an empty variable, as every caller does.\<close>

definition valid_string :: "string \<Rightarrow> bool" where
  "valid_string str \<longleftrightarrow> length str < 2147483648"

lemma send_string_room [simp]:
  "s_room s = None \<Longrightarrow>
     send_string str s = (Ok (length (string_bytes str)), s\<lparr>s_out := s_out s @ string_bytes str\<rparr>)"
  by (simp add: send_string_def bind_p_def string_bytes_def)

lemma receive_string_in:
  assumes "valid_string str" and "s_in s = string_bytes str @ rest"
  shows "receive_string [] s = (Ok (length str, str), s\<lparr>s_in := rest\<rparr>)"
proof -
  have len: "i32 (int (length str)) = int (length str)" "is_i32 (int (length str))"
    using assms(1) by (simp_all add: valid_string_def i32_nat_id is_i32_def)
  have "receive_int s = (Ok (int (length str)), s\<lparr>s_in := bytes_of_string str @ rest\<rparr>)"
    using assms(2) len by (intro receive_int_in) (simp_all add: string_bytes_def)
  then show ?thesis
    by (cases "str = []") (simp_all add: receive_string_def bind_p_def sock_read_def)
qed

interpretation string_wire: wire_type string_bytes send_string
  "bind_p (receive_string []) (\<lambda>(n, str). ret_p str)" valid_string
  by unfold_locales (simp_all add: receive_string_in bind_p_def)

lemma length_string_bytes [simp]: "length (string_bytes str) = 4 + length str"
  by (simp add: string_bytes_def)

text \<open>The layout of a vector: its length, then its elements.\<close>

lemma send_vector_room [simp]:
  "s_room s = None \<Longrightarrow>
     send_vector repr xs s =
       (Ok (4 + length (concat (map repr xs))),
        s\<lparr>s_out := s_out s @ int_bytes (int (length xs)) @ concat (map repr xs)\<rparr>)"
  by (simp add: send_vector_def bind_p_def)

text \<open>Reads consume from the front only and writes append only, whatever the outcome.\<close>

lemma sock_write_out: "\<exists>bs'. s_out (snd (sock_write bs s)) = s_out s @ bs' \<and> s_in (snd (sock_write bs s)) = s_in s"
  by (simp add: sock_write_def split: option.split)

lemma sock_read_frame: "s_out (snd (sock_read n s)) = s_out s \<and> s_room (snd (sock_read n s)) = s_room s"
  by (simp add: sock_read_def)

section \<open>Strings on the wire\<close>

text \<open>
  C36: A string sent over an open connection is received unchanged on the other end, and nothing of
  what follows it is consumed.
\<close>

theorem string_round_trip:
  assumes "valid_string str" and "s_room s = None" and "s_out s = []" and "s_in t = s_out (snd (send_string str s)) @ rest"
  shows "receive_string [] t = (Ok (length str, str), t\<lparr>s_in := rest\<rparr>)"
  using receive_string_in [OF assms(1)] send_string_room [OF assms(2)] assms(3,4) by simp

text \<open>An instance.\<close>

theorem string_round_trip_witness:
  "receive_string [] \<lparr>s_in = s_out (snd (send_string ''W1'' \<lparr>s_in = [], s_out = [], s_room = None\<rparr>)) @ [9], s_out = [], s_room = None\<rparr> =
     (Ok (2, ''W1''), \<lparr>s_in = [9], s_out = [], s_room = None\<rparr>)"
  by (subst string_round_trip [of "''W1''" "\<lparr>s_in = [], s_out = [], s_room = None\<rparr>" _ "[9]"])
    (simp_all add: valid_string_def)

end
