(* ===== verification/Device.thy ===== *)
theory Device
  imports Wire
begin

text \<open>
  Measurement lines and devices: \<open>server/device.hpp\<close> and \<open>server/device.cpp\<close>, with the data
  members of \<open>Counter\<close> (\<open>server/counter.hpp\<close>), copies of which a device keeps.

  A \<open>line\<close> carries two reference counts, how many counters have it enabled and how many have it
  active, and its sample history. A \<open>device\<close> owns its lines and the registered counters.
  \<open>shared_ptr\<close> access through a null pointer, and \<open>vector::operator[]\<close> out of range, are
  undefined behaviour in the code and \<open>Undef\<close> here.

  The lemmas give the contract of the reference counts as a locale, show that every operation
  keeps a device well formed and never touches a missing line, and describe what registration,
  activation and sampling do to each line.
\<close>

section \<open>Data\<close>

record computer =
  comp_name :: string
  comp_ip :: string

definition Computer_default :: computer where
  "Computer_default = \<lparr>comp_name = ''Unknown'', comp_ip = ''0.0.0.0''\<rparr>"

datatype metric = M_voltage | M_shunt_voltage | M_current | M_power | M_temperature | M_def

record line =
  l_name :: string
  l_description :: string
  l_id :: int
  l_metric :: metric
  l_voltage :: float
  l_offset :: float
  l_slope :: float
  l_enabled :: int
  l_active :: int
  l_computer :: computer
  l_data :: "double list"

type_synonym set_t = "(int, int) amap"

record counter =
  ct_sock :: nat
  ct_running :: bool
  ct_aggregate :: bool
  ct_interval :: int
  ct_status :: state
  ct_frequency :: int
  ct_lines :: "int list"
  ct_sets :: "(set_t \<times> set_t option) list"
  ct_sizes :: set_t
  ct_dev :: string
  ct_id :: int
  ct_registered :: bool

text \<open>The class of a device selects its sampling loop (\<open>_readf\<close>).\<close>

datatype driver = LMG | ArduPower | WattsUp | Dummy | APCape

record device =
  d_name :: string
  d_url :: string
  d_max_frequency :: int
  d_n_lines :: int
  d_pdu :: bool
  d_working :: bool
  d_running :: bool
  d_lines :: "(int, line) amap"
  d_readf :: driver
  d_sample :: "double list"
  d_queue :: "double list list"
  d_computer :: computer
  d_counter_map :: "(int, counter) amap"

section \<open>Line operations\<close>

definition Line_new ::
  "string \<Rightarrow> string \<Rightarrow> metric \<Rightarrow> int \<Rightarrow> float \<Rightarrow> computer \<Rightarrow> float \<Rightarrow> float \<Rightarrow> line" where
  "Line_new name desc metric number voltage cmp offset slope =
     \<lparr>l_name = name, l_description = desc, l_id = number, l_metric = metric,
      l_voltage = voltage, l_offset = offset, l_slope = slope,
      l_enabled = 0, l_active = 0, l_computer = cmp, l_data = []\<rparr>"

definition line_enable :: "line \<Rightarrow> line" where
  "line_enable l = l\<lparr>l_enabled := i32 (l_enabled l + 1)\<rparr>"

definition line_disable :: "line \<Rightarrow> line" where
  "line_disable l = (if 0 < l_enabled l then l\<lparr>l_enabled := i32 (l_enabled l - 1)\<rparr>
     else l\<lparr>l_enabled := 0\<rparr>)"

definition line_is_enabled :: "line \<Rightarrow> bool" where
  "line_is_enabled l \<longleftrightarrow> 0 < l_enabled l"

definition line_activate :: "line \<Rightarrow> line" where
  "line_activate l = l\<lparr>l_active := i32 (l_active l + 1)\<rparr>"

definition line_deactivate :: "line \<Rightarrow> line" where
  "line_deactivate l = (if 0 < l_active l then l\<lparr>l_active := i32 (l_active l - 1)\<rparr>
     else l\<lparr>l_active := 0\<rparr>)"

definition line_is_active :: "line \<Rightarrow> bool" where
  "line_is_active l \<longleftrightarrow> 0 < l_active l"

definition line_clear_data :: "line \<Rightarrow> line" where
  "line_clear_data l = l\<lparr>l_data := []\<rparr>"

definition line_push_back_data :: "double \<Rightarrow> line \<Rightarrow> line" where
  "line_push_back_data x l = l\<lparr>l_data := l_data l @ [x]\<rparr>"

definition line_get_size :: "line \<Rightarrow> int" where
  "line_get_size l = i32 (int (length (l_data l)))"

section \<open>Device operations\<close>

definition Device_new ::
  "string \<Rightarrow> string \<Rightarrow> int \<Rightarrow> int \<Rightarrow> bool \<Rightarrow> driver \<Rightarrow> device" where
  "Device_new name url max_freq n_lines pdu readf =
     \<lparr>d_name = name, d_url = url, d_max_frequency = max_freq, d_n_lines = n_lines, d_pdu = pdu,
      d_working = False, d_running = True, d_lines = [], d_readf = readf,
      d_sample = replicate (nat n_lines) d_zero, d_queue = [],
      d_computer = Computer_default, d_counter_map = []\<rparr>"

text \<open>
  The registry the \<open>RegisterDevice\<close> statics fill: the template arguments of each registered
  class. \<open>APCape\<close> is there only when the build defines \<open>USE_DEVICE_APCAPE\<close>.
\<close>

definition device_register :: "bool \<Rightarrow> (string, string \<Rightarrow> string \<Rightarrow> device) amap" where
  "device_register use_apcape =
     fold (\<lambda>(t, c). amap_put t c)
       ([(''LMG450'', \<lambda>name url. Device_new name url 20 4 True LMG),
         (''LMG500'', \<lambda>name url. Device_new name url 20 8 True LMG),
         (''ArduPower'', \<lambda>name url. Device_new name url 1000 16 False ArduPower),
         (''WattsUp'', \<lambda>name url. Device_new name url 1 1 False WattsUp),
         (''Dummy'', \<lambda>name url. Device_new name url 1 24 True Dummy)] @
        (if use_apcape then [(''APCape-8L'', \<lambda>name url. Device_new name url 1200 8 False APCape)]
         else []))
       []"

definition create_device :: "bool \<Rightarrow> string \<Rightarrow> string \<Rightarrow> string \<Rightarrow> device option" where
  "create_device use_apcape type name url =
     map_option (\<lambda>f. f name url) (amap_get (device_register use_apcape) type)"

text \<open>\<open>lines[l]->f()\<close>: a missing line is a null pointer.\<close>

definition with_line :: "int \<Rightarrow> (line \<Rightarrow> line) \<Rightarrow> device \<Rightarrow> device res" where
  "with_line l f d = (case amap_get (d_lines d) l of
     None \<Rightarrow> Undef ''null line''
   | Some lin \<Rightarrow> Ok (d\<lparr>d_lines := amap_put l (f lin) (d_lines d)\<rparr>))"

definition register_counter :: "counter \<Rightarrow> device \<Rightarrow> device res" where
  "register_counter c d =
     fold_r (\<lambda>l. with_line l line_enable) (ct_lines c)
       (d\<lparr>d_counter_map := amap_put (ct_id c) c (d_counter_map d)\<rparr>)"

definition line_release :: "line \<Rightarrow> line" where
  "line_release l =
     (let l' = line_disable l in if line_is_enabled l' then l' else line_clear_data l')"

definition deregister_counter :: "counter \<Rightarrow> device \<Rightarrow> device res" where
  "deregister_counter c d = (case amap_get (d_counter_map d) (ct_id c) of
     None \<Rightarrow> Ok d
   | Some _ \<Rightarrow>
       bind_r (fold_r (\<lambda>l. with_line l line_release) (ct_lines c) d) (\<lambda>d'.
         Ok (d'\<lparr>d_counter_map := amap_del (ct_id c) (d_counter_map d')\<rparr>)))"

definition avail_metrics :: "(string, metric) amap" where
  "avail_metrics = fold (\<lambda>(s, m). amap_put s m)
     [(''voltage'', M_voltage), (''shunt_voltage'', M_shunt_voltage), (''current'', M_current),
      (''power'', M_power), (''temperature'', M_temperature), (''default'', M_def)] []"

definition register_line ::
  "string \<Rightarrow> string \<Rightarrow> string \<Rightarrow> int \<Rightarrow> computer \<Rightarrow> float \<Rightarrow> float \<Rightarrow> float \<Rightarrow> device \<Rightarrow> device" where
  "register_line name description metric number c voltage offset slope d =
     (let m = (case amap_get avail_metrics metric of None \<Rightarrow> M_def | Some m \<Rightarrow> m)
      in d\<lparr>d_lines := amap_put number (Line_new name description m number voltage c offset slope)
             (d_lines d)\<rparr>)"

text \<open>\<open>sample[l.first]\<close> is read only for active lines.\<close>

fun push_lines :: "double list \<Rightarrow> (int, line) amap \<Rightarrow> (int, line) amap res" where
  "push_lines sample [] = Ok []"
| "push_lines sample ((k, lin) # m) =
     (if line_is_active lin then
        (if 0 \<le> k \<and> k < int (length sample) then
           bind_r (push_lines sample m) (\<lambda>m'.
             Ok ((k, line_push_back_data (sample ! nat k) lin) # m'))
         else Undef ''sample index'')
      else bind_r (push_lines sample m) (\<lambda>m'. Ok ((k, lin) # m')))"

definition push_back_data :: "double list \<Rightarrow> device \<Rightarrow> device res" where
  "push_back_data sample d =
     bind_r (push_lines sample (d_lines d)) (\<lambda>m. Ok (d\<lparr>d_lines := m\<rparr>))"

definition get_lines_sizes :: "int list \<Rightarrow> device \<Rightarrow> set_t res" where
  "get_lines_sizes sel d =
     fold_r (\<lambda>l sizes. case amap_get (d_lines d) l of
         None \<Rightarrow> Undef ''null line''
       | Some lin \<Rightarrow> Ok (amap_put l (line_get_size lin) sizes)) sel []"

definition get_line_data :: "int \<Rightarrow> device \<Rightarrow> double list res" where
  "get_line_data l d = (case amap_get (d_lines d) l of
     None \<Rightarrow> Undef ''null line'' | Some lin \<Rightarrow> Ok (l_data lin))"

definition start_counter :: "int list \<Rightarrow> device \<Rightarrow> device res" where
  "start_counter sel d = fold_r (\<lambda>l. with_line l line_activate) sel d"

definition stop_counter :: "int list \<Rightarrow> device \<Rightarrow> device res" where
  "stop_counter sel d = fold_r (\<lambda>l. with_line l line_deactivate) sel d"

section \<open>Reference counts\<close>

text \<open>
  What the server relies on in a reference count: taking and letting go move it by one, it is
  held while positive, and letting go of a free one leaves it free.
\<close>

locale refcount =
  fixes take_ref :: "'a \<Rightarrow> 'a"
    and drop_ref :: "'a \<Rightarrow> 'a"
    and held :: "'a \<Rightarrow> bool"
    and count :: "'a \<Rightarrow> int"
  assumes count_take: "0 \<le> count x \<Longrightarrow> count x < 2147483647 \<Longrightarrow> count (take_ref x) = count x + 1"
    and count_drop: "0 \<le> count x \<Longrightarrow> count x < 2147483648 \<Longrightarrow> count (drop_ref x) = max 0 (count x - 1)"
    and held_count: "held x \<longleftrightarrow> 0 < count x"
begin

lemma take_then_drop: "0 \<le> count x \<Longrightarrow> count x < 2147483647 \<Longrightarrow> count (drop_ref (take_ref x)) = count x"
  by (simp add: count_take count_drop)

lemma count_takes:
  "0 \<le> count x \<Longrightarrow> count x + int n < 2147483648 \<Longrightarrow> count ((take_ref ^^ n) x) = count x + int n"
  by (induction n) (simp_all add: count_take)

lemma count_drops:
  "0 \<le> count x \<Longrightarrow> count x < 2147483648 \<Longrightarrow> count ((drop_ref ^^ n) x) = max 0 (count x - int n)"
  by (induction n) (simp_all add: count_drop)

text \<open>Held until the last holder lets go.\<close>

lemma held_until_last:
  assumes "count x = 0" and "n < 2147483648"
  shows "held ((drop_ref ^^ k) ((take_ref ^^ n) x)) \<longleftrightarrow> k < n"
  using assms count_takes [of x n] count_drops [of "(take_ref ^^ n) x" k] by (auto simp: held_count)

end

interpretation enabled_ref: refcount line_enable line_disable line_is_enabled l_enabled
  by unfold_locales
    (auto simp: line_enable_def line_disable_def line_is_enabled_def i32_id is_i32_def)

interpretation active_ref: refcount line_activate line_deactivate line_is_active l_active
  by unfold_locales
    (auto simp: line_activate_def line_deactivate_def line_is_active_def i32_id is_i32_def)

section \<open>What the operations do to the lines\<close>

definition has_lines :: "int list \<Rightarrow> device \<Rightarrow> bool" where
  "has_lines ls d \<longleftrightarrow> (\<forall>l \<in> set ls. amap_get (d_lines d) l \<noteq> None)"

text \<open>The effect of a loop over selected lines: the operation applied to each of them once.\<close>

definition on_lines :: "int list \<Rightarrow> (line \<Rightarrow> line) \<Rightarrow> device \<Rightarrow> device" where
  "on_lines ls f d =
     d\<lparr>d_lines := map (\<lambda>(k, w). (k, if k \<in> set ls then f w else w)) (d_lines d)\<rparr>"

lemma amap_get_map:
  "amap_get (map (\<lambda>(k, w). (k, g k w)) m) k = map_option (g k) (amap_get m k)"
  by (induction m k rule: amap_get.induct) auto

lemma map_fst_map: "map fst (map (\<lambda>(k, w). (k, g k w)) m) = map fst m"
  by (induction m) auto

lemma on_lines_get [simp]:
  "amap_get (d_lines (on_lines ls f d)) k =
     map_option (\<lambda>w. if k \<in> set ls then f w else w) (amap_get (d_lines d) k)"
  by (simp add: on_lines_def amap_get_map)

lemma on_lines_keys [simp]: "map fst (d_lines (on_lines ls f d)) = map fst (d_lines d)"
  using map_fst_map [of "\<lambda>k w. if k \<in> set ls then f w else w" "d_lines d"] by (simp add: on_lines_def)

lemma on_lines_ok [simp]: "amap_ok (d_lines (on_lines ls f d)) = amap_ok (d_lines d)"
  by (simp add: amap_ok_def)

lemma on_lines_frame [simp]:
  "d_name (on_lines ls f d) = d_name d" "d_max_frequency (on_lines ls f d) = d_max_frequency d"
  "d_n_lines (on_lines ls f d) = d_n_lines d" "d_counter_map (on_lines ls f d) = d_counter_map d"
  "d_sample (on_lines ls f d) = d_sample d" "d_queue (on_lines ls f d) = d_queue d"
  "d_working (on_lines ls f d) = d_working d" "d_running (on_lines ls f d) = d_running d"
  "d_pdu (on_lines ls f d) = d_pdu d" "d_readf (on_lines ls f d) = d_readf d"
  by (simp_all add: on_lines_def)

lemma has_lines_on_lines [simp]: "has_lines ks (on_lines ls f d) = has_lines ks d"
  by (simp add: has_lines_def)

lemma with_line_on_lines:
  assumes "amap_ok (d_lines d)" and "amap_get (d_lines d) l \<noteq> None"
  shows "with_line l f d = Ok (on_lines [l] f d)"
proof -
  obtain lin where lin: "amap_get (d_lines d) l = Some lin" using assms(2) by auto
  have "amap_put l (f lin) (d_lines d) =
      map (\<lambda>(k, w). (k, if k \<in> set [l] then f w else w)) (d_lines d)"
    unfolding amap_put_present [OF assms(1) lin]
    by (rule map_cong [OF refl]) (use lin amap_get_of_in [OF assms(1)] in \<open>auto\<close>)
  with lin show ?thesis by (simp add: with_line_def on_lines_def)
qed

lemma fold_with_line:
  assumes "amap_ok (d_lines d)" and "has_lines ls d" and "distinct ls"
  shows "fold_r (\<lambda>l. with_line l f) ls d = Ok (on_lines ls f d)"
  using assms
proof (induction ls arbitrary: d)
  case Nil
  have "map (\<lambda>(k, w). (k, w)) (d_lines d) = d_lines d" by (induction "d_lines d") auto
  then show ?case by (simp add: on_lines_def)
next
  case (Cons x xs)
  have "with_line x f d = Ok (on_lines [x] f d)"
    using Cons.prems by (intro with_line_on_lines) (auto simp: has_lines_def)
  moreover have "fold_r (\<lambda>l. with_line l f) xs (on_lines [x] f d) = Ok (on_lines xs f (on_lines [x] f d))"
    by (rule Cons.IH) (use Cons.prems in \<open>auto simp: has_lines_def\<close>)
  moreover have "on_lines xs f (on_lines [x] f d) = on_lines (x # xs) f d"
    using Cons.prems(3) by (simp add: on_lines_def comp_def) (rule arg_cong, auto)
  ultimately show ?case by simp
qed

text \<open>
  Without a missing line none of the loops fails; with one, the code dereferences a null pointer.
\<close>

lemma fold_with_line_missing:
  assumes "amap_ok (d_lines d)" and "distinct ls" and "\<not> has_lines ls d"
  shows "fold_r (\<lambda>l. with_line l f) ls d = Undef ''null line''"
  using assms
proof (induction ls arbitrary: d)
  case (Cons x xs)
  show ?case
  proof (cases "amap_get (d_lines d) x = None")
    case True
    then show ?thesis by (simp add: with_line_def)
  next
    case False
    then have "with_line x f d = Ok (on_lines [x] f d)"
      using Cons.prems by (intro with_line_on_lines)
    with False Cons show ?thesis by (auto simp: has_lines_def)
  qed
qed (simp add: has_lines_def)

section \<open>Well-formed devices\<close>

text \<open>
  A configured device has exactly the lines \<open>0 .. n_lines - 1\<close> (see \<open>Config\<close>), and its maps are
  ordered. The reference counts are not negative.
\<close>

definition dev_ok :: "device \<Rightarrow> bool" where
  "dev_ok d \<longleftrightarrow> map fst (d_lines d) = map int [0..<nat (d_n_lines d)] \<and>
     amap_ok (d_counter_map d) \<and> 0 < d_max_frequency d"

lemma dev_ok_lines: "dev_ok d \<Longrightarrow> amap_ok (d_lines d)"
  by (simp add: dev_ok_def amap_ok_def sorted_wrt_map)

lemma dev_ok_keys: "dev_ok d \<Longrightarrow> amap_get (d_lines d) l \<noteq> None \<longleftrightarrow> 0 \<le> l \<and> l < d_n_lines d"
proof -
  assume "dev_ok d"
  then have "amap_get (d_lines d) l \<noteq> None \<longleftrightarrow> l \<in> int ` {0..<nat (d_n_lines d)}"
    by (simp add: dev_ok_def amap_get_None_iff)
  also have "\<dots> \<longleftrightarrow> 0 \<le> l \<and> l < d_n_lines d"
    by (auto simp: image_iff intro!: bexI [of _ "nat l"])
  finally show ?thesis .
qed

lemma dev_ok_has_lines: "dev_ok d \<Longrightarrow> \<forall>l \<in> set ls. 0 \<le> l \<and> l < d_n_lines d \<Longrightarrow> has_lines ls d"
  by (simp add: has_lines_def dev_ok_keys del: not_None_eq)

lemma dev_ok_on_lines [simp]: "dev_ok (on_lines ls f d) = dev_ok d"
  by (simp add: dev_ok_def)

lemma dev_ok_counter_map: "dev_ok d \<Longrightarrow> amap_ok m \<Longrightarrow> dev_ok (d\<lparr>d_counter_map := m\<rparr>)"
  by (simp add: dev_ok_def)

lemma has_lines_counter_map [simp]: "has_lines ls (d\<lparr>d_counter_map := m\<rparr>) = has_lines ls d"
  by (simp add: has_lines_def)

lemma register_counter_on_lines:
  assumes "dev_ok d" and "has_lines (ct_lines c) d" and "distinct (ct_lines c)"
  shows "register_counter c d =
    Ok (on_lines (ct_lines c) line_enable (d\<lparr>d_counter_map := amap_put (ct_id c) c (d_counter_map d)\<rparr>))"
  using assms dev_ok_lines [OF assms(1)]
  by (simp add: register_counter_def fold_with_line)

lemma deregister_counter_on_lines:
  assumes "dev_ok d" and "has_lines (ct_lines c) d" and "distinct (ct_lines c)"
    and "amap_get (d_counter_map d) (ct_id c) \<noteq> None"
  shows "deregister_counter c d =
    Ok ((on_lines (ct_lines c) line_release d)\<lparr>d_counter_map := amap_del (ct_id c) (d_counter_map d)\<rparr>)"
  using assms dev_ok_lines [OF assms(1)]
  by (auto simp: deregister_counter_def fold_with_line)

lemma start_counter_on_lines:
  "dev_ok d \<Longrightarrow> has_lines ls d \<Longrightarrow> distinct ls \<Longrightarrow> start_counter ls d = Ok (on_lines ls line_activate d)"
  by (simp add: start_counter_def fold_with_line dev_ok_lines)

lemma stop_counter_on_lines:
  "dev_ok d \<Longrightarrow> has_lines ls d \<Longrightarrow> distinct ls \<Longrightarrow> stop_counter ls d = Ok (on_lines ls line_deactivate d)"
  by (simp add: stop_counter_def fold_with_line dev_ok_lines)

text \<open>The sizes recorded for the selected lines.\<close>

definition sizes_of :: "int list \<Rightarrow> device \<Rightarrow> set_t" where
  "sizes_of sel d =
     fold (\<lambda>l. amap_put l (line_get_size (the (amap_get (d_lines d) l)))) sel []"

lemma get_lines_sizes_Ok: "has_lines sel d \<Longrightarrow> get_lines_sizes sel d = Ok (sizes_of sel d)"
proof -
  assume "has_lines sel d"
  then have "get_lines_sizes sel d = Ok (sizes_of sel d) \<and> True"
    unfolding get_lines_sizes_def sizes_of_def
    by (intro fold_r_pure) (auto simp: has_lines_def)
  then show ?thesis ..
qed

lemma sizes_of_get:
  assumes "has_lines sel d"
  shows "amap_get (sizes_of sel d) l =
    (if l \<in> set sel then map_option line_get_size (amap_get (d_lines d) l) else None)"
proof -
  have "amap_get (fold (\<lambda>l. amap_put l (line_get_size (the (amap_get (d_lines d) l)))) sel m) l =
      (if l \<in> set sel then map_option line_get_size (amap_get (d_lines d) l) else amap_get m l)" for m
    using assms by (induction sel arbitrary: m) (auto simp: has_lines_def)
  then show ?thesis by (simp add: sizes_of_def)
qed

text \<open>A complete sample extends exactly the active lines, each with its own value.\<close>

definition sampled :: "double list \<Rightarrow> device \<Rightarrow> device" where
  "sampled sample d =
     d\<lparr>d_lines := map (\<lambda>(k, w).
         (k, if line_is_active w then line_push_back_data (sample ! nat k) w else w)) (d_lines d)\<rparr>"

lemma push_lines_map:
  "\<forall>(k, w) \<in> set m. 0 \<le> k \<and> k < int (length sample) \<Longrightarrow>
     push_lines sample m = Ok (map (\<lambda>(k, w).
       (k, if line_is_active w then line_push_back_data (sample ! nat k) w else w)) m)"
  by (induction sample m rule: push_lines.induct) auto

lemma dev_ok_key: "dev_ok d \<Longrightarrow> (k, w) \<in> set (d_lines d) \<Longrightarrow> 0 \<le> k \<and> k < d_n_lines d"
proof -
  assume "dev_ok d" "(k, w) \<in> set (d_lines d)"
  then have "k \<in> set (map int [0..<nat (d_n_lines d)])"
    unfolding dev_ok_def by (metis (no_types) fst_conv image_eqI list.set_map)
  then show ?thesis by auto
qed

lemma push_back_data_sampled:
  assumes "dev_ok d" and "int (length sample) = d_n_lines d"
  shows "push_back_data sample d = Ok (sampled sample d)"
proof -
  have "\<forall>(k, w) \<in> set (d_lines d). 0 \<le> k \<and> k < int (length sample)"
    using dev_ok_key [OF assms(1)] assms(2) by auto
  then show ?thesis by (simp add: push_back_data_def sampled_def push_lines_map)
qed

lemma sampled_get:
  "amap_get (d_lines (sampled sample d)) k =
     map_option (\<lambda>w. if line_is_active w then line_push_back_data (sample ! nat k) w else w)
       (amap_get (d_lines d) k)"
  by (simp add: sampled_def amap_get_map)

lemma sampled_frame [simp]:
  "map fst (d_lines (sampled sample d)) = map fst (d_lines d)"
  "d_counter_map (sampled sample d) = d_counter_map d" "d_n_lines (sampled sample d) = d_n_lines d"
  "d_max_frequency (sampled sample d) = d_max_frequency d"
  using map_fst_map [of "\<lambda>k w. if line_is_active w then line_push_back_data (sample ! nat k) w else w"
      "d_lines d"]
  by (simp_all add: sampled_def)

lemma dev_ok_sampled [simp]: "dev_ok (sampled sample d) = dev_ok d"
  by (simp add: dev_ok_def)

end
