(* ===== verification/Counter.thy ===== *)
theory Counter
  imports Device
begin

text \<open>
  A client's measurement session: \<open>server/counter.hpp\<close> and \<open>server/counter.cpp\<close>.

  A connection's thread works on its socket, its own \<open>Counter\<close> and, through the server, the
  device the counter measures. Each member function of \<open>Counter\<close> is one program over that state;
  the constructor runs the whole session and the destructor releases the device.
\<close>

section \<open>State of a connection\<close>

text \<open>\<open>Server\<close>'s data members (\<open>server.hpp\<close>) and the static \<open>Counter::nextid\<close>.\<close>

record server =
  sv_IP :: string
  sv_port :: int
  sv_daemonize :: bool
  sv_devices :: "(string, device) amap"
  sv_nextid :: int

text \<open>
  \<open>cn_peer\<close> is what \<open>_sock->remote_endpoint()\<close> gives: the peer's address, or nothing once the
  socket is no longer connected, when it throws.
\<close>

record conn =
  cn_server :: server
  cn_sock :: sock
  cn_peer :: "string option"
  cn_counter :: counter

definition on_sock :: "(sock, 'a) prog \<Rightarrow> (conn, 'a) prog" where
  "on_sock m = (\<lambda>c. case m (cn_sock c) of (r, s) \<Rightarrow> (r, c\<lparr>cn_sock := s\<rparr>))"

definition upd_ct :: "(counter \<Rightarrow> counter) \<Rightarrow> (conn, unit) prog" where
  "upd_ct f = mod_p (\<lambda>c. c\<lparr>cn_counter := f (cn_counter c)\<rparr>)"

definition conn_dev :: "conn \<Rightarrow> device option" where
  "conn_dev c = amap_get (sv_devices (cn_server c)) (ct_dev (cn_counter c))"

definition put_dev :: "device \<Rightarrow> conn \<Rightarrow> conn" where
  "put_dev d c = c\<lparr>cn_server := (cn_server c)\<lparr>sv_devices :=
     amap_put (ct_dev (cn_counter c)) d (sv_devices (cn_server c))\<rparr>\<rparr>"

text \<open>Calls through \<open>dev->\<close>, updating the shared device or only reading it.\<close>

definition on_dev :: "(device \<Rightarrow> device res) \<Rightarrow> (conn, unit) prog" where
  "on_dev f = (\<lambda>c. case conn_dev c of
     None \<Rightarrow> (Undef ''null device'', c)
   | Some d \<Rightarrow> (case f d of
       Ok d' \<Rightarrow> (Ok (), put_dev d' c)
     | Throw e \<Rightarrow> (Throw e, c)
     | Undef u \<Rightarrow> (Undef u, c)))"

definition read_dev :: "(device \<Rightarrow> 'a res) \<Rightarrow> (conn, 'a) prog" where
  "read_dev f = (\<lambda>c. case conn_dev c of
     None \<Rightarrow> (Undef ''null device'', c)
   | Some d \<Rightarrow> (f d, c))"

definition reply :: "retval \<Rightarrow> (conn, unit) prog" where
  "reply r = then_p (on_sock (send_int (retval_code r))) (ret_p ())"

definition remote_endpoint :: "(conn, string) prog" where
  "remote_endpoint = bind_p (gets_p cn_peer) (\<lambda>p. case p of
     None \<Rightarrow> throw_p (Runtime_error ''remote_endpoint'') | Some a \<Rightarrow> ret_p a)"

section \<open>Recording sets\<close>

definition snapshot :: "int list \<Rightarrow> (conn, set_t) prog" where
  "snapshot ls =
     then_p (upd_ct (\<lambda>ct. ct\<lparr>ct_sizes := []\<rparr>))
     (bind_p (read_dev (get_lines_sizes ls)) (\<lambda>sz.
      then_p (upd_ct (\<lambda>ct. ct\<lparr>ct_sizes := sz\<rparr>)) (ret_p sz)))"

definition counter_start :: "(conn, unit) prog" where
  "counter_start = bind_p (gets_p cn_counter) (\<lambda>ct.
     if ct_status ct = INACTIVE then
       then_p (on_dev (start_counter (ct_lines ct)))
       (then_p (upd_ct (\<lambda>ct. ct\<lparr>ct_status := ACTIVE\<rparr>))
       (bind_p (snapshot (ct_lines ct)) (\<lambda>sz.
        then_p (upd_ct (\<lambda>ct. ct\<lparr>ct_sets := []\<rparr>))
        (then_p (upd_ct (\<lambda>ct. ct\<lparr>ct_sets := ct_sets ct @ [(sz, None)]\<rparr>))
        (reply SUCCESS)))))
     else reply ERROR)"

definition counter_restart :: "(conn, unit) prog" where
  "counter_restart = bind_p (gets_p cn_counter) (\<lambda>ct.
     if ct_status ct = INACTIVE then
       then_p (on_dev (start_counter (ct_lines ct)))
       (then_p (upd_ct (\<lambda>ct. ct\<lparr>ct_status := ACTIVE\<rparr>))
       (bind_p (snapshot (ct_lines ct)) (\<lambda>sz.
        then_p (upd_ct (\<lambda>ct. ct\<lparr>ct_sets := ct_sets ct @ [(sz, None)]\<rparr>))
        (reply SUCCESS))))
     else reply ERROR)"

text \<open>\<open>sets.back().second = sizes\<close>: undefined on an empty vector.\<close>

definition close_last :: "set_t \<Rightarrow> (conn, unit) prog" where
  "close_last sz = bind_p (gets_p cn_counter) (\<lambda>ct.
     if ct_sets ct = [] then undef_p ''back of empty vector''
     else upd_ct (\<lambda>ct. ct\<lparr>ct_sets := butlast (ct_sets ct) @ [(fst (last (ct_sets ct)), Some sz)]\<rparr>))"

definition counter_stop :: "(conn, unit) prog" where
  "counter_stop = bind_p (gets_p cn_counter) (\<lambda>ct.
     if ct_status ct = ACTIVE then
       then_p (on_dev (stop_counter (ct_lines ct)))
       (then_p (upd_ct (\<lambda>ct. ct\<lparr>ct_status := INACTIVE\<rparr>))
       (bind_p (snapshot (ct_lines ct)) (\<lambda>sz.
        then_p (close_last sz) (reply SUCCESS))))
     else reply ERROR)"

section \<open>Fetching the samples\<close>

text \<open>\<open>m[l]\<close> of a \<open>set_t\<close>: a missing key reads as 0.\<close>

definition at_set :: "set_t \<Rightarrow> int \<Rightarrow> int" where
  "at_set m l = (case amap_get m l of None \<Rightarrow> 0 | Some n \<Rightarrow> n)"

type_synonym interval_set = "set_t \<times> set_t option"

text \<open>
  The usable length of a set: the shortest resampled line. The quotient is an integer quotient,
  so the \<open>ceil\<close> around it changes nothing; dividing by an interval of 0 is undefined.
\<close>

definition set_min_len :: "int list \<Rightarrow> int \<Rightarrow> interval_set \<Rightarrow> int res" where
  "set_min_len ls interval se =
     fold_r (\<lambda>l m. case snd se of
         None \<Rightarrow> Undef ''uninitialised optional''
       | Some e \<Rightarrow>
           if interval = 0 then Undef ''division by zero''
           else let q = cdiv (at_set e l - at_set (fst se) l) interval
                in Ok (if l = hd ls then q else min q m))
       ls 0"

text \<open>The cumulative lengths announced to the client, starting with 0.\<close>

definition watts_sets_of :: "int list \<Rightarrow> int list" where
  "watts_sets_of min_len = fold (\<lambda>m ws. ws @ [i32 (m + last ws)]) min_len [0]"

definition range_end :: "interval_set \<Rightarrow> int \<Rightarrow> int \<Rightarrow> double list \<Rightarrow> int res" where
  "range_end se l m line = (case snd se of
     None \<Rightarrow> Undef ''uninitialised optional''
   | Some e \<Rightarrow> Ok (min (min (at_set e l) (at_set (fst se) l + m)) (int (length line))))"

text \<open>
  The aggregating loop over one line: \<open>idx\<close> runs by \<open>interval\<close> until it equals the end or the
  sum vector is full.
\<close>

fun agg_line :: "double list \<Rightarrow> int \<Rightarrow> int \<Rightarrow> int \<Rightarrow> double list \<Rightarrow> double list res" where
  "agg_line line interval fin idx [] = Ok []"
| "agg_line line interval fin idx (x # xs) =
     (if idx = fin then Ok (x # xs)
      else if 0 \<le> idx \<and> idx < int (length line) then
        bind_r (agg_line line interval fin (idx + interval) xs) (\<lambda>ys.
          Ok (d_add x (line ! nat idx) # ys))
      else Undef ''iterator out of range'')"

definition agg_set :: "device \<Rightarrow> int list \<Rightarrow> int \<Rightarrow> interval_set \<Rightarrow> int \<Rightarrow> double list res" where
  "agg_set d ls interval se m =
     (if m < 0 then Throw Length_error
      else fold_r (\<lambda>l acc.
          bind_r (get_line_data l d) (\<lambda>line.
          bind_r (range_end se l m line) (\<lambda>fin.
          agg_line line interval fin (at_set (fst se) l) acc)))
        ls (replicate (nat m) d_zero))"

text \<open>\<open>copy_if\<close> over one line's range, keeping the positions divisible by the interval.\<close>

definition strided :: "nat \<Rightarrow> 'a list \<Rightarrow> 'a list" where
  "strided k xs = map snd (filter (\<lambda>(i, x). i mod k = 0) (enumerate 0 xs))"

definition copy_line :: "double list \<Rightarrow> int \<Rightarrow> int \<Rightarrow> int \<Rightarrow> double list res" where
  "copy_line line interval first fin =
     (if first = fin then Ok []
      else if first < 0 \<or> fin < first \<or> int (length line) < fin then Undef ''iterator out of range''
      else if interval = 0 then Undef ''division by zero''
      else Ok (strided (nat \<bar>interval\<bar>) (take (nat (fin - first)) (drop (nat first) line))))"

definition lines_set :: "device \<Rightarrow> int list \<Rightarrow> int \<Rightarrow> interval_set \<Rightarrow> int \<Rightarrow> double list res" where
  "lines_set d ls interval se m =
     fold_r (\<lambda>l acc.
         bind_r (get_line_data l d) (\<lambda>line.
         bind_r (range_end se l m line) (\<lambda>fin.
         bind_r (copy_line line interval (at_set (fst se) l) fin) (\<lambda>xs. Ok (acc @ xs)))))
       ls []"

definition collect_watts :: "counter \<Rightarrow> device \<Rightarrow> int list \<Rightarrow> double list res" where
  "collect_watts ct d min_len =
     bind_r (map_r (\<lambda>(se, m).
         if ct_aggregate ct then agg_set d (ct_lines ct) (ct_interval ct) se m
         else lines_set d (ct_lines ct) (ct_interval ct) se m)
       (zip (ct_sets ct) min_len)) (\<lambda>xss. Ok (concat xss))"

definition get_reply :: "counter \<Rightarrow> device \<Rightarrow> (int list \<times> double list) res" where
  "get_reply ct d =
     bind_r (map_r (set_min_len (ct_lines ct) (ct_interval ct)) (ct_sets ct)) (\<lambda>min_len.
     bind_r (collect_watts ct d min_len) (\<lambda>watts.
     Ok (watts_sets_of min_len, watts)))"

definition counter_get :: "(conn, unit) prog" where
  "counter_get = bind_p (gets_p cn_counter) (\<lambda>ct.
     if ct_status ct = INACTIVE then
       bind_p (read_dev (get_reply ct)) (\<lambda>(watts_sets, watts).
       then_p (on_sock (send_int (int (length watts))))
       (then_p (on_sock (send_int (int (length watts_sets))))
       (then_p (on_sock (send_int (int (length (ct_lines ct)))))
       (then_p (on_sock (sock_write (concat (map int_bytes watts_sets))))
       (then_p (on_sock (sock_write (concat (map double_bytes watts))))
       (ret_p ()))))))
     else reply ERROR)"

definition counter_finalize :: "(conn, unit) prog" where
  "counter_finalize = bind_p (gets_p cn_counter) (\<lambda>ct.
     if ct_status ct = INACTIVE then
       then_p (upd_ct (\<lambda>ct. ct\<lparr>ct_running := False\<rparr>)) (reply SUCCESS)
     else reply ERROR)"

section \<open>Creation\<close>

text \<open>Decoding the line bitmask: bit \<open>b\<close> of byte \<open>i\<close> selects line \<open>8 i + b\<close>.\<close>

definition set_lines :: "string \<Rightarrow> device \<Rightarrow> int list" where
  "set_lines lines_str d =
     concat (map (\<lambda>i. map (\<lambda>b. int (i * 8 + b))
         (filter (\<lambda>b. bit (char_byte (lines_str ! i)) b \<and> int (i * 8 + b) < d_n_lines d) [0..<8]))
       [0..<length lines_str])"

definition set_frequency :: "int \<Rightarrow> device \<Rightarrow> int res" where
  "set_frequency frequency d =
     (let max_frequency = d_max_frequency d
      in if max_frequency < frequency \<and> frequency \<noteq> 0
         then Throw (Runtime_error (''Device only works at '' @ to_string max_frequency @ '' Hz!''))
         else let f = (if frequency = 0 then max_frequency else frequency)
              in case fp_round_away (f_val (f_div (f_of_int max_frequency) (f_of_int f))) of
                   Some i \<Rightarrow> Ok i
                 | None \<Rightarrow> Undef ''float to int'')"

definition counter_init :: "nat \<Rightarrow> counter" where
  "counter_init sid =
     \<lparr>ct_sock = sid, ct_running = True, ct_aggregate = False, ct_interval = 0,
      ct_status = INACTIVE, ct_frequency = 0, ct_lines = [], ct_sets = [], ct_sizes = [],
      ct_dev = [], ct_id = 0, ct_registered = False\<rparr>"

definition next_id :: "(conn, unit) prog" where
  "next_id = mod_p (\<lambda>c.
     let n = i32 (sv_nextid (cn_server c) + 1)
     in c\<lparr>cn_server := (cn_server c)\<lparr>sv_nextid := n\<rparr>,
          cn_counter := (cn_counter c)\<lparr>ct_id := n\<rparr>\<rparr>)"

definition find_device :: "string \<Rightarrow> (conn, unit) prog" where
  "find_device device_name = bind_p (gets_p (\<lambda>c. sv_devices (cn_server c))) (\<lambda>m.
     case amap_get m device_name of
       None \<Rightarrow> throw_p (Runtime_error (''device '' @ device_name @ '' not found!''))
     | Some _ \<Rightarrow> upd_ct (\<lambda>ct. ct\<lparr>ct_dev := device_name\<rparr>))"

definition register_self :: "(conn, unit) prog" where
  "register_self = bind_p (gets_p cn_counter) (\<lambda>ct.
     then_p (on_dev (register_counter ct)) (upd_ct (\<lambda>ct. ct\<lparr>ct_registered := True\<rparr>)))"

definition counter_create :: "(conn, unit) prog" where
  "counter_create =
     then_p next_id
     (bind_p (on_sock (receive_string [])) (\<lambda>(_, device_name).
      bind_p (on_sock receive_int) (\<lambda>f.
      then_p (upd_ct (\<lambda>ct. ct\<lparr>ct_frequency := f mod 4294967296\<rparr>))
      (bind_p (on_sock receive_bool_int) (\<lambda>(a, _).
       then_p (upd_ct (\<lambda>ct. ct\<lparr>ct_aggregate := a\<rparr>))
       (bind_p (on_sock (receive_string [])) (\<lambda>(_, lines_mask).
        then_p (find_device device_name)
        (bind_p (read_dev (set_frequency (i32 f))) (\<lambda>interval.
         then_p (upd_ct (\<lambda>ct. ct\<lparr>ct_interval := interval\<rparr>))
         (bind_p (read_dev (\<lambda>d. Ok (set_lines lines_mask d))) (\<lambda>ls.
          then_p (upd_ct (\<lambda>ct. ct\<lparr>ct_lines := ls\<rparr>))
          (then_p register_self
          (then_p (reply SUCCESS)
          (then_p remote_endpoint (ret_p ())))))))))))))))"

section \<open>The session\<close>

definition dispatch :: "int \<Rightarrow> (conn, unit) prog" where
  "dispatch op =
     (if op = op_code START then counter_start
      else if op = op_code CONTINUE then counter_restart
      else if op = op_code STOP then counter_stop
      else if op = op_code GET then counter_get
      else if op = op_code FINALIZE then counter_finalize
      else reply ERROR)"

definition session_step :: "(conn, unit) prog" where
  "session_step = bind_p (on_sock receive_int) dispatch"

text \<open>
  \<open>while ( running )\<close>: every round reads four bytes of the client's finite input, so one round
  more than there are bytes is enough fuel (\<open>counter_loop_enough\<close>).
\<close>

fun counter_loop :: "nat \<Rightarrow> (conn, unit) prog" where
  "counter_loop 0 = undef_p ''fuel''"
| "counter_loop (Suc n) = bind_p (gets_p (\<lambda>c. ct_running (cn_counter c))) (\<lambda>r.
     if r then then_p session_step (counter_loop n) else ret_p ())"

definition counter_run :: "(conn, unit) prog" where
  "counter_run = (\<lambda>c.
     catch_p (counter_loop (Suc (length (s_in (cn_sock c))))) (\<lambda>_. reply ERROR) c)"

definition counter_ctor :: "(conn, unit) prog" where
  "counter_ctor =
     bind_p (catch_p (then_p counter_create (ret_p True))
              (\<lambda>_. then_p (reply ERROR) (ret_p False)))
       (\<lambda>created. if created then counter_run else ret_p ())"

definition counter_dtor :: "(conn, unit) prog" where
  "counter_dtor = bind_p (gets_p cn_counter) (\<lambda>ct.
     if ct_registered ct then on_dev (deregister_counter ct) else ret_p ())"

text \<open>
  The statement \<open>Counter(_sock, this);\<close>: a temporary, constructed and destroyed at once. When the
  constructor throws there is no object and the destructor does not run.
\<close>

definition counter_session :: "(conn, unit) prog" where
  "counter_session = then_p counter_ctor counter_dtor"

end
