(* ===== verification/Counter_Facts.thy ===== *)
theory Counter_Facts
  imports Counter
begin

text \<open>
  What the operations of a counter do. Each operation of a well-formed connection is reduced to
  one equation (a state and a reply), from which the properties follow: the protocol of
  \<open>start\<close>/\<open>restart\<close>/\<open>stop\<close>/\<open>finalize\<close>, the line mask, the sampling interval, the content of a
  reply to \<open>get\<close>, and the termination of a session.
\<close>

section \<open>The line mask and the interval\<close>

definition mask_prefix :: "nat \<Rightarrow> string \<Rightarrow> device \<Rightarrow> int list" where
  "mask_prefix n lines_str d =
     concat (map (\<lambda>i. map (\<lambda>b. int (i * 8 + b))
         (filter (\<lambda>b. bit (char_byte (lines_str ! i)) b \<and> int (i * 8 + b) < d_n_lines d) [0..<8]))
       [0..<n])"

lemma set_mask_prefix:
  "l \<in> set (mask_prefix n m d) \<longleftrightarrow>
     0 \<le> l \<and> l < d_n_lines d \<and> nat l < 8 * n \<and> bit (char_byte (m ! (nat l div 8))) (nat l mod 8)"
  (is "?L \<longleftrightarrow> ?R")
proof
  assume ?L
  then obtain i b where ib: "i < n" "b < 8" "bit (char_byte (m ! i)) b"
      "int (i * 8 + b) < d_n_lines d" "l = int (i * 8 + b)"
    by (auto simp: mask_prefix_def)
  have "nat l = i * 8 + b" by (simp only: ib(5) nat_int)
  with ib(1,2) have "nat l div 8 = i" "nat l mod 8 = b" "nat l < 8 * n" by simp_all
  with ib show ?R by simp
next
  assume R: ?R
  have "nat l div 8 < n" using R by (simp add: div_less_iff_less_mult mult.commute)
  moreover have "int (nat l div 8) * 8 + int (nat l mod 8) = l"
  proof -
    have "int (nat l div 8) * 8 + int (nat l mod 8) = int (nat l div 8 * 8 + nat l mod 8)"
      by (simp only: of_nat_add of_nat_mult of_nat_numeral)
    also have "\<dots> = l" using R by (simp only: div_mult_mod_eq int_nat_eq if_True)
    finally show ?thesis .
  qed
  ultimately show ?L using R
    by (auto simp: mask_prefix_def intro!: bexI [of _ "nat l div 8"] image_eqI [of _ _ "nat l mod 8"])
qed

lemma sorted_mask_prefix: "sorted_wrt (<) (mask_prefix n m d)"
proof (induction n)
  case (Suc n)
  define blk where "blk = map (\<lambda>b. int (n * 8 + b))
    (filter (\<lambda>b. bit (char_byte (m ! n)) b \<and> int (n * 8 + b) < d_n_lines d) [0..<8])"
  have split: "mask_prefix (Suc n) m d = mask_prefix n m d @ blk"
    by (simp add: mask_prefix_def blk_def)
  have "sorted_wrt (<) blk"
    unfolding blk_def sorted_wrt_map
    by (rule sorted_wrt_mono_rel [of _ "(<)"]) (auto intro: sorted_wrt_filter)
  moreover have "x < y" if "x \<in> set (mask_prefix n m d)" "y \<in> set blk" for x y
    using that unfolding set_mask_prefix blk_def by auto
  ultimately show ?case using Suc by (simp add: split sorted_wrt_append)
qed (simp add: mask_prefix_def)

lemma set_lines_prefix: "set_lines m d = mask_prefix (length m) m d"
  by (simp add: set_lines_def mask_prefix_def)

lemma set_lines_in_range: "l \<in> set (set_lines m d) \<Longrightarrow> 0 \<le> l \<and> l < d_n_lines d"
  by (simp add: set_lines_prefix set_mask_prefix)

lemma distinct_set_lines: "distinct (set_lines m d)"
  using sorted_mask_prefix [of "length m" m d] by (simp add: set_lines_prefix strict_sorted_iff)

lemma set_frequency_ratio:
  assumes "0 \<le> f" and "f \<le> d_max_frequency d" and "0 < d_max_frequency d" and "d_max_frequency d < 4096"
  shows "set_frequency f d =
    Ok (let g = (if f = 0 then d_max_frequency d else f) in (2 * d_max_frequency d + g) div (2 * g))"
proof -
  define g where "g = (if f = 0 then d_max_frequency d else f)"
  define a b where "a = nat (d_max_frequency d)" and "b = nat g"
  have ab: "0 < b" "b \<le> a" "a < 4096" and ia: "int a = d_max_frequency d" and ib: "int b = g"
    using assms by (auto simp: a_def b_def g_def)
  have "fp_round_away (f_val (f_div (f_of_int (d_max_frequency d)) (f_of_int g))) =
      Some (int ((2 * a + b) div (2 * b)))"
    using fp_round_away_float_quotient [OF ab, of False] f_div_small [of a b] ab
    by (simp add: ia ib)
  moreover have "int ((2 * a + b) div (2 * b)) = (2 * d_max_frequency d + g) div (2 * g)"
    by (simp add: zdiv_int ia ib)
  ultimately show ?thesis
    using assms(1,2) by (auto simp: set_frequency_def Let_def g_def)
qed

section \<open>Connections of a registered counter\<close>

definition conn_ok :: "conn \<Rightarrow> device \<Rightarrow> bool" where
  "conn_ok c d \<longleftrightarrow> conn_dev c = Some d \<and> dev_ok d \<and>
     has_lines (ct_lines (cn_counter c)) d \<and> distinct (ct_lines (cn_counter c))"

abbreviation lines_of :: "conn \<Rightarrow> int list" where
  "lines_of c \<equiv> ct_lines (cn_counter c)"

lemma conn_dev_put [simp]: "conn_dev (put_dev d c) = Some d"
  by (simp add: conn_dev_def put_dev_def)

lemma put_dev_frame [simp]:
  "cn_counter (put_dev d c) = cn_counter c" "cn_sock (put_dev d c) = cn_sock c"
  "cn_peer (put_dev d c) = cn_peer c"
  by (simp_all add: put_dev_def)

lemma conn_dev_counter [simp]:
  "ct_dev (f (cn_counter c)) = ct_dev (cn_counter c) \<Longrightarrow>
     conn_dev (c\<lparr>cn_counter := f (cn_counter c)\<rparr>) = conn_dev c"
  by (simp add: conn_dev_def)

lemma upd_ct_apply [simp]: "upd_ct f c = (Ok (), c\<lparr>cn_counter := f (cn_counter c)\<rparr>)"
  by (simp add: upd_ct_def)

lemma on_dev_apply:
  "conn_dev c = Some d \<Longrightarrow> f d = Ok d' \<Longrightarrow> on_dev f c = (Ok (), put_dev d' c)"
  by (simp add: on_dev_def)

lemma read_dev_apply: "conn_dev c = Some d \<Longrightarrow> read_dev f c = (f d, c)"
  by (simp add: read_dev_def)

lemma snapshot_apply:
  assumes "conn_dev c = Some d" and "has_lines ls d"
  shows "snapshot ls c =
    (Ok (sizes_of ls d), c\<lparr>cn_counter := (cn_counter c)\<lparr>ct_sizes := sizes_of ls d\<rparr>\<rparr>)"
  using assms
  by (simp add: snapshot_def then_p_def bind_p_def read_dev_def conn_dev_def get_lines_sizes_Ok)

text \<open>The states the recording operations lead to.\<close>

definition started :: "bool \<Rightarrow> device \<Rightarrow> conn \<Rightarrow> conn" where
  "started keep d c =
     (let d' = on_lines (lines_of c) line_activate d; sz = sizes_of (lines_of c) d';
          old = (if keep then ct_sets (cn_counter c) else [])
      in (put_dev d' c)\<lparr>cn_counter := (cn_counter c)\<lparr>ct_status := ACTIVE, ct_sizes := sz,
            ct_sets := old @ [(sz, None)]\<rparr>\<rparr>)"

definition stopped :: "device \<Rightarrow> conn \<Rightarrow> conn" where
  "stopped d c =
     (let d' = on_lines (lines_of c) line_deactivate d; sz = sizes_of (lines_of c) d';
          ss = ct_sets (cn_counter c)
      in (put_dev d' c)\<lparr>cn_counter := (cn_counter c)\<lparr>ct_status := INACTIVE, ct_sizes := sz,
            ct_sets := butlast ss @ [(fst (last ss), Some sz)]\<rparr>\<rparr>)"

lemma conn_dev_put_counter:
  "ct_dev ct = ct_dev (cn_counter c) \<Longrightarrow> conn_dev ((put_dev d c)\<lparr>cn_counter := ct\<rparr>) = Some d"
  by (simp add: conn_dev_def put_dev_def)

lemma counter_start_inactive:
  assumes "conn_ok c d" and "ct_status (cn_counter c) = INACTIVE"
  shows "counter_start c = reply SUCCESS (started False d c)"
  using assms
  by (simp add: counter_start_def conn_ok_def bind_p_def then_p_def on_dev_def
      start_counter_on_lines snapshot_apply conn_dev_put_counter started_def Let_def)

lemma counter_restart_inactive:
  assumes "conn_ok c d" and "ct_status (cn_counter c) = INACTIVE"
  shows "counter_restart c = reply SUCCESS (started True d c)"
  using assms
  by (simp add: counter_restart_def conn_ok_def bind_p_def then_p_def on_dev_def
      start_counter_on_lines snapshot_apply conn_dev_put_counter started_def Let_def)

lemma counter_stop_active:
  assumes "conn_ok c d" and "ct_status (cn_counter c) = ACTIVE" and "ct_sets (cn_counter c) \<noteq> []"
  shows "counter_stop c = reply SUCCESS (stopped d c)"
  using assms
  by (simp add: counter_stop_def conn_ok_def bind_p_def then_p_def on_dev_def close_last_def
      stop_counter_on_lines snapshot_apply conn_dev_put_counter stopped_def Let_def)

lemma refused:
  "ct_status (cn_counter c) = ACTIVE \<Longrightarrow> counter_start c = reply ERROR c"
  "ct_status (cn_counter c) = ACTIVE \<Longrightarrow> counter_restart c = reply ERROR c"
  "ct_status (cn_counter c) = INACTIVE \<Longrightarrow> counter_stop c = reply ERROR c"
  "ct_status (cn_counter c) = ACTIVE \<Longrightarrow> counter_get c = reply ERROR c"
  "ct_status (cn_counter c) = ACTIVE \<Longrightarrow> counter_finalize c = reply ERROR c"
  by (simp_all add: counter_start_def counter_restart_def counter_stop_def counter_get_def
      counter_finalize_def bind_p_def)

lemma reply_frame:
  "cn_counter (snd (reply r c)) = cn_counter c" "cn_server (snd (reply r c)) = cn_server c"
  "s_in (cn_sock (snd (reply r c))) = s_in (cn_sock c)" "cn_peer (snd (reply r c)) = cn_peer c"
  by (simp_all add: reply_def then_p_def bind_p_def on_sock_def send_int_def send_raw_def
      sock_write_def split: option.split)

lemma reply_room:
  "s_room (cn_sock c) = None \<Longrightarrow>
     reply r c = (Ok (), c\<lparr>cn_sock := (cn_sock c)\<lparr>s_out := s_out (cn_sock c) @ int_bytes (retval_code r)\<rparr>\<rparr>)"
  by (simp add: reply_def then_p_def bind_p_def on_sock_def)

lemma reply_not_Undef: "fst (reply r c) \<noteq> Undef u"
  by (simp add: reply_def then_p_def bind_p_def on_sock_def send_int_def send_raw_def
      sock_write_def split: option.split)

section \<open>Frames\<close>

text \<open>\<open>keeps g m\<close>: whatever the outcome of \<open>m\<close>, the observation \<open>g\<close> of the state is unchanged.\<close>

definition keeps :: "('s \<Rightarrow> 'o) \<Rightarrow> ('s, 'a) prog \<Rightarrow> bool" where
  "keeps g m \<longleftrightarrow> (\<forall>s. g (snd (m s)) = g s)"

named_theorems keeps_intros \<open>composition rules for frames\<close>

lemma keeps_bind [keeps_intros]: "keeps g m \<Longrightarrow> (\<And>a. keeps g (f a)) \<Longrightarrow> keeps g (bind_p m f)"
  unfolding keeps_def bind_p_def by (auto split: prod.split res.split) (metis snd_conv)+

lemma keeps_then [keeps_intros]: "keeps g m \<Longrightarrow> keeps g n \<Longrightarrow> keeps g (then_p m n)"
  unfolding then_p_def by (rule keeps_bind)

lemma keeps_prims [keeps_intros]:
  "keeps g (ret_p x)" "keeps g (throw_p e)" "keeps g (undef_p u)" "keeps g (gets_p h)" "keeps g (lift_p r)"
  by (simp_all add: keeps_def)

lemma keeps_if [keeps_intros]: "keeps g m \<Longrightarrow> keeps g n \<Longrightarrow> keeps g (if b then m else n)"
  by simp

lemma keeps_case_prod [keeps_intros]: "(\<And>a b. keeps g (f a b)) \<Longrightarrow> keeps g (case_prod f p)"
  by (cases p) simp

lemma keeps_upd_ct [keeps_intros]:
  "(\<And>c. g (c\<lparr>cn_counter := f (cn_counter c)\<rparr>) = g c) \<Longrightarrow> keeps g (upd_ct f)"
  by (simp add: keeps_def)

lemma keeps_on_dev [keeps_intros]: "(\<And>d c. g (put_dev d c) = g c) \<Longrightarrow> keeps g (on_dev f)"
  by (auto simp: keeps_def on_dev_def split: option.split res.split)

lemma keeps_read_dev [keeps_intros]: "keeps g (read_dev f)"
  by (auto simp: keeps_def read_dev_def split: option.split)

lemma keeps_write [keeps_intros]:
  "(\<And>c out room. g (c\<lparr>cn_sock := (cn_sock c)\<lparr>s_out := out, s_room := room\<rparr>\<rparr>) = g c) \<Longrightarrow>
     keeps g (on_sock (sock_write bs))"
proof -
  assume g: "\<And>c out room. g (c\<lparr>cn_sock := (cn_sock c)\<lparr>s_out := out, s_room := room\<rparr>\<rparr>) = g c"
  have "\<exists>out room. snd (on_sock (sock_write bs) c) = c\<lparr>cn_sock := (cn_sock c)\<lparr>s_out := out, s_room := room\<rparr>\<rparr>" for c
  proof (cases "s_room (cn_sock c)")
    case None
    then have "snd (on_sock (sock_write bs) c) =
        c\<lparr>cn_sock := (cn_sock c)\<lparr>s_out := s_out (cn_sock c) @ bs, s_room := None\<rparr>\<rparr>"
      by (simp add: on_sock_def)
    then show ?thesis by blast
  next
    case (Some k)
    then show ?thesis by (auto simp: on_sock_def sock_write_def)
  qed
  then show ?thesis unfolding keeps_def using g by metis
qed

lemmas counter_ops_defs =
  counter_start_def counter_restart_def counter_stop_def counter_get_def counter_finalize_def
  snapshot_def close_last_def reply_def send_int_def send_raw_def

text \<open>No operation of a counter reads from the socket, and none changes what was fixed at creation.\<close>

lemma dispatch_keeps_input: "keeps (\<lambda>c. s_in (cn_sock c)) (dispatch op)"
  unfolding dispatch_def counter_ops_defs by (intro keeps_intros) simp_all

abbreviation fixed_part :: "conn \<Rightarrow> int list \<times> int \<times> string \<times> int \<times> bool \<times> bool \<times> nat" where
  "fixed_part c \<equiv> (ct_lines (cn_counter c), ct_id (cn_counter c), ct_dev (cn_counter c),
     ct_interval (cn_counter c), ct_aggregate (cn_counter c), ct_registered (cn_counter c),
     ct_sock (cn_counter c))"

lemma dispatch_keeps_fixed: "keeps fixed_part (dispatch op)"
  unfolding dispatch_def counter_ops_defs by (intro keeps_intros) simp_all

section \<open>A session ends\<close>

lemma session_step_consumes:
  assumes "session_step c = (Ok (), c')"
  shows "length (s_in (cn_sock c')) < length (s_in (cn_sock c))"
proof -
  obtain r c1 where r: "on_sock receive_int c = (r, c1)" by force
  show ?thesis
  proof (cases r)
    case (Ok op)
    have "length (s_in (cn_sock c1)) < length (s_in (cn_sock c))"
      using r Ok by (auto simp: on_sock_def receive_int_def receive_raw_def sock_read_def bind_p_def
          split: prod.splits if_splits)
    moreover have "snd (dispatch op c1) = c'"
      using assms by (simp add: session_step_def bind_p_def r Ok)
    then have "s_in (cn_sock c') = s_in (cn_sock c1)"
      using dispatch_keeps_input [of op] by (auto simp: keeps_def)
    ultimately show ?thesis by simp
  qed (use assms r in \<open>simp_all add: session_step_def bind_p_def\<close>)
qed

lemma counter_loop_fuel:
  "length (s_in (cn_sock c)) < n \<Longrightarrow> counter_loop (Suc n) c = counter_loop n c"
proof (induction n arbitrary: c)
  case (Suc n)
  show ?case
  proof (cases "ct_running (cn_counter c)")
    case True
    obtain r c' where s: "session_step c = (r, c')" by force
    show ?thesis
    proof (cases r)
      case (Ok u)
      have "counter_loop (Suc n) c' = counter_loop n c'"
        by (rule Suc.IH) (use session_step_consumes [of c c'] s Ok Suc.prems in simp)
      then show ?thesis using True s Ok
        by (simp add: bind_p_def then_p_def del: counter_loop.simps(2))
          (simp add: bind_p_def then_p_def)
    qed (use True s in \<open>simp_all add: bind_p_def then_p_def\<close>)
  qed (simp add: bind_p_def)
qed simp

lemma counter_loop_enough:
  assumes "length (s_in (cn_sock c)) \<le> n"
  shows "counter_loop (Suc n) c = counter_loop (Suc (length (s_in (cn_sock c)))) c"
  using assms
proof (induction n rule: dec_induct)
  case (step n)
  have "counter_loop (Suc (Suc n)) c = counter_loop (Suc n) c"
    by (rule counter_loop_fuel) (use step in simp)
  with step show ?case by simp
qed simp

text \<open>Running out of fuel is not among the outcomes of the operations themselves.\<close>

definition fuelled :: "'a res \<Rightarrow> bool" where
  "fuelled r \<longleftrightarrow> r \<noteq> Undef ''fuel''"

definition fuelled_p :: "('s, 'a) prog \<Rightarrow> bool" where
  "fuelled_p m \<longleftrightarrow> (\<forall>s. fuelled (fst (m s)))"

named_theorems fuelled_intros

lemma fuelled_prims [simp, fuelled_intros]:
  "fuelled (Ok x)" "fuelled (Throw e)" "u \<noteq> ''fuel'' \<Longrightarrow> fuelled (Undef u)"
  by (simp_all add: fuelled_def)

lemma fuelled_bind_r [fuelled_intros]: "fuelled r \<Longrightarrow> (\<And>a. fuelled (f a)) \<Longrightarrow> fuelled (bind_r r f)"
  by (cases r) (simp_all add: fuelled_def)

lemma fuelled_fold_r [fuelled_intros]: "(\<And>x a. fuelled (f x a)) \<Longrightarrow> fuelled (fold_r f xs a)"
  by (induction xs arbitrary: a) (auto intro: fuelled_bind_r)

lemma fuelled_map_r [fuelled_intros]: "(\<And>x. fuelled (f x)) \<Longrightarrow> fuelled (map_r f xs)"
  by (induction xs) (auto intro!: fuelled_bind_r)

lemma fuelled_bind_p [fuelled_intros]:
  "fuelled_p m \<Longrightarrow> (\<And>a. fuelled_p (f a)) \<Longrightarrow> fuelled_p (bind_p m f)"
  unfolding fuelled_p_def bind_p_def fuelled_def
  by (auto split: prod.split res.split) (metis fst_conv)

lemma fuelled_then_p [fuelled_intros]: "fuelled_p m \<Longrightarrow> fuelled_p n \<Longrightarrow> fuelled_p (then_p m n)"
  unfolding then_p_def by (rule fuelled_bind_p)

lemma fuelled_prims_p [fuelled_intros]:
  "fuelled_p (ret_p x)" "fuelled_p (gets_p g)" "fuelled_p (upd_ct f)" "fuelled_p (on_sock (sock_write bs))"
  "fuelled_p (on_sock receive_int)" "u \<noteq> ''fuel'' \<Longrightarrow> fuelled_p (undef_p u)"
  by (auto simp: fuelled_p_def on_sock_def sock_write_def receive_int_def receive_raw_def sock_read_def
      bind_p_def split: option.split)

lemma fuelled_dev_p [fuelled_intros]:
  "(\<And>d. fuelled (f d)) \<Longrightarrow> fuelled_p (on_dev f)" "(\<And>d. fuelled (h d)) \<Longrightarrow> fuelled_p (read_dev h)"
  unfolding fuelled_p_def on_dev_def read_dev_def fuelled_def
  by (auto split: option.split res.split)

lemma fuelled_if_p [fuelled_intros]: "fuelled_p m \<Longrightarrow> fuelled_p n \<Longrightarrow> fuelled_p (if b then m else n)"
  by simp

lemma fuelled_case_prod_p [fuelled_intros]: "(\<And>a b. fuelled_p (f a b)) \<Longrightarrow> fuelled_p (case_prod f q)"
  by (cases q) simp

lemma fuelled_device:
  "fuelled (start_counter ls d)" "fuelled (stop_counter ls d)" "fuelled (get_lines_sizes ls d)"
  "fuelled (get_line_data l d)"
  unfolding start_counter_def stop_counter_def get_lines_sizes_def get_line_data_def with_line_def
  by (auto intro!: fuelled_fold_r split: option.split)

lemma fuelled_agg_line: "fuelled (agg_line line k fin idx xs)"
  by (induction line k fin idx xs rule: agg_line.induct) (auto intro: fuelled_bind_r)

lemma fuelled_get_reply: "fuelled (get_reply ct d)"
  unfolding get_reply_def collect_watts_def set_min_len_def agg_set_def lines_set_def range_end_def
    copy_line_def
  by (auto intro!: fuelled_intros fuelled_device fuelled_agg_line simp: Let_def split: option.split)

lemma fuelled_dispatch: "fuelled_p (dispatch op)"
  unfolding dispatch_def counter_ops_defs
  by (intro fuelled_intros fuelled_device fuelled_get_reply) simp_all

lemma counter_loop_returns:
  "length (s_in (cn_sock c)) < n \<Longrightarrow> fuelled (fst (counter_loop n c))"
proof (induction n arbitrary: c)
  case (Suc n)
  show ?case
  proof (cases "ct_running (cn_counter c)")
    case True
    have step: "fuelled_p session_step"
      unfolding session_step_def by (intro fuelled_intros fuelled_dispatch)
    obtain r c' where s: "session_step c = (r, c')" by force
    then have "fuelled r" using step by (metis fuelled_p_def fst_conv)
    show ?thesis
    proof (cases r)
      case (Ok u)
      have "fuelled (fst (counter_loop n c'))"
        by (rule Suc.IH) (use session_step_consumes [of c c'] s Ok Suc.prems in simp)
      then show ?thesis using True s Ok by (simp add: bind_p_def then_p_def)
    qed (use True s \<open>fuelled r\<close> in \<open>simp_all add: bind_p_def then_p_def\<close>)
  qed (simp add: bind_p_def)
qed simp

section \<open>What a session promises its client\<close>

text \<open>
  C26: The loop of a session ends: whatever the client sends and however the device behaves, the
  rounds allotted to it (one more than there are input bytes) are not used up.
\<close>

theorem counter_run_returns: "fst (counter_run c) \<noteq> Undef ''fuel''"
proof -
  have "fuelled (fst (counter_loop (Suc (length (s_in (cn_sock c)))) c))"
    by (rule counter_loop_returns) simp
  moreover have "fst (reply ERROR c') \<noteq> Undef ''fuel''" for c' by (rule reply_not_Undef)
  ultimately show ?thesis
    by (auto simp: counter_run_def catch_p_def fuelled_def split: prod.split res.split)
qed

text \<open>
  C27: Requests out of order are refused with an error and change nothing else: an active counter
  accepts neither start, continue, get nor finalize, an inactive one no stop.
\<close>

theorem wrong_order_refused:
  assumes "ct_status (cn_counter c) = ACTIVE \<and> op \<in> {START, CONTINUE, GET, FINALIZE} \<or>
    ct_status (cn_counter c) = INACTIVE \<and> op = STOP"
  shows "dispatch (op_code op) c = reply ERROR c"
  using assms by (auto simp: dispatch_def refused)

text \<open>An instance.\<close>

theorem wrong_order_refused_witness:
  "dispatch (op_code STOP) \<lparr>cn_server = \<lparr>sv_IP = [], sv_port = 0, sv_daemonize = False, sv_devices = [], sv_nextid = 0\<rparr>,
     cn_sock = \<lparr>s_in = [], s_out = [], s_room = None\<rparr>, cn_peer = None, cn_counter = counter_init 0\<rparr> =
   (Ok (), \<lparr>cn_server = \<lparr>sv_IP = [], sv_port = 0, sv_daemonize = False, sv_devices = [], sv_nextid = 0\<rparr>,
     cn_sock = \<lparr>s_in = [], s_out = int_bytes (-1), s_room = None\<rparr>, cn_peer = None, cn_counter = counter_init 0\<rparr>)"
  by (subst wrong_order_refused)
    (simp_all add: counter_init_def reply_def then_p_def bind_p_def on_sock_def)

text \<open>The selected lines are the bits of the mask below the device's number of lines, in increasing order.\<close>

lemma selected_lines:
  "(l \<in> set (set_lines m d) \<longleftrightarrow>
      0 \<le> l \<and> l < d_n_lines d \<and> nat l < 8 * length m \<and> bit (char_byte (m ! (nat l div 8))) (nat l mod 8)) \<and>
   sorted_wrt (<) (set_lines m d)"
  by (simp add: set_lines_prefix set_mask_prefix sorted_mask_prefix)

text \<open>
  C25: The sampling interval computed with single-precision division and rounding is the device's
  rate over the requested one, rounded to the nearest integer with halves up; 0 asks for the full
  rate, and a rate above the device's is an error.
\<close>

theorem interval_nearest:
  assumes "0 \<le> f" and "0 < d_max_frequency d" and "d_max_frequency d < 4096"
  shows "set_frequency f d =
    (if d_max_frequency d < f then Throw (Runtime_error (''Device only works at '' @ to_string (d_max_frequency d) @ '' Hz!''))
     else let g = (if f = 0 then d_max_frequency d else f) in Ok ((2 * d_max_frequency d + g) div (2 * g)))"
proof (cases "d_max_frequency d < f")
  case True
  then show ?thesis using assms by (simp add: set_frequency_def Let_def)
next
  case False
  then show ?thesis using set_frequency_ratio [of f d] assms by (simp add: Let_def)
qed

text \<open>An instance.\<close>

theorem interval_nearest_witness:
  "set_frequency 3 (Device_new [] [] 1000 1 False Dummy) = Ok 333 \<and>
   set_frequency 7 (Device_new [] [] 20 1 False Dummy) = Ok 3"
  using interval_nearest [of 3 "Device_new [] [] 1000 1 False Dummy"] interval_nearest [of 7 "Device_new [] [] 20 1 False Dummy"]
  by (simp add: Device_new_def)

end
