(* ===== verification/Samples.thy ===== *)
theory Samples
  imports Counter_Facts
begin

text \<open>
  The content of a reply to \<open>get\<close> (\<open>Counter::get\<close> in \<open>server/counter.cpp\<close>): which buffered
  samples of which lines it holds, that building it never leaves the buffers, and how its length
  relates to the lengths it announces.
\<close>

section \<open>Recorded sets\<close>

definition data_of :: "device \<Rightarrow> int \<Rightarrow> double list" where
  "data_of d l = (case amap_get (d_lines d) l of None \<Rightarrow> [] | Some w \<Rightarrow> l_data w)"

text \<open>A completed set whose offsets lie, in order, within the buffers of its lines.\<close>

definition set_ok :: "device \<Rightarrow> int list \<Rightarrow> interval_set \<Rightarrow> bool" where
  "set_ok d ls se \<longleftrightarrow> (case snd se of None \<Rightarrow> False | Some e \<Rightarrow>
     (\<forall>l \<in> set ls. 0 \<le> at_set (fst se) l \<and> at_set (fst se) l \<le> at_set e l \<and>
        at_set e l \<le> int (length (data_of d l))))"

definition set_span :: "interval_set \<Rightarrow> int \<Rightarrow> int" where
  "set_span se l = at_set (the (snd se)) l - at_set (fst se) l"

text \<open>The shortest resampled line.\<close>

definition usable :: "int list \<Rightarrow> int \<Rightarrow> interval_set \<Rightarrow> int" where
  "usable ls k se = (if ls = [] then 0 else Min ((\<lambda>l. set_span se l div k) ` set ls))"

lemma set_ok_span: "set_ok d ls se \<Longrightarrow> l \<in> set ls \<Longrightarrow> 0 \<le> set_span se l"
  by (auto simp: set_ok_def set_span_def split: option.splits)

lemma set_min_len_usable:
  assumes "set_ok d ls se" and "distinct ls" and "0 < k"
  shows "set_min_len ls k se = Ok (usable ls k se)"
proof (cases ls)
  case (Cons x xs)
  obtain e where e: "snd se = Some e" using assms(1) by (auto simp: set_ok_def split: option.splits)
  define step where "step = (\<lambda>l m. let q = cdiv (at_set e l - at_set (fst se) l) k
    in (Ok (if l = x then q else min q m) :: int res))"
  have q: "cdiv (at_set e l - at_set (fst se) l) k = set_span se l div k" if "l \<in> set ls" for l
    using set_ok_span [OF assms(1) that] assms(3) by (simp add: set_span_def e)
  have "set_min_len ls k se = fold_r step ls 0"
    using assms(3) Cons by (simp add: set_min_len_def step_def e)
  also have "\<dots> = fold_r step xs (set_span se x div k)"
    using Cons q [of x] by (simp add: step_def)
  also have "\<dots> = Ok (fold (\<lambda>l. min (set_span se l div k)) xs (set_span se x div k))"
  proof -
    have "step l m = Ok (min (set_span se l div k) m)" if "l \<in> set xs" for l m
      using q [of l] that assms(2) Cons by (auto simp: step_def Let_def)
    then show ?thesis
      by (intro fold_r_pure [where P = "\<lambda>_. True", THEN conjunct1]) simp_all
  qed
  also have "fold (\<lambda>l. min (set_span se l div k)) xs (set_span se x div k) =
      fold min (map (\<lambda>l. set_span se l div k) xs) (set_span se x div k)"
    by (simp add: fold_map comp_def)
  also have "\<dots> = Min (set (map (\<lambda>l. set_span se l div k) ls))"
    unfolding Cons list.map by (rule Min.set_eq_fold [symmetric])
  finally show ?thesis by (simp add: usable_def Cons)
qed (simp add: set_min_len_def usable_def)

lemma usable_bounds:
  assumes "set_ok d ls se" and "0 < k" and "l \<in> set ls"
  shows "0 \<le> usable ls k se" and "usable ls k se * k \<le> set_span se l" and "usable ls k se \<le> set_span se l"
proof -
  have ne: "ls \<noteq> []" using assms(3) by auto
  have "\<forall>l \<in> set ls. 0 \<le> set_span se l div k"
    using set_ok_span [OF assms(1)] assms(2) by (simp add: pos_imp_zdiv_nonneg_iff)
  then show nn: "0 \<le> usable ls k se" using ne by (auto simp: usable_def)
  have le: "usable ls k se \<le> set_span se l div k"
    using ne assms(3) by (simp add: usable_def)
  then have "usable ls k se * k \<le> set_span se l div k * k" using assms(2) by simp
  also have "\<dots> \<le> set_span se l" using assms(2) by (simp add: minus_mod_eq_div_mult [symmetric])
  finally show "usable ls k se * k \<le> set_span se l" .
  have "usable ls k se * 1 \<le> usable ls k se * k"
    using nn assms(2) by (intro mult_left_mono) auto
  with \<open>usable ls k se * k \<le> set_span se l\<close> show "usable ls k se \<le> set_span se l" by simp
qed

section \<open>One line\<close>

lemma ceil_div_Suc:
  assumes "0 < (k::nat)"
  shows "(Suc n + k - 1) div k = (n + k - 1) div k + (if n mod k = 0 then 1 else 0)"
proof -
  define q r where "q = n div k" and "r = n mod k"
  have n: "n = r + k * q" and r: "r < k" using assms by (simp_all add: q_def r_def)
  have "(Suc n + k - 1) div k = Suc q" using r assms by (simp add: n)
  moreover have "(n + k - 1) div k = (if r = 0 then q else Suc q)"
  proof (cases "r = 0")
    case True
    have "n + k - 1 = (k - 1) + k * q" using True n assms by simp
    then have "(n + k - 1) div k = (k - 1) div k + q"
      using assms by (metis div_mult_self2 add.commute not_less_zero)
    then show ?thesis using True assms by simp
  next
    case False
    have "n + k - 1 = (r - 1) + k * Suc q" using False n by simp
    then have "(n + k - 1) div k = (r - 1) div k + Suc q"
      using assms by (metis div_mult_self2 add.commute not_less_zero)
    then show ?thesis using False r by simp
  qed
  ultimately show ?thesis by (simp add: r_def)
qed

lemma length_strided: "0 < k \<Longrightarrow> length (strided k xs) = (length xs + k - 1) div k"
proof (induction xs rule: rev_induct)
  case (snoc x xs)
  have "length (strided k (xs @ [x])) = length (strided k xs) + (if length xs mod k = 0 then 1 else 0)"
    by (simp add: strided_def enumerate_append_eq)
  then show ?case using snoc ceil_div_Suc [of k "length xs"] by simp
qed (simp add: strided_def)

lemma strided_1: "strided 1 xs = xs"
  by (simp add: strided_def)

text \<open>The aggregating loop stays in the buffer, and with interval 1 adds the next samples.\<close>

lemma agg_line_in_range:
  assumes "0 \<le> idx" and "0 < k" and "xs \<noteq> [] \<longrightarrow> idx + (int (length xs) - 1) * k < int (length line)"
  shows "\<exists>ys. agg_line line k fin idx xs = Ok ys \<and> length ys = length xs"
  using assms
proof (induction line k fin idx xs rule: agg_line.induct)
  case (2 line k fin idx x xs)
  show ?case
  proof (cases "idx = fin")
    case False
    have "0 \<le> int (length xs) * k" using 2(3) by simp
    then have "idx < int (length line)" using 2(4) by simp
    moreover have "xs \<noteq> [] \<longrightarrow> idx + k + (int (length xs) - 1) * k < int (length line)"
      using 2(4) by (simp add: algebra_simps)
    ultimately show ?thesis using 2(1) [OF False] 2(2,3) False by force
  qed simp
qed simp

lemma agg_line_unit:
  assumes "0 \<le> idx" and "fin = idx + int (length xs)" and "fin \<le> int (length line)"
  shows "agg_line line 1 fin idx xs = Ok (map2 d_add xs (take (length xs) (drop (nat idx) line)))"
  using assms
proof (induction xs arbitrary: idx)
  case (Cons x xs)
  have lt: "nat idx < length line" using Cons.prems by simp
  have "agg_line line 1 fin (idx + 1) xs =
      Ok (map2 d_add xs (take (length xs) (drop (nat (idx + 1)) line)))"
    by (rule Cons.IH) (use Cons.prems in simp_all)
  moreover have "drop (nat idx) line = line ! nat idx # drop (nat (idx + 1)) line"
    using lt Cons.prems(1) Cons_nth_drop_Suc [of "nat idx" line] by (simp add: nat_add_distrib)
  ultimately show ?case using Cons.prems by simp
qed simp

section \<open>One set\<close>

lemma get_line_data_of: "has_lines ls d \<Longrightarrow> l \<in> set ls \<Longrightarrow> get_line_data l d = Ok (data_of d l)"
  by (auto simp: has_lines_def get_line_data_def data_of_def)

text \<open>The samples of a set that one line contributes.\<close>

definition slice :: "device \<Rightarrow> interval_set \<Rightarrow> int \<Rightarrow> int \<Rightarrow> double list" where
  "slice d se m l = take (nat m) (drop (nat (at_set (fst se) l)) (data_of d l))"

lemma range_end_usable:
  assumes "set_ok d ls se" and "l \<in> set ls" and "m \<le> set_span se l"
  shows "range_end se l m (data_of d l) = Ok (at_set (fst se) l + m)"
  using assms by (auto simp: range_end_def set_ok_def set_span_def split: option.splits)

lemma set_ok_bounds:
  assumes "set_ok d ls se" and "l \<in> set ls"
  shows "0 \<le> at_set (fst se) l" and "at_set (fst se) l + set_span se l \<le> int (length (data_of d l))"
  using assms by (auto simp: set_ok_def set_span_def split: option.splits)

lemma length_slice:
  assumes "set_ok d ls se" and "l \<in> set ls" and "0 \<le> m" and "m \<le> set_span se l"
  shows "length (slice d se m l) = nat m"
proof -
  have "nat m \<le> length (data_of d l) - nat (at_set (fst se) l)"
    using set_ok_bounds [OF assms(1,2)] assms(3,4) by linarith
  then show ?thesis by (simp add: slice_def)
qed

lemma copy_line_slice:
  assumes "set_ok d ls se" and "l \<in> set ls" and "0 < k" and "0 \<le> m" and "m \<le> set_span se l"
  shows "copy_line (data_of d l) k (at_set (fst se) l) (at_set (fst se) l + m) =
    Ok (strided (nat k) (slice d se m l))"
proof (cases "m = 0")
  case False
  have "at_set (fst se) l + m \<le> int (length (data_of d l))" "0 \<le> at_set (fst se) l"
    using set_ok_bounds [OF assms(1,2)] assms(5) by simp_all
  with False assms(3,4) show ?thesis by (simp add: copy_line_def slice_def)
qed (simp add: copy_line_def slice_def strided_def)

lemma lines_set_slices:
  assumes "set_ok d ls se" and "has_lines ls d" and "0 < k"
    and m: "0 \<le> m" "\<forall>l \<in> set ls. m \<le> set_span se l"
  shows "lines_set d ls k se m = Ok (concat (map (\<lambda>l. strided (nat k) (slice d se m l)) ls))"
proof -
  let ?f = "\<lambda>l acc. bind_r (get_line_data l d) (\<lambda>line. bind_r (range_end se l m line) (\<lambda>fin.
         bind_r (copy_line line k (at_set (fst se) l) fin) (\<lambda>xs. Ok (acc @ xs))))"
  have "?f l acc = Ok (acc @ strided (nat k) (slice d se m l))" if "l \<in> set ls" for l acc
    using that copy_line_slice [OF assms(1) that assms(3), of m] range_end_usable [OF assms(1) that, of m] m
    by (simp add: get_line_data_of [OF assms(2)])
  then have "fold_r ?f ls acc = Ok (fold (\<lambda>l acc. acc @ strided (nat k) (slice d se m l)) ls acc) \<and> True" for acc
    by (intro fold_r_pure) simp_all
  moreover have "fold (\<lambda>l acc. acc @ g l) ls acc = acc @ concat (map g ls)" for g :: "int \<Rightarrow> double list" and acc
    by (induction ls arbitrary: acc) simp_all
  ultimately show ?thesis by (simp add: lines_set_def)
qed

lemma agg_set_in_range:
  assumes "set_ok d ls se" and "has_lines ls d" and "0 < k"
    and m: "0 \<le> m" "\<forall>l \<in> set ls. m * k \<le> set_span se l \<and> m \<le> set_span se l"
  shows "\<exists>ys. agg_set d ls k se m = Ok ys \<and> length ys = nat m"
proof -
  let ?f = "\<lambda>l acc. bind_r (get_line_data l d) (\<lambda>line. bind_r (range_end se l m line) (\<lambda>fin.
         agg_line line k fin (at_set (fst se) l) acc))"
  have step: "\<exists>ys. ?f l acc = Ok ys \<and> length ys = nat m" if l: "l \<in> set ls" and n: "length acc = nat m" for l acc
  proof -
    have "m * k \<le> set_span se l" using m l by blast
    moreover have "0 \<le> at_set (fst se) l" "at_set (fst se) l + set_span se l \<le> int (length (data_of d l))"
      using l assms(1) by (auto simp: set_ok_def set_span_def split: option.splits)
    ultimately have "acc \<noteq> [] \<longrightarrow>
        at_set (fst se) l + (int (length acc) - 1) * k < int (length (data_of d l))"
      using n m(1) assms(3) by (auto simp: left_diff_distrib)
    then show ?thesis
      using agg_line_in_range [of "at_set (fst se) l" k acc "data_of d l" "at_set (fst se) l + m"]
        set_ok_bounds(1) [OF assms(1) l] assms(3) l m range_end_usable [OF assms(1) l, of m] n
      by (simp add: get_line_data_of [OF assms(2)])
  qed
  have "\<exists>ys. fold_r ?f ks acc = Ok ys \<and> length ys = nat m" if "set ks \<subseteq> set ls" "length acc = nat m" for ks acc
    using that
  proof (induction ks arbitrary: acc)
    case (Cons k' ks)
    then obtain ys where "?f k' acc = Ok ys" "length ys = nat m" using step [of k' acc] by auto
    with Cons show ?case by simp
  qed simp
  from this [of ls "replicate (nat m) d_zero"] show ?thesis using m(1) by (simp add: agg_set_def)
qed

lemma agg_set_sums:
  assumes "set_ok d ls se" and "has_lines ls d"
    and m: "0 \<le> m" "\<forall>l \<in> set ls. m \<le> set_span se l"
  shows "agg_set d ls 1 se m =
    Ok (fold (\<lambda>l acc. map2 d_add acc (slice d se m l)) ls (replicate (nat m) d_zero))"
proof -
  let ?f = "\<lambda>l acc. bind_r (get_line_data l d) (\<lambda>line. bind_r (range_end se l m line) (\<lambda>fin.
         agg_line line 1 fin (at_set (fst se) l) acc))"
  have sl: "length (slice d se m l) = nat m" if "l \<in> set ls" for l
    using that length_slice [OF assms(1)] m by simp
  have "?f l acc = Ok (map2 d_add acc (slice d se m l)) \<and> length (map2 d_add acc (slice d se m l)) = nat m"
    if l: "l \<in> set ls" and n: "length acc = nat m" for l acc
  proof -
    have "agg_line (data_of d l) 1 (at_set (fst se) l + m) (at_set (fst se) l) acc =
        Ok (map2 d_add acc (take (length acc) (drop (nat (at_set (fst se) l)) (data_of d l))))"
      using set_ok_bounds [OF assms(1) l] l n m by (intro agg_line_unit) force+
    then show ?thesis
      using l n m range_end_usable [OF assms(1) l, of m] sl [OF l]
      by (simp add: get_line_data_of [OF assms(2)] slice_def)
  qed
  then have "fold_r ?f ls (replicate (nat m) d_zero) =
      Ok (fold (\<lambda>l acc. map2 d_add acc (slice d se m l)) ls (replicate (nat m) d_zero)) \<and>
      length (fold (\<lambda>l acc. map2 d_add acc (slice d se m l)) ls (replicate (nat m) d_zero)) = nat m"
    by (intro fold_r_pure [where P = "\<lambda>acc. length acc = nat m"]) simp_all
  then show ?thesis using m(1) by (simp add: agg_set_def)
qed

section \<open>The whole reply\<close>

text \<open>A counter whose sets can be read back from a device.\<close>

definition recorded :: "counter \<Rightarrow> device \<Rightarrow> bool" where
  "recorded ct d \<longleftrightarrow> has_lines (ct_lines ct) d \<and> distinct (ct_lines ct) \<and> 0 < ct_interval ct \<and>
     (\<forall>se \<in> set (ct_sets ct). set_ok d (ct_lines ct) se)"

abbreviation usable_lens :: "counter \<Rightarrow> int list" where
  "usable_lens ct \<equiv> map (usable (ct_lines ct) (ct_interval ct)) (ct_sets ct)"

lemma min_lens_usable:
  "recorded ct d \<Longrightarrow> map_r (set_min_len (ct_lines ct) (ct_interval ct)) (ct_sets ct) = Ok (usable_lens ct)"
  by (intro map_r_map set_min_len_usable) (auto simp: recorded_def)

lemma usable_nonneg:
  assumes "set_ok d ls se" and "0 < k"
  shows "0 \<le> usable ls k se"
  using usable_bounds(1) [OF assms] by (cases ls) (auto simp: usable_def)

lemma recorded_set:
  assumes "recorded ct d" and "se \<in> set (ct_sets ct)"
  defines "m \<equiv> usable (ct_lines ct) (ct_interval ct) se"
  shows "set_ok d (ct_lines ct) se" and "has_lines (ct_lines ct) d" and "0 < ct_interval ct"
    and "0 \<le> m" and "\<forall>l \<in> set (ct_lines ct). m * ct_interval ct \<le> set_span se l \<and> m \<le> set_span se l"
    and "\<forall>l \<in> set (ct_lines ct). m \<le> set_span se l"
proof -
  show ok: "set_ok d (ct_lines ct) se" and "has_lines (ct_lines ct) d" and k: "0 < ct_interval ct"
    using assms(1,2) by (simp_all add: recorded_def)
  show "0 \<le> m" "\<forall>l \<in> set (ct_lines ct). m * ct_interval ct \<le> set_span se l \<and> m \<le> set_span se l"
      "\<forall>l \<in> set (ct_lines ct). m \<le> set_span se l"
    using usable_nonneg [OF ok k] usable_bounds(2,3) [OF ok k] by (simp_all add: m_def)
qed

lemma map_r_zip_map: "map_r (\<lambda>(x, m). F x m) (zip xs (map g xs)) = map_r (\<lambda>x. F x (g x)) xs"
  by (induction xs) simp_all

lemma get_reply_lines:
  assumes "recorded ct d" and "\<not> ct_aggregate ct"
  shows "get_reply ct d = Ok (watts_sets_of (usable_lens ct),
    concat (map (\<lambda>se. concat (map (\<lambda>l. strided (nat (ct_interval ct))
      (slice d se (usable (ct_lines ct) (ct_interval ct) se) l)) (ct_lines ct))) (ct_sets ct)))"
proof -
  let ?ls = "ct_lines ct" and ?k = "ct_interval ct"
  have "lines_set d ?ls ?k se (usable ?ls ?k se) =
      Ok (concat (map (\<lambda>l. strided (nat ?k) (slice d se (usable ?ls ?k se) l)) ?ls))"
    if "se \<in> set (ct_sets ct)" for se
    using recorded_set [OF assms(1) that] by (intro lines_set_slices)
  then show ?thesis
    using min_lens_usable [OF assms(1)] assms(2)
    by (simp add: get_reply_def collect_watts_def map_r_zip_map map_r_map)
qed

lemma get_reply_aggregate:
  assumes "recorded ct d" and "ct_aggregate ct"
  shows "\<exists>wss. get_reply ct d = Ok (watts_sets_of (usable_lens ct), concat wss) \<and>
    map length wss = map nat (usable_lens ct)"
proof -
  let ?ls = "ct_lines ct" and ?k = "ct_interval ct"
  have "\<exists>ys. agg_set d ?ls ?k se (usable ?ls ?k se) = Ok ys \<and> length ys = nat (usable ?ls ?k se)"
    if "se \<in> set (ct_sets ct)" for se
    using recorded_set [OF assms(1) that] by (intro agg_set_in_range)
  then obtain g where g: "\<And>se. se \<in> set (ct_sets ct) \<Longrightarrow>
      agg_set d ?ls ?k se (usable ?ls ?k se) = Ok (g se) \<and> length (g se) = nat (usable ?ls ?k se)"
    by metis
  then have "get_reply ct d = Ok (watts_sets_of (usable_lens ct), concat (map g (ct_sets ct)))"
    using min_lens_usable [OF assms(1)] assms(2)
    by (simp add: get_reply_def collect_watts_def map_r_zip_map map_r_map)
  then show ?thesis using g by (intro exI [of _ "map g (ct_sets ct)"]) simp
qed

lemma get_reply_sums:
  assumes "recorded ct d" and "ct_aggregate ct" and "ct_interval ct = 1"
  shows "get_reply ct d = Ok (watts_sets_of (usable_lens ct),
    concat (map (\<lambda>se. fold (\<lambda>l acc. map2 d_add acc (slice d se (usable (ct_lines ct) 1 se) l)) (ct_lines ct)
      (replicate (nat (usable (ct_lines ct) 1 se)) d_zero)) (ct_sets ct)))"
proof -
  let ?ls = "ct_lines ct"
  have "agg_set d ?ls 1 se (usable ?ls 1 se) = Ok (fold (\<lambda>l acc. map2 d_add acc
      (slice d se (usable ?ls 1 se) l)) ?ls (replicate (nat (usable ?ls 1 se)) d_zero))"
    if "se \<in> set (ct_sets ct)" for se
    using recorded_set [OF assms(1) that] assms(3) by (intro agg_set_sums) simp_all
  then show ?thesis
    using min_lens_usable [OF assms(1)] assms(2,3)
    by (simp add: get_reply_def collect_watts_def map_r_zip_map map_r_map)
qed

text \<open>Reading back never leaves the buffers, whatever the mode.\<close>

lemma get_reply_defined: "recorded ct d \<Longrightarrow> \<exists>r. get_reply ct d = Ok r"
  using get_reply_lines [of ct d] get_reply_aggregate [of ct d] by blast

text \<open>
  C0: The set boundaries announced to the client are the running sums of the lengths of the sets,
  starting with 0, as long as they fit the 32-bit numbers they are sent in.
\<close>

theorem watts_sets_of_sums:
  assumes "\<forall>m \<in> set ms. 0 \<le> m" and "sum_list ms < 2147483648"
  shows "watts_sets_of ms = map (\<lambda>i. sum_list (take i ms)) [0..<Suc (length ms)]"
  using assms
proof (induction ms rule: rev_induct)
  case (snoc m ms)
  have nn: "0 \<le> sum_list ms" using snoc.prems(1) by (intro sum_list_nonneg) auto
  have IH: "watts_sets_of ms = map (\<lambda>i. sum_list (take i ms)) [0..<Suc (length ms)]"
    using snoc by simp
  have "is_i32 (m + sum_list ms)" using snoc.prems nn by (simp add: is_i32_def)
  then have "watts_sets_of (ms @ [m]) = watts_sets_of ms @ [sum_list ms + m]"
    using IH by (simp add: watts_sets_of_def i32_id add.commute)
  with IH show ?case by simp
qed (simp add: watts_sets_of_def)

text \<open>An instance.\<close>

theorem watts_sets_of_sums_witness: "watts_sets_of [2, 0, 5] = [0, 2, 2, 7]"
  by (subst watts_sets_of_sums) simp_all

end
