(* ===== verification/Lifecycle.thy ===== *)
theory Lifecycle
  imports Samples
begin

text \<open>
  What creating, running and leaving do to the shared devices: the effect of the constructor of
  \<open>Counter\<close> whatever the client sends, of every operation of a session, and of the destructor
  (\<open>server/counter.cpp\<close>). These are the transitions the system-wide invariant is proved over.
\<close>

section \<open>Creation\<close>

definition devs_ok :: "(string, device) amap \<Rightarrow> bool" where
  "devs_ok D \<longleftrightarrow> (\<forall>n d. amap_get D n = Some d \<longrightarrow> dev_ok d)"

text \<open>A counter that has not reached its device, and one that has registered with it.\<close>

definition fresh :: "(string, device) amap \<Rightarrow> conn \<Rightarrow> bool" where
  "fresh D c \<longleftrightarrow> sv_devices (cn_server c) = D \<and> ct_status (cn_counter c) = INACTIVE \<and>
     ct_sets (cn_counter c) = [] \<and> \<not> ct_registered (cn_counter c)"

definition placed :: "(string, device) amap \<Rightarrow> device \<Rightarrow> conn \<Rightarrow> bool" where
  "placed D d c \<longleftrightarrow> fresh D c \<and> amap_get D (ct_dev (cn_counter c)) = Some d"

definition joined :: "(string, device) amap \<Rightarrow> conn \<Rightarrow> bool" where
  "joined D c \<longleftrightarrow> (\<exists>d m. amap_get D (ct_dev (cn_counter c)) = Some d \<and> amap_ok m \<and>
     sv_devices (cn_server c) = amap_put (ct_dev (cn_counter c))
       (on_lines (lines_of c) line_enable (d\<lparr>d_counter_map := m\<rparr>)) D \<and>
     ct_status (cn_counter c) = INACTIVE \<and> ct_sets (cn_counter c) = [] \<and>
     ct_registered (cn_counter c) \<and> distinct (lines_of c) \<and>
     (\<forall>l \<in> set (lines_of c). 0 \<le> l \<and> l < d_n_lines d))"

abbreviation shared_part :: "conn \<Rightarrow> (string, device) amap \<times> state \<times> interval_set list \<times> bool" where
  "shared_part c \<equiv> (sv_devices (cn_server c), ct_status (cn_counter c), ct_sets (cn_counter c),
     ct_registered (cn_counter c))"

lemma keeps_triple: "keeps g m \<Longrightarrow> triple (\<lambda>s. P (g s)) m (\<lambda>_ s. P (g s)) (\<lambda>s. P (g s))"
  by (rule tripleI) (metis keeps_def snd_conv)+

lemma keeps_on_sock [keeps_intros]: "(\<And>c s. g (c\<lparr>cn_sock := s\<rparr>) = g c) \<Longrightarrow> keeps g (on_sock m)"
  by (simp add: keeps_def on_sock_def split: prod.split)

lemma keeps_mod [keeps_intros]: "(\<And>s. g (f s) = g s) \<Longrightarrow> keeps g (mod_p f)"
  by (simp add: keeps_def)

lemma keeps_fresh: "keeps shared_part m \<Longrightarrow> triple (fresh D) m (\<lambda>_. fresh D) (fresh D)"
  using keeps_triple [of shared_part m "\<lambda>(ds, st, ss, rg). ds = D \<and> st = INACTIVE \<and> ss = [] \<and> \<not> rg"]
  by (simp add: fresh_def [abs_def])

lemma keeps_placed:
  "keeps (\<lambda>c. (shared_part c, ct_dev (cn_counter c))) m \<Longrightarrow> triple (placed D d) m (\<lambda>_. placed D d) (fresh D)"
  using keeps_triple [of "\<lambda>c. (shared_part c, ct_dev (cn_counter c))" m
      "\<lambda>((ds, st, ss, rg), n). ds = D \<and> st = INACTIVE \<and> ss = [] \<and> \<not> rg \<and> amap_get D n = Some d"]
  by (rule triple_weaken) (simp_all add: placed_def fresh_def)

lemma find_device_placed:
  "triple (fresh D) (find_device n) (\<lambda>_ c. \<exists>d. placed D d c) (fresh D)"
  by (rule tripleI)
    (auto simp: find_device_def bind_p_def fresh_def placed_def split: option.splits)

lemma placed_dev: "placed D d c \<Longrightarrow> conn_dev c = Some d"
  by (simp add: placed_def fresh_def conn_dev_def)

lemma register_self_joined:
  assumes "devs_ok D"
  shows "triple (\<lambda>c. placed D d c \<and> (\<exists>m. lines_of c = set_lines m d)) register_self (\<lambda>_. joined D) (fresh D)"
proof (rule tripleI)
  fix c a c'
  assume c: "placed D d c \<and> (\<exists>m. lines_of c = set_lines m d)" and r: "register_self c = (Ok a, c')"
  have d: "dev_ok d" using c assms by (auto simp: placed_def devs_ok_def)
  have rng: "\<forall>l \<in> set (lines_of c). 0 \<le> l \<and> l < d_n_lines d" and dl: "distinct (lines_of c)"
    using c set_lines_in_range distinct_set_lines by auto
  have reg: "register_counter (cn_counter c) d = Ok (on_lines (lines_of c) line_enable
      (d\<lparr>d_counter_map := amap_put (ct_id (cn_counter c)) (cn_counter c) (d_counter_map d)\<rparr>))"
    by (rule register_counter_on_lines [OF d dev_ok_has_lines [OF d rng] dl])
  let ?m = "amap_put (ct_id (cn_counter c)) (cn_counter c) (d_counter_map d)"
  have "amap_ok ?m" using d by (simp add: dev_ok_def)
  moreover have "c' = (put_dev (on_lines (lines_of c) line_enable (d\<lparr>d_counter_map := ?m\<rparr>)) c)
      \<lparr>cn_counter := (cn_counter c)\<lparr>ct_registered := True\<rparr>\<rparr>"
    using r c placed_dev [of D d c]
    by (simp add: register_self_def bind_p_def then_p_def on_dev_def reg)
  ultimately show "joined D c'"
    using c rng dl by (auto simp: joined_def placed_def fresh_def put_dev_def)
next
  fix c e c'
  assume "placed D d c \<and> (\<exists>m. lines_of c = set_lines m d)" and "register_self c = (Throw e, c')"
  then show "fresh D c'"
    by (auto simp: register_self_def bind_p_def then_p_def on_dev_def placed_def split: option.splits res.splits prod.splits)
qed

lemma keeps_joined:
  "keeps (\<lambda>c. (cn_server c, cn_counter c)) m \<Longrightarrow> triple (joined D) m (\<lambda>_. joined D) (joined D)"
proof -
  assume k: "keeps (\<lambda>c. (cn_server c, cn_counter c)) m"
  have "joined D c = joined D c'" if "cn_server c = cn_server c'" "cn_counter c = cn_counter c'" for c c' :: conn
    using that by (simp add: joined_def)
  with k show ?thesis
    by (intro tripleI) (metis (no_types, lifting) keeps_def prod.inject snd_conv)+
qed

lemma set_lines_step:
  "triple (placed D d) (read_dev (\<lambda>d. Ok (set_lines m d)))
     (\<lambda>ls c. placed D d c \<and> ls = set_lines m d) (fresh D)"
  by (rule tripleI) (auto simp: read_dev_def placed_dev)

lemma store_lines_step:
  "triple (\<lambda>c. placed D d c \<and> ls = set_lines m d) (upd_ct (\<lambda>ct. ct\<lparr>ct_lines := ls\<rparr>))
     (\<lambda>_ c. placed D d c \<and> (\<exists>m. lines_of c = set_lines m d)) (fresh D)"
  by (rule tripleI) (auto simp: placed_def fresh_def)

lemma triple_exists: "(\<And>x. triple (P x) m Q E) \<Longrightarrow> triple (\<lambda>s. \<exists>x. P x s) m Q E"
  by (rule tripleI) (blast intro: triple_Ok triple_Throw)+

lemma triple_case_prod: "(\<And>a b. triple P (f a b) Q E) \<Longrightarrow> triple P (case_prod f p) Q E"
  by (cases p) simp

text \<open>
  The last part of the constructor: once the device is known, the counter either registers, and
  stays registered even if the reply then fails, or it has not touched the device.
\<close>

lemma create_tail:
  assumes "devs_ok D"
  shows "triple (placed D d) (bind_p (read_dev (set_frequency f)) (\<lambda>interval.
         then_p (upd_ct (\<lambda>ct. ct\<lparr>ct_interval := interval\<rparr>))
         (bind_p (read_dev (\<lambda>d. Ok (set_lines lines_mask d))) (\<lambda>ls.
          then_p (upd_ct (\<lambda>ct. ct\<lparr>ct_lines := ls\<rparr>))
          (then_p register_self
          (then_p (reply SUCCESS)
          (then_p remote_endpoint (ret_p ()))))))))
     (\<lambda>_. joined D) (\<lambda>c. fresh D c \<or> joined D c)"
proof -
  have e: "triple P m Q (fresh D) \<Longrightarrow> triple P m Q (\<lambda>c. fresh D c \<or> joined D c)"
    and e': "triple P m Q (joined D) \<Longrightarrow> triple P m Q (\<lambda>c. fresh D c \<or> joined D c)"
    for P :: "conn \<Rightarrow> bool" and m :: "(conn, 'b) prog" and Q
    by (erule triple_weaken; simp)+
  have k: "triple (placed D d) (read_dev (set_frequency f)) (\<lambda>_. placed D d) (fresh D)"
    "triple (placed D d) (upd_ct (\<lambda>ct. ct\<lparr>ct_interval := i\<rparr>)) (\<lambda>_. placed D d) (fresh D)" for i
    by (rule keeps_placed; intro keeps_intros; simp)+
  have "keeps (\<lambda>c. (cn_server c, cn_counter c)) (then_p (reply SUCCESS) (then_p remote_endpoint (ret_p ())))"
    unfolding reply_def remote_endpoint_def
    by (intro keeps_intros) (auto simp: keeps_def split: option.split)
  then have fin: "triple (joined D) (then_p (reply SUCCESS) (then_p remote_endpoint (ret_p ()))) (\<lambda>_. joined D) (joined D)"
    by (rule keeps_joined)
  have "triple (\<lambda>c. placed D d c \<and> ls = set_lines lines_mask d)
      (then_p (upd_ct (\<lambda>ct. ct\<lparr>ct_lines := ls\<rparr>)) (then_p register_self
        (then_p (reply SUCCESS) (then_p remote_endpoint (ret_p ())))))
      (\<lambda>_. joined D) (\<lambda>c. fresh D c \<or> joined D c)" for ls
    by (rule triple_then [OF e [OF store_lines_step]], rule triple_then [OF e [OF register_self_joined [OF assms]]],
        rule e' [OF fin])
  then show ?thesis
    by (intro triple_bind [OF e [OF k(1)]] triple_then [OF e [OF k(2)]] triple_bind [OF e [OF set_lines_step]])
qed

lemma counter_create_triple:
  assumes "devs_ok D"
  shows "triple (fresh D) counter_create (\<lambda>_. joined D) (\<lambda>c. fresh D c \<or> joined D c)"
proof -
  have f: "keeps shared_part m \<Longrightarrow> triple (fresh D) m (\<lambda>_. fresh D) (\<lambda>c. fresh D c \<or> joined D c)"
    for m :: "(conn, 'b) prog"
    by (rule triple_weaken [OF keeps_fresh [of m D]]) simp_all
  have fd: "triple (fresh D) (find_device n) (\<lambda>_ c. \<exists>d. placed D d c) (\<lambda>c. fresh D c \<or> joined D c)" for n
    by (rule triple_weaken [OF find_device_placed [of D n]]) simp_all
  have ks: "keeps shared_part next_id" "keeps shared_part (on_sock g)"
    "keeps shared_part (upd_ct (\<lambda>ct. ct\<lparr>ct_frequency := v\<rparr>))"
    "keeps shared_part (upd_ct (\<lambda>ct. ct\<lparr>ct_aggregate := a\<rparr>))" for g :: "(sock, 'c) prog" and v a
    unfolding next_id_def by (intro keeps_intros; simp add: Let_def)+
  show ?thesis
    unfolding counter_create_def
    apply (rule triple_then [OF f [OF ks(1)]])
    apply (rule triple_bind [OF f [OF ks(2)]], rule triple_case_prod)
    apply (rule triple_bind [OF f [OF ks(2)]])
    apply (rule triple_then [OF f [OF ks(3)]])
    apply (rule triple_bind [OF f [OF ks(2)]], rule triple_case_prod)
    apply (rule triple_then [OF f [OF ks(4)]])
    apply (rule triple_bind [OF f [OF ks(2)]], rule triple_case_prod)
    apply (rule triple_then [OF fd])
    apply (rule triple_exists)
    apply (rule create_tail [OF assms])
    done
qed

section \<open>A well-formed request\<close>

text \<open>The bytes of a creation request, and the state it leads to.\<close>

definition create_request :: "string \<Rightarrow> int \<Rightarrow> bool \<Rightarrow> string \<Rightarrow> byte list" where
  "create_request n f a msk =
     string_bytes n @ int_bytes f @ int_bytes (if a then 1 else 0) @ string_bytes msk"

definition admitted :: "string \<Rightarrow> int \<Rightarrow> bool \<Rightarrow> string \<Rightarrow> byte list \<Rightarrow> device \<Rightarrow> conn \<Rightarrow> conn" where
  "admitted n f a msk rest d c =
     (let srv = cn_server c; i = i32 (sv_nextid srv + 1); ls = set_lines msk d;
          g = (if f = 0 then d_max_frequency d else f);
          ct = (cn_counter c)\<lparr>ct_id := i, ct_frequency := f, ct_aggregate := a, ct_dev := n,
                 ct_interval := (2 * d_max_frequency d + g) div (2 * g), ct_lines := ls\<rparr>;
          d' = on_lines ls line_enable (d\<lparr>d_counter_map := amap_put i ct (d_counter_map d)\<rparr>)
      in c\<lparr>cn_server := srv\<lparr>sv_nextid := i, sv_devices := amap_put n d' (sv_devices srv)\<rparr>,
           cn_counter := ct\<lparr>ct_registered := True\<rparr>,
           cn_sock := (cn_sock c)\<lparr>s_in := rest, s_out := s_out (cn_sock c) @ int_bytes 0\<rparr>\<rparr>)"

lemma flag_bytes: "int_bytes (if a then 1 else 0) = [if a then 1 else 0, 0, 0, 0]"
proof -
  have "(4::nat) = Suc (Suc (Suc (Suc 0)))" by simp
  then have "le_bytes 4 k = le_bytes (Suc (Suc (Suc (Suc 0)))) k" for k by (simp only:)
  then show ?thesis by (simp add: int_bytes_def)
qed

lemma receive_flag_in:
  "s_in s = int_bytes (if a then 1 else 0) @ rest \<Longrightarrow>
     receive_bool_int s = (Ok (a, [0, 0, 0]), s\<lparr>s_in := rest\<rparr>)"
  unfolding flag_bytes by (simp add: receive_bool_int_def receive_raw_def sock_read_def bind_p_def)

lemma counter_create_admitted:
  assumes req: "s_in (cn_sock c) = create_request n f a msk @ rest" and vs: "valid_string n" "valid_string msk"
    and d: "amap_get (sv_devices (cn_server c)) n = Some d" "dev_ok d" "d_max_frequency d < 4096"
    and f: "0 \<le> f" "f \<le> d_max_frequency d"
    and io: "s_room (cn_sock c) = None" "cn_peer c = Some p"
  shows "counter_create c = (Ok (), admitted n f a msk rest d c)"
proof -
  have fi: "is_i32 f" "i32 f = f" "f mod 4294967296 = f"
    using f d(3) by (simp_all add: is_i32_def i32_id)
  have fr: "set_frequency f d = Ok (let g = (if f = 0 then d_max_frequency d else f)
      in (2 * d_max_frequency d + g) div (2 * g))"
    by (rule set_frequency_ratio) (use d f in \<open>simp_all add: dev_ok_def\<close>)
  have reg: "register_counter ct d = Ok (on_lines (set_lines msk d) line_enable
      (d\<lparr>d_counter_map := amap_put (ct_id ct) ct (d_counter_map d)\<rparr>))" if "ct_lines ct = set_lines msk d" for ct
    using register_counter_on_lines [OF d(2), of ct] that distinct_set_lines [of msk d]
      dev_ok_has_lines [OF d(2), of "set_lines msk d"] set_lines_in_range [of _ msk d] by auto
  let ?s = "cn_sock c"
  have r1: "receive_string [] ?s = (Ok (length n, n), ?s\<lparr>s_in := int_bytes f @ int_bytes (if a then 1 else 0) @ string_bytes msk @ rest\<rparr>)"
    by (rule receive_string_in [OF vs(1)]) (simp add: req create_request_def)
  have r2: "receive_int (?s\<lparr>s_in := int_bytes f @ t\<rparr>) = (Ok f, ?s\<lparr>s_in := t\<rparr>)" for t
    by (subst receive_int_in [OF fi(1)]) simp_all
  have r3: "receive_bool_int (?s\<lparr>s_in := int_bytes (if a then 1 else 0) @ t\<rparr>) = (Ok (a, [0, 0, 0]), ?s\<lparr>s_in := t\<rparr>)" for t
    by (subst receive_flag_in) simp_all
  have r4: "receive_string [] (?s\<lparr>s_in := string_bytes msk @ t\<rparr>) = (Ok (length msk, msk), ?s\<lparr>s_in := t\<rparr>)" for t
    by (subst receive_string_in [OF vs(2)]) simp_all
  show ?thesis
    unfolding counter_create_def
    by (simp add: then_p_def bind_p_def next_id_def on_sock_def r1 r2 r3 r4 find_device_def d(1) read_dev_def
        conn_dev_def fi fr register_self_def on_dev_def reg reply_def io remote_endpoint_def put_dev_def
        admitted_def Let_def del: int_bytes_i32)
qed

section \<open>Operations\<close>

text \<open>
  The sets of a counter: all complete, but for a last one that is open exactly while the counter
  is active; offsets within the buffers.
\<close>

definition open_ok :: "device \<Rightarrow> int list \<Rightarrow> interval_set \<Rightarrow> bool" where
  "open_ok d ls se \<longleftrightarrow> snd se = None \<and>
     (\<forall>l \<in> set ls. 0 \<le> at_set (fst se) l \<and> at_set (fst se) l \<le> int (length (data_of d l)))"

definition wf_sets :: "counter \<Rightarrow> device \<Rightarrow> bool" where
  "wf_sets ct d \<longleftrightarrow> (case ct_status ct of
     INACTIVE \<Rightarrow> \<forall>se \<in> set (ct_sets ct). set_ok d (ct_lines ct) se
   | ACTIVE \<Rightarrow> ct_sets ct \<noteq> [] \<and> (\<forall>se \<in> set (butlast (ct_sets ct)). set_ok d (ct_lines ct) se) \<and>
       open_ok d (ct_lines ct) (last (ct_sets ct)))"

lemma wf_sets_mono:
  assumes "wf_sets ct d" and "\<forall>l \<in> set (ct_lines ct). length (data_of d l) \<le> length (data_of d' l)"
  shows "wf_sets ct d'"
proof -
  have s: "set_ok d (ct_lines ct) se \<Longrightarrow> set_ok d' (ct_lines ct) se" for se
    using assms(2) by (force simp: set_ok_def split: option.splits)
  have o: "open_ok d (ct_lines ct) se \<Longrightarrow> open_ok d' (ct_lines ct) se" for se
    using assms(2) by (force simp: open_ok_def)
  show ?thesis using assms(1) s o by (auto simp: wf_sets_def split: state.splits)
qed

lemma data_of_on_lines:
  "(\<And>w. l_data (f w) = l_data w) \<Longrightarrow> data_of (on_lines ls f d) l = data_of d l"
  by (auto simp: data_of_def split: option.splits)

lemma data_of_counter_map [simp]: "data_of (d\<lparr>d_counter_map := m\<rparr>) l = data_of d l"
  by (simp add: data_of_def)

lemma count_ops_data [simp]:
  "l_data (line_enable w) = l_data w" "l_data (line_activate w) = l_data w"
  "l_data (line_deactivate w) = l_data w"
  by (simp_all add: line_enable_def line_activate_def line_deactivate_def)

lemma at_sizes_of:
  assumes "has_lines ls d" and "l \<in> set ls" and "length (data_of d l) < 2147483648"
  shows "at_set (sizes_of ls d) l = int (length (data_of d l))"
  using assms sizes_of_get [OF assms(1), of l]
  by (auto simp: at_set_def data_of_def has_lines_def line_get_size_def i32_nat_id split: option.splits)

definition same_shared :: "conn \<Rightarrow> conn \<Rightarrow> bool" where
  "same_shared c c' \<longleftrightarrow> cn_server c' = cn_server c \<and> cn_counter c' = cn_counter c"

lemma reply_same: "reply r c = (res, c') \<Longrightarrow> same_shared c c'"
  using reply_frame(1,2) [of r c] by (simp add: same_shared_def)

lemma counter_get_same: "counter_get c = (res, c') \<Longrightarrow> same_shared c c'"
proof -
  assume g: "counter_get c = (res, c')"
  have "keeps (\<lambda>c. (cn_server c, cn_counter c)) counter_get"
    unfolding counter_get_def reply_def by (intro keeps_intros) simp_all
  then have "(cn_server (snd (counter_get c)), cn_counter (snd (counter_get c))) = (cn_server c, cn_counter c)"
    unfolding keeps_def by blast
  with g show ?thesis by (simp add: same_shared_def)
qed

text \<open>Every operation of a session, whatever its outcome, has one of four effects.\<close>

lemma dispatch_effect:
  assumes "conn_ok c d" and "ct_status (cn_counter c) = ACTIVE \<longrightarrow> ct_sets (cn_counter c) \<noteq> []"
    and "dispatch op c = (r, c')"
  shows "same_shared c c' \<or>
    same_shared (c\<lparr>cn_counter := (cn_counter c)\<lparr>ct_running := False\<rparr>\<rparr>) c' \<and> ct_status (cn_counter c) = INACTIVE \<or>
    (\<exists>keep. same_shared (started keep d c) c') \<and> ct_status (cn_counter c) = INACTIVE \<or>
    same_shared (stopped d c) c' \<and> ct_status (cn_counter c) = ACTIVE"
proof (cases "ct_status (cn_counter c)")
  case INACTIVE
  have "counter_finalize c = reply SUCCESS (c\<lparr>cn_counter := (cn_counter c)\<lparr>ct_running := False\<rparr>\<rparr>)"
    using INACTIVE by (simp add: counter_finalize_def bind_p_def then_p_def)
  then show ?thesis
    using assms(3) INACTIVE refused(3) [OF INACTIVE]
      counter_start_inactive [OF assms(1) INACTIVE] counter_restart_inactive [OF assms(1) INACTIVE]
    by (auto simp: dispatch_def dest: reply_same reply_same [OF sym] counter_get_same split: if_splits)
next
  case ACTIVE
  have "ct_sets (cn_counter c) \<noteq> []" using ACTIVE assms(2) by simp
  then show ?thesis
    using assms(3) ACTIVE refused(1,2,4,5) [OF ACTIVE] counter_stop_active [OF assms(1) ACTIVE]
    by (auto simp: dispatch_def dest: reply_same reply_same [OF sym] split: if_splits)
qed

section \<open>Leaving\<close>

lemma counter_dtor_effect:
  assumes "conn_ok c d" and "ct_registered (cn_counter c)"
  shows "counter_dtor c = (Ok (), put_dev d c) \<or>
    counter_dtor c = (Ok (), put_dev ((on_lines (lines_of c) line_release d)
      \<lparr>d_counter_map := amap_del (ct_id (cn_counter c)) (d_counter_map d)\<rparr>) c)"
proof (cases "amap_get (d_counter_map d) (ct_id (cn_counter c))")
  case None
  then show ?thesis
    using assms by (simp add: counter_dtor_def bind_p_def on_dev_def conn_ok_def deregister_counter_def)
next
  case (Some x)
  then show ?thesis
    using assms deregister_counter_on_lines [of d "cn_counter c"]
    by (simp add: counter_dtor_def bind_p_def on_dev_def conn_ok_def)
qed

end
