(* ===== verification/System.thy ===== *)
theory System
  imports Lifecycle
begin

text \<open>
  The running server as a transition system: the configured devices, shared by all threads, and
  the sessions in progress, one per client connection. A step is one action of one thread: a
  client connects and its counter is created, a session handles one request, a session ends (with
  or without its destructor running), or the consumer thread of a device stores one sample.

  The steps interleave freely; each is atomic. The code serialises the reference counts with
  \<open>counter_lock\<close>, and samples are appended by a single thread per device.
\<close>

section \<open>States and steps\<close>

record live =
  lv_sock :: sock
  lv_peer :: "string option"
  lv_counter :: counter

record sys =
  sy_server :: server
  sy_live :: "live list"

definition conn_of :: "server \<Rightarrow> live \<Rightarrow> conn" where
  "conn_of srv v = \<lparr>cn_server = srv, cn_sock = lv_sock v, cn_peer = lv_peer v, cn_counter = lv_counter v\<rparr>"

definition live_of :: "conn \<Rightarrow> live" where
  "live_of c = \<lparr>lv_sock = cn_sock c, lv_peer = cn_peer c, lv_counter = cn_counter c\<rparr>"

text \<open>
  The way out after an exception: the handler reports the error, and only if that works is the
  counter destroyed; an exception out of the handler leaves the constructor.
\<close>

definition give_up :: "conn \<Rightarrow> server" where
  "give_up c = (case reply ERROR c of
     (Ok _, c') \<Rightarrow> cn_server (snd (counter_dtor c'))
   | (_, c') \<Rightarrow> cn_server c')"

datatype event = Created | Rejected | Handled | Left | Sampled string "double list"

inductive sys_step :: "sys \<Rightarrow> event \<Rightarrow> sys \<Rightarrow> bool" where
  create: "counter_create (conn_of srv \<lparr>lv_sock = so, lv_peer = p, lv_counter = counter_init sid\<rparr>) = (Ok (), c) \<Longrightarrow>
     sys_step \<lparr>sy_server = srv, sy_live = vs\<rparr> Created
       \<lparr>sy_server = cn_server c, sy_live = vs @ [live_of c]\<rparr>"
| reject: "counter_create (conn_of srv \<lparr>lv_sock = so, lv_peer = p, lv_counter = counter_init sid\<rparr>) = (Throw e, c) \<Longrightarrow>
     sys_step \<lparr>sy_server = srv, sy_live = vs\<rparr> Rejected \<lparr>sy_server = give_up c, sy_live = vs\<rparr>"
| handle: "ct_running (lv_counter v) \<Longrightarrow> session_step (conn_of srv v) = (Ok (), c) \<Longrightarrow>
     sys_step \<lparr>sy_server = srv, sy_live = ps @ v # qs\<rparr> Handled
       \<lparr>sy_server = cn_server c, sy_live = ps @ live_of c # qs\<rparr>"
| fail: "ct_running (lv_counter v) \<Longrightarrow> session_step (conn_of srv v) = (Throw e, c) \<Longrightarrow>
     sys_step \<lparr>sy_server = srv, sy_live = ps @ v # qs\<rparr> Left \<lparr>sy_server = give_up c, sy_live = ps @ qs\<rparr>"
| finish: "\<not> ct_running (lv_counter v) \<Longrightarrow> counter_dtor (conn_of srv v) = (r, c) \<Longrightarrow>
     sys_step \<lparr>sy_server = srv, sy_live = ps @ v # qs\<rparr> Left \<lparr>sy_server = cn_server c, sy_live = ps @ qs\<rparr>"
| sample: "amap_get (sv_devices srv) n = Some d \<Longrightarrow> int (length x) = d_n_lines d \<Longrightarrow>
     push_back_data x d = Ok d' \<Longrightarrow>
     sys_step \<lparr>sy_server = srv, sy_live = vs\<rparr> (Sampled n x)
       \<lparr>sy_server = srv\<lparr>sv_devices := amap_put n d' (sv_devices srv)\<rparr>, sy_live = vs\<rparr>"

text \<open>
  The counts and sizes of the code are 32-bit: what follows is about runs that stay below them
  (two thousand million open counters or samples per line).
\<close>

definition below_limits :: "(string, device) amap \<Rightarrow> bool" where
  "below_limits D \<longleftrightarrow> (\<forall>n d l w. amap_get D n = Some d \<longrightarrow> amap_get (d_lines d) l = Some w \<longrightarrow>
     l_enabled w < 2147483647 \<and> l_active w < 2147483647 \<and> length (l_data w) < 2147483648)"

inductive reaches :: "sys \<Rightarrow> sys \<Rightarrow> bool" where
  start: "reaches s s"
| step: "reaches s s1 \<Longrightarrow> below_limits (sv_devices (sy_server s1)) \<Longrightarrow> sys_step s1 ev s2 \<Longrightarrow> reaches s s2"

section \<open>The invariant\<close>

definition holds :: "string \<Rightarrow> int \<Rightarrow> counter \<Rightarrow> bool" where
  "holds n l ct \<longleftrightarrow> ct_dev ct = n \<and> l \<in> set (ct_lines ct)"

definition measures :: "string \<Rightarrow> int \<Rightarrow> counter \<Rightarrow> bool" where
  "measures n l ct \<longleftrightarrow> holds n l ct \<and> ct_status ct = ACTIVE"

abbreviation tally :: "('a \<Rightarrow> bool) \<Rightarrow> 'a list \<Rightarrow> int" where
  "tally p xs \<equiv> int (length (filter p xs))"

text \<open>Every line is enabled and active at least as often as there are sessions that rely on it.\<close>

definition counts_ok :: "(string, device) amap \<Rightarrow> counter list \<Rightarrow> bool" where
  "counts_ok D cts \<longleftrightarrow> (\<forall>n d l w. amap_get D n = Some d \<longrightarrow> amap_get (d_lines d) l = Some w \<longrightarrow>
     tally (holds n l) cts \<le> l_enabled w \<and> tally (measures n l) cts \<le> l_active w \<and>
     l_enabled w < 2147483648)"

definition session_ok :: "(string, device) amap \<Rightarrow> counter \<Rightarrow> bool" where
  "session_ok D ct \<longleftrightarrow> ct_registered ct \<and> distinct (ct_lines ct) \<and>
     (\<exists>d. amap_get D (ct_dev ct) = Some d \<and> has_lines (ct_lines ct) d \<and> wf_sets ct d)"

definition sys_inv :: "(string, device) amap \<Rightarrow> counter list \<Rightarrow> bool" where
  "sys_inv D cts \<longleftrightarrow> devs_ok D \<and> counts_ok D cts \<and> (\<forall>ct \<in> set cts. session_ok D ct)"

abbreviation inv :: "sys \<Rightarrow> bool" where
  "inv s \<equiv> sys_inv (sv_devices (sy_server s)) (map lv_counter (sy_live s))"

text \<open>Replacing one device.\<close>

lemma sys_inv_put:
  assumes D: "sys_inv D cts" "amap_get D n = Some d"
    and d': "dev_ok d'" "map fst (d_lines d') = map fst (d_lines d)"
    and counts: "\<And>l w'. amap_get (d_lines d') l = Some w' \<Longrightarrow>
      tally (holds n l) cts' \<le> l_enabled w' \<and> tally (measures n l) cts' \<le> l_active w' \<and>
      l_enabled w' < 2147483648"
    and others: "\<And>n' l. n' \<noteq> n \<Longrightarrow>
      tally (holds n' l) cts' \<le> tally (holds n' l) cts \<and> tally (measures n' l) cts' \<le> tally (measures n' l) cts"
    and sess: "\<And>ct. ct \<in> set cts' \<Longrightarrow> ct \<notin> set cts \<Longrightarrow> session_ok (amap_put n d' D) ct"
    and data: "\<And>ct l. ct \<in> set cts' \<Longrightarrow> ct \<in> set cts \<Longrightarrow> holds n l ct \<Longrightarrow>
      length (data_of d l) \<le> length (data_of d' l)"
  shows "sys_inv (amap_put n d' D) cts'"
proof -
  have "devs_ok (amap_put n d' D)"
    using D(1) d'(1) by (auto simp: sys_inv_def devs_ok_def)
  moreover have "counts_ok (amap_put n d' D) cts'"
    unfolding counts_ok_def
  proof (intro allI impI)
    fix n' e l w
    assume a: "amap_get (amap_put n d' D) n' = Some e" "amap_get (d_lines e) l = Some w"
    show "tally (holds n' l) cts' \<le> l_enabled w \<and> tally (measures n' l) cts' \<le> l_active w \<and>
        l_enabled w < 2147483648"
    proof (cases "n' = n")
      case True
      then show ?thesis using a counts by simp
    next
      case False
      then have "tally (holds n' l) cts \<le> l_enabled w \<and> tally (measures n' l) cts \<le> l_active w \<and>
          l_enabled w < 2147483648"
        using a D(1) by (simp add: sys_inv_def counts_ok_def)
      with others [OF False, of l] show ?thesis by linarith
    qed
  qed
  moreover have "session_ok (amap_put n d' D) ct" if ct: "ct \<in> set cts'" for ct
  proof (cases "ct \<in> set cts")
    case True
    have ok: "session_ok D ct" using True D(1) by (simp add: sys_inv_def)
    show ?thesis
    proof (cases "ct_dev ct = n")
      case dev: True
      have "wf_sets ct d" "has_lines (ct_lines ct) d" using ok D(2) dev by (auto simp: session_ok_def)
      moreover have "\<forall>l \<in> set (ct_lines ct). length (data_of d l) \<le> length (data_of d' l)"
        using data [OF ct True] dev by (simp add: holds_def)
      ultimately have "wf_sets ct d'" "has_lines (ct_lines ct) d'"
        using d'(2) by (auto intro: wf_sets_mono simp: has_lines_def amap_get_None_iff simp del: not_None_eq)
      with ok dev show ?thesis by (auto simp: session_ok_def)
    next
      case False
      with ok show ?thesis by (auto simp: session_ok_def)
    qed
  qed (use ct sess in blast)
  ultimately show ?thesis by (simp add: sys_inv_def)
qed

section \<open>Every step keeps the invariant\<close>

lemma tally_insert: "tally p (ps @ x # qs) = tally p (ps @ qs) + (if p x then 1 else 0)"
  by simp

lemma tally_pos: "x \<in> set xs \<Longrightarrow> p x \<Longrightarrow> 1 \<le> tally p xs"
  using length_pos_if_in_set [of x "filter p xs"] by (simp add: Suc_le_eq)

lemma sys_inv_drop:
  assumes "sys_inv D (ps @ ct # qs)"
  shows "sys_inv D (ps @ qs)"
proof -
  have "tally p (ps @ qs) \<le> tally p (ps @ ct # qs)" for p by simp
  then have "counts_ok D (ps @ qs)"
    using assms unfolding sys_inv_def counts_ok_def by (meson order_trans)
  with assms show ?thesis by (simp add: sys_inv_def)
qed

lemma sys_inv_counts:
  "sys_inv D cts \<Longrightarrow> amap_get D n = Some d \<Longrightarrow> amap_get (d_lines d) l = Some w \<Longrightarrow>
     tally (holds n l) cts \<le> l_enabled w \<and> tally (measures n l) cts \<le> l_active w \<and> l_enabled w < 2147483648"
  by (auto simp: sys_inv_def counts_ok_def)

lemma below_limits_line:
  "below_limits D \<Longrightarrow> amap_get D n = Some d \<Longrightarrow> amap_get (d_lines d) l = Some w \<Longrightarrow>
     l_enabled w < 2147483647 \<and> l_active w < 2147483647 \<and> length (l_data w) < 2147483648"
  by (auto simp: below_limits_def)

lemma count_ops_frame [simp]:
  "l_active (line_enable w) = l_active w" "l_enabled (line_activate w) = l_enabled w"
  "l_enabled (line_deactivate w) = l_enabled w" "l_active (line_release w) = l_active w"
  by (simp_all add: line_enable_def line_activate_def line_deactivate_def line_release_def
      line_disable_def line_clear_data_def Let_def)

lemma on_lines_SomeE:
  assumes "amap_get (d_lines (on_lines ls f d)) l = Some w'"
  obtains w where "amap_get (d_lines d) l = Some w" and "w' = (if l \<in> set ls then f w else w)"
  using assms by auto

lemma sys_inv_join:
  assumes "sys_inv D cts" and "joined D c" and "below_limits D"
  shows "sys_inv (sv_devices (cn_server c)) (cts @ [cn_counter c])"
proof -
  let ?ct = "cn_counter c" and ?n = "ct_dev (cn_counter c)"
  obtain d m where d: "amap_get D ?n = Some d" "amap_ok m"
      "sv_devices (cn_server c) = amap_put ?n (on_lines (lines_of c) line_enable (d\<lparr>d_counter_map := m\<rparr>)) D"
      "ct_status ?ct = INACTIVE" "ct_sets ?ct = []" "ct_registered ?ct" "distinct (lines_of c)"
      "\<forall>l \<in> set (lines_of c). 0 \<le> l \<and> l < d_n_lines d"
    using assms(2) unfolding joined_def by blast
  let ?d' = "on_lines (lines_of c) line_enable (d\<lparr>d_counter_map := m\<rparr>)"
  have dok: "dev_ok d" using assms(1) d(1) by (auto simp: sys_inv_def devs_ok_def)
  have hl: "has_lines (lines_of c) d" by (rule dev_ok_has_lines [OF dok d(8)])
  have "sys_inv (amap_put ?n ?d' D) (cts @ [?ct])"
  proof (rule sys_inv_put [OF assms(1) d(1)])
    show "dev_ok ?d'" using dok d(2) by (simp add: dev_ok_counter_map)
    show "map fst (d_lines ?d') = map fst (d_lines d)" by simp
    fix l w'
    assume "amap_get (d_lines ?d') l = Some w'"
    then obtain w where w: "amap_get (d_lines d) l = Some w" "w' = (if l \<in> set (lines_of c) then line_enable w else w)"
      by (rule on_lines_SomeE) simp
    note cw = sys_inv_counts [OF assms(1) d(1) w(1)] below_limits_line [OF assms(3) d(1) w(1)]
    show "tally (holds ?n l) (cts @ [?ct]) \<le> l_enabled w' \<and> tally (measures ?n l) (cts @ [?ct]) \<le> l_active w' \<and>
        l_enabled w' < 2147483648"
      using cw enabled_ref.count_take [of w] d(4) by (auto simp: w(2) holds_def measures_def)
  next
    show "session_ok (amap_put ?n ?d' D) ct" if "ct \<in> set (cts @ [?ct])" "ct \<notin> set cts" for ct
      using that d hl by (auto simp: session_ok_def wf_sets_def)
  qed (use d(4) in \<open>simp_all add: holds_def measures_def data_of_on_lines\<close>)
  then show ?thesis by (simp add: d(3))
qed

text \<open>Letting go: nobody else's samples are cleared.\<close>

lemma release_keeps_data:
  assumes "2 \<le> l_enabled w" and "l_enabled w < 2147483648"
  shows "l_data (line_release w) = l_data w"
  using assms enabled_ref.count_drop [of w]
  by (simp add: line_release_def line_is_enabled_def line_disable_def Let_def i32_id is_i32_def)

lemma release_enabled:
  "0 \<le> l_enabled w \<Longrightarrow> l_enabled w < 2147483648 \<Longrightarrow> l_enabled (line_release w) = max 0 (l_enabled w - 1)"
  using enabled_ref.count_drop [of w] by (simp add: line_release_def line_clear_data_def Let_def)

lemma sys_inv_release:
  assumes I: "sys_inv D (ps @ ct # qs)" and n: "n = ct_dev ct" "amap_get D n = Some d"
  shows "sys_inv (amap_put n ((on_lines (ct_lines ct) line_release d)\<lparr>d_counter_map := amap_del i (d_counter_map d)\<rparr>) D)
    (ps @ qs)"
proof (rule sys_inv_put [OF I n(2)])
  let ?d' = "(on_lines (ct_lines ct) line_release d)\<lparr>d_counter_map := amap_del i (d_counter_map d)\<rparr>"
  have dok: "dev_ok d" using I n(2) by (auto simp: sys_inv_def devs_ok_def)
  show "dev_ok ?d'" using dok by (intro dev_ok_counter_map) (simp_all add: dev_ok_def)
  show "map fst (d_lines ?d') = map fst (d_lines d)" by simp
  show "tally (holds n l) (ps @ qs) \<le> l_enabled w' \<and> tally (measures n l) (ps @ qs) \<le> l_active w' \<and>
      l_enabled w' < 2147483648"
    if w': "amap_get (d_lines ?d') l = Some w'" for l w'
  proof -
    obtain w where w: "amap_get (d_lines d) l = Some w" "w' = (if l \<in> set (ct_lines ct) then line_release w else w)"
      using w' by auto
    have "0 \<le> tally (holds n l) (ps @ qs)" by simp
    then show ?thesis
      using sys_inv_counts [OF I n(2) w(1)] release_enabled [of w]
      unfolding tally_insert by (auto simp: w(2) n(1) holds_def measures_def split: if_splits)
  qed
  show "length (data_of d l) \<le> length (data_of ?d' l)"
    if c: "c \<in> set (ps @ qs)" "holds n l c" for c l
  proof (cases "amap_get (d_lines d) l")
    case (Some w)
    have "1 \<le> tally (holds n l) (ps @ qs)" using tally_pos [of c "ps @ qs" "holds n l"] c by simp
    then have "l \<in> set (ct_lines ct) \<Longrightarrow> 2 \<le> l_enabled w"
      using sys_inv_counts [OF I n(2) Some] unfolding tally_insert by (simp add: holds_def n(1))
    then have "l \<in> set (ct_lines ct) \<Longrightarrow> l_data (line_release w) = l_data w"
      using sys_inv_counts [OF I n(2) Some] by (intro release_keeps_data) simp_all
    then show ?thesis using Some by (simp add: data_of_def)
  qed (simp add: data_of_def)
qed auto

lemma sys_inv_session:
  assumes "sys_inv (sv_devices srv) (ps @ ct # qs)" and "cn_server c = srv" and "cn_counter c = ct"
  obtains d where "conn_ok c d" and "wf_sets ct d" and "amap_get (sv_devices srv) (ct_dev ct) = Some d"
    and "ct_registered ct"
  using assms by (auto simp: sys_inv_def session_ok_def conn_ok_def conn_dev_def devs_ok_def)

lemma set_ok_same: "(\<And>l. data_of d' l = data_of d l) \<Longrightarrow> set_ok d' ls se = set_ok d ls se"
  by (simp add: set_ok_def split: option.split)

text \<open>A well-formed counter after its lines were started or stopped.\<close>

lemma wf_sets_started:
  assumes ok: "conn_ok c d" and wf: "wf_sets (cn_counter c) d" and st: "ct_status (cn_counter c) = INACTIVE"
    and len: "\<forall>l \<in> set (lines_of c). length (data_of d l) < 2147483648"
  shows "wf_sets (cn_counter (started keep d c)) (on_lines (lines_of c) line_activate d)"
proof -
  let ?d' = "on_lines (lines_of c) line_activate d"
  have hl: "has_lines (lines_of c) ?d'" using ok by (simp add: conn_ok_def)
  have dd: "data_of ?d' l = data_of d l" for l by (rule data_of_on_lines) simp
  have old: "\<forall>se \<in> set (ct_sets (cn_counter c)). set_ok ?d' (lines_of c) se"
    using wf st by (simp add: wf_sets_def set_ok_same [OF dd])
  have "open_ok ?d' (lines_of c) (sizes_of (lines_of c) ?d', None)"
    using at_sizes_of [OF hl] len by (simp add: open_ok_def dd)
  with old show ?thesis by (simp add: started_def Let_def wf_sets_def)
qed

lemma wf_sets_stopped:
  assumes ok: "conn_ok c d" and wf: "wf_sets (cn_counter c) d" and st: "ct_status (cn_counter c) = ACTIVE"
    and len: "\<forall>l \<in> set (lines_of c). length (data_of d l) < 2147483648"
  shows "wf_sets (cn_counter (stopped d c)) (on_lines (lines_of c) line_deactivate d)"
proof -
  let ?d' = "on_lines (lines_of c) line_deactivate d" and ?ss = "ct_sets (cn_counter c)"
  have hl: "has_lines (lines_of c) ?d'" using ok by (simp add: conn_ok_def)
  have dd: "data_of ?d' l = data_of d l" for l by (rule data_of_on_lines) simp
  have old: "\<forall>se \<in> set (butlast ?ss). set_ok ?d' (lines_of c) se" and op: "open_ok ?d' (lines_of c) (last ?ss)"
    using wf st by (simp_all add: wf_sets_def set_ok_same [OF dd] open_ok_def dd)
  have "set_ok ?d' (lines_of c) (fst (last ?ss), Some (sizes_of (lines_of c) ?d'))"
    using at_sizes_of [OF hl] len op by (simp add: set_ok_def open_ok_def dd)
  with old show ?thesis by (simp add: stopped_def Let_def wf_sets_def)
qed

lemma limits_data:
  assumes "below_limits D" and "amap_get D n = Some d"
  shows "length (data_of d l) < 2147483648"
  using below_limits_line [OF assms, of l] by (simp add: data_of_def split: option.split)

lemma sys_inv_recount:
  assumes I: "sys_inv D (ps @ ct # qs)" and n: "n = ct_dev ct" "amap_get D n = Some d"
    and ct': "ct_dev ct' = n" "ct_lines ct' = ct_lines ct" "ct_registered ct'"
    and wf: "wf_sets ct' (on_lines (ct_lines ct) f d)"
    and f: "\<And>w. l_data (f w) = l_data w" "\<And>w. l_enabled (f w) = l_enabled w"
    and act: "\<And>l w. l \<in> set (ct_lines ct) \<Longrightarrow> amap_get (d_lines d) l = Some w \<Longrightarrow>
      tally (measures n l) (ps @ qs) + (if ct_status ct' = ACTIVE then 1 else 0) \<le> l_active (f w)"
  shows "sys_inv (amap_put n (on_lines (ct_lines ct) f d) D) (ps @ ct' # qs)"
proof (rule sys_inv_put [OF I n(2)])
  let ?d' = "on_lines (ct_lines ct) f d"
  have dok: "dev_ok d" and ses: "session_ok D ct" using I n(2) by (auto simp: sys_inv_def devs_ok_def)
  show "dev_ok ?d'" using dok by simp
  show "map fst (d_lines ?d') = map fst (d_lines d)" by simp
  show "tally (holds n l) (ps @ ct' # qs) \<le> l_enabled w' \<and> tally (measures n l) (ps @ ct' # qs) \<le> l_active w' \<and>
      l_enabled w' < 2147483648"
    if w': "amap_get (d_lines ?d') l = Some w'" for l w'
  proof -
    obtain w where w: "amap_get (d_lines d) l = Some w" "w' = (if l \<in> set (ct_lines ct) then f w else w)"
      using w' by (rule on_lines_SomeE)
    have "tally (holds n l) (ps @ ct' # qs) = tally (holds n l) (ps @ ct # qs)"
      using ct' n(1) by (simp add: holds_def)
    then show ?thesis
      using sys_inv_counts [OF I n(2) w(1)] act [of l w] w ct' n(1)
      unfolding tally_insert by (auto simp: holds_def measures_def f split: if_splits)
  qed
  show "tally (holds n' l) (ps @ ct' # qs) \<le> tally (holds n' l) (ps @ ct # qs) \<and>
      tally (measures n' l) (ps @ ct' # qs) \<le> tally (measures n' l) (ps @ ct # qs)" if "n' \<noteq> n" for n' l
    using that ct' by (simp add: holds_def measures_def)
  show "session_ok (amap_put n ?d' D) c" if "c \<in> set (ps @ ct' # qs)" "c \<notin> set (ps @ ct # qs)" for c
    using that ct' wf ses n by (auto simp: session_ok_def)
  show "length (data_of d l) \<le> length (data_of ?d' l)" for l by (simp add: data_of_on_lines f(1))
qed

lemma sys_inv_started:
  assumes I: "sys_inv (sv_devices (cn_server c)) (ps @ cn_counter c # qs)" and ok: "conn_ok c d"
    and st: "ct_status (cn_counter c) = INACTIVE" and lim: "below_limits (sv_devices (cn_server c))"
  shows "sys_inv (sv_devices (cn_server (started keep d c))) (ps @ cn_counter (started keep d c) # qs)"
proof -
  let ?ct = "cn_counter c" and ?D = "sv_devices (cn_server c)"
  have d: "amap_get ?D (ct_dev ?ct) = Some d" using ok by (simp add: conn_ok_def conn_dev_def)
  have wf: "wf_sets ?ct d" "ct_registered ?ct" using I d by (auto simp: sys_inv_def session_ok_def)
  have "sys_inv (amap_put (ct_dev ?ct) (on_lines (lines_of c) line_activate d) ?D)
      (ps @ cn_counter (started keep d c) # qs)"
  proof (rule sys_inv_recount [OF I refl d])
    show "wf_sets (cn_counter (started keep d c)) (on_lines (lines_of c) line_activate d)"
      using wf_sets_started [OF ok wf(1) st] limits_data [OF lim d] by simp
    fix l w assume w: "amap_get (d_lines d) l = Some w"
    have "0 \<le> tally (measures (ct_dev ?ct) l) (ps @ qs)" by simp
    then show "tally (measures (ct_dev ?ct) l) (ps @ qs) +
        (if ct_status (cn_counter (started keep d c)) = ACTIVE then 1 else 0) \<le> l_active (line_activate w)"
      using sys_inv_counts [OF I d w] below_limits_line [OF lim d w] st active_ref.count_take [of w]
      unfolding tally_insert by (simp add: measures_def split: if_splits)
  qed (simp_all add: started_def Let_def wf)
  then show ?thesis by (simp add: started_def Let_def put_dev_def)
qed

lemma sys_inv_stopped:
  assumes I: "sys_inv (sv_devices (cn_server c)) (ps @ cn_counter c # qs)" and ok: "conn_ok c d"
    and st: "ct_status (cn_counter c) = ACTIVE" and lim: "below_limits (sv_devices (cn_server c))"
  shows "sys_inv (sv_devices (cn_server (stopped d c))) (ps @ cn_counter (stopped d c) # qs)"
proof -
  let ?ct = "cn_counter c" and ?D = "sv_devices (cn_server c)"
  have d: "amap_get ?D (ct_dev ?ct) = Some d" using ok by (simp add: conn_ok_def conn_dev_def)
  have wf: "wf_sets ?ct d" "ct_registered ?ct" using I d by (auto simp: sys_inv_def session_ok_def)
  have "sys_inv (amap_put (ct_dev ?ct) (on_lines (lines_of c) line_deactivate d) ?D)
      (ps @ cn_counter (stopped d c) # qs)"
  proof (rule sys_inv_recount [OF I refl d])
    show "wf_sets (cn_counter (stopped d c)) (on_lines (lines_of c) line_deactivate d)"
      using wf_sets_stopped [OF ok wf(1) st] limits_data [OF lim d] by simp
    fix l w assume l: "l \<in> set (lines_of c)" and w: "amap_get (d_lines d) l = Some w"
    have "0 \<le> tally (measures (ct_dev ?ct) l) (ps @ qs)" by simp
    then show "tally (measures (ct_dev ?ct) l) (ps @ qs) +
        (if ct_status (cn_counter (stopped d c)) = ACTIVE then 1 else 0) \<le> l_active (line_deactivate w)"
      using sys_inv_counts [OF I d w] below_limits_line [OF lim d w] st l active_ref.count_drop [of w]
      unfolding tally_insert by (simp add: measures_def holds_def stopped_def Let_def)
  qed (simp_all add: stopped_def Let_def wf)
  then show ?thesis by (simp add: stopped_def Let_def put_dev_def)
qed

lemma session_step_dispatch:
  assumes "session_step c = (r, c')"
  obtains "same_shared c c'" | op c1 where "same_shared c c1" and "dispatch op c1 = (r, c')"
proof -
  obtain q c1 where q: "on_sock receive_int c = (q, c1)" by (cases "on_sock receive_int c")
  then have s: "same_shared c c1" by (auto simp: on_sock_def same_shared_def split: prod.splits)
  show thesis using assms q s that by (cases q) (auto simp: session_step_def bind_p_def)
qed

lemma running_irrelevant [simp]:
  "holds n l (ct\<lparr>ct_running := b\<rparr>) = holds n l ct" "measures n l (ct\<lparr>ct_running := b\<rparr>) = measures n l ct"
  "session_ok D (ct\<lparr>ct_running := b\<rparr>) = session_ok D ct"
  by (simp_all add: holds_def measures_def session_ok_def wf_sets_def split: state.split)

lemma tally_running [simp]:
  "tally (holds n l) (ps @ ct\<lparr>ct_running := b\<rparr> # qs) = tally (holds n l) (ps @ ct # qs)"
  "tally (measures n l) (ps @ ct\<lparr>ct_running := b\<rparr> # qs) = tally (measures n l) (ps @ ct # qs)"
  by simp_all

lemma sys_inv_running: "sys_inv D (ps @ ct\<lparr>ct_running := b\<rparr> # qs) = sys_inv D (ps @ ct # qs)"
  unfolding sys_inv_def counts_ok_def tally_running by simp

lemma sys_inv_session_step:
  assumes I: "sys_inv (sv_devices (cn_server c)) (ps @ cn_counter c # qs)"
    and lim: "below_limits (sv_devices (cn_server c))" and step: "session_step c = (r, c')"
  shows "sys_inv (sv_devices (cn_server c')) (ps @ cn_counter c' # qs)"
proof (rule session_step_dispatch [OF step])
  show ?thesis if "same_shared c c'" using that I by (simp add: same_shared_def)
  show ?thesis if c1: "same_shared c c1" "dispatch op c1 = (r, c')" for op c1
  proof -
    have I1: "sys_inv (sv_devices (cn_server c1)) (ps @ cn_counter c1 # qs)"
      and lim1: "below_limits (sv_devices (cn_server c1))" using c1(1) I lim by (simp_all add: same_shared_def)
    obtain d where d: "conn_ok c1 d" "wf_sets (cn_counter c1) d"
        "amap_get (sv_devices (cn_server c1)) (ct_dev (cn_counter c1)) = Some d" "ct_registered (cn_counter c1)"
      using I1 refl refl by (rule sys_inv_session)
    have ne: "ct_status (cn_counter c1) = ACTIVE \<longrightarrow> ct_sets (cn_counter c1) \<noteq> []"
      using d(2) by (auto simp: wf_sets_def)
    have fin: "sys_inv (sv_devices (cn_server c1)) (ps @ (cn_counter c1)\<lparr>ct_running := False\<rparr> # qs)"
      using I1 by (simp only: sys_inv_running)
    from dispatch_effect [OF d(1) ne c1(2)] show ?thesis
      using I1 fin sys_inv_started [OF I1 d(1) _ lim1] sys_inv_stopped [OF I1 d(1) _ lim1]
      by (auto simp: same_shared_def)
  qed
qed

text \<open>The destructor, and giving up on a session after an exception.\<close>

lemma sys_inv_dtor:
  assumes I: "sys_inv (sv_devices (cn_server c)) (ps @ cn_counter c # qs)"
  shows "sys_inv (sv_devices (cn_server (snd (counter_dtor c)))) (ps @ qs)"
proof -
  obtain d where d: "conn_ok c d" "wf_sets (cn_counter c) d"
      "amap_get (sv_devices (cn_server c)) (ct_dev (cn_counter c)) = Some d" "ct_registered (cn_counter c)"
    using I refl refl by (rule sys_inv_session)
  have same: "amap_get (sv_devices (cn_server (put_dev d c))) n = amap_get (sv_devices (cn_server c)) n" for n
    using d(3) by (simp add: put_dev_def)
  have "sys_inv (sv_devices (cn_server (put_dev d c))) (ps @ qs)"
    using sys_inv_drop [OF I] by (simp add: sys_inv_def devs_ok_def counts_ok_def session_ok_def same)
  moreover note sys_inv_release [OF I refl d(3)]
  ultimately show ?thesis using counter_dtor_effect [OF d(1,4)] by (auto simp: put_dev_def)
qed

lemma sys_inv_give_up:
  assumes "sys_inv (sv_devices (cn_server c)) (ps @ cn_counter c # qs)"
  shows "sys_inv (sv_devices (give_up c)) (ps @ qs)"
proof -
  obtain r c' where r: "reply ERROR c = (r, c')" by (cases "reply ERROR c")
  have "same_shared c c'" by (rule reply_same [OF r])
  then have "sys_inv (sv_devices (cn_server (snd (counter_dtor c')))) (ps @ qs)"
      "sys_inv (sv_devices (cn_server c')) (ps @ qs)"
    using assms sys_inv_dtor [of c'] sys_inv_drop by (auto simp: same_shared_def)
  then show ?thesis by (cases r) (simp_all add: give_up_def r)
qed

lemma sys_inv_sample:
  assumes I: "sys_inv D cts" and d: "amap_get D n = Some d" and x: "int (length x) = d_n_lines d"
  shows "push_back_data x d = Ok (sampled x d)" and "sys_inv (amap_put n (sampled x d) D) cts"
proof -
  have dok: "dev_ok d" using I d by (auto simp: sys_inv_def devs_ok_def)
  show "push_back_data x d = Ok (sampled x d)" by (rule push_back_data_sampled [OF dok x])
  have cnt: "l_enabled (line_push_back_data v w) = l_enabled w" "l_active (line_push_back_data v w) = l_active w" for v w
    by (simp_all add: line_push_back_data_def)
  show "sys_inv (amap_put n (sampled x d) D) cts"
  proof (rule sys_inv_put [OF I d])
    show "tally (holds n l) cts \<le> l_enabled w' \<and> tally (measures n l) cts \<le> l_active w' \<and>
        l_enabled w' < 2147483648"
      if "amap_get (d_lines (sampled x d)) l = Some w'" for l w'
      using that sys_inv_counts [OF I d, of l] by (auto simp: sampled_get cnt)
    show "length (data_of d l) \<le> length (data_of (sampled x d) l)" for l
      by (auto simp: data_of_def sampled_get line_push_back_data_def split: option.split)
  qed (use dok in simp_all)
qed

lemma sys_inv_create:
  assumes I: "sys_inv (sv_devices srv) cts"
    and c: "counter_create (conn_of srv v) = (r, c)" "lv_counter v = counter_init sid"
  shows "r = Ok u \<Longrightarrow> joined (sv_devices srv) c"
    and "r = Throw e \<Longrightarrow> fresh (sv_devices srv) c \<or> joined (sv_devices srv) c"
proof -
  have f: "fresh (sv_devices srv) (conn_of srv v)"
    by (simp add: fresh_def conn_of_def c(2) counter_init_def)
  have t: "triple (fresh (sv_devices srv)) counter_create (\<lambda>_. joined (sv_devices srv))
      (\<lambda>c. fresh (sv_devices srv) c \<or> joined (sv_devices srv) c)"
    by (rule counter_create_triple) (use I in \<open>simp add: sys_inv_def\<close>)
  show "r = Ok u \<Longrightarrow> joined (sv_devices srv) c"
    using triple_Ok [OF t f, of u c] c(1) by simp
  show "r = Throw e \<Longrightarrow> fresh (sv_devices srv) c \<or> joined (sv_devices srv) c"
    using triple_Throw [OF t f, of e c] c(1) by simp
qed

lemma give_up_fresh: "fresh D c \<Longrightarrow> sv_devices (give_up c) = D"
proof -
  assume f: "fresh D c"
  obtain r c' where r: "reply ERROR c = (r, c')" by (cases "reply ERROR c")
  have "same_shared c c'" by (rule reply_same [OF r])
  with f r show ?thesis
    by (cases r) (simp_all add: give_up_def counter_dtor_def bind_p_def same_shared_def fresh_def)
qed

text \<open>The joined counter of a rejected request is gone again, or its references stay behind.\<close>

lemma sys_inv_step:
  assumes "sys_step s ev s'" and "inv s" and "below_limits (sv_devices (sy_server s))"
  shows "inv s'"
  using assms
proof (cases rule: sys_step.cases)
  case (create srv so p sid c vs)
  then have "joined (sv_devices srv) c"
    using assms(2) sys_inv_create(1) [of srv "map lv_counter vs" _ "Ok ()" c sid "()"] by simp
  then show ?thesis
    using create assms(2,3) sys_inv_join [of "sv_devices srv" "map lv_counter vs" c] by (simp add: live_of_def)
next
  case (reject srv so p sid e c vs)
  let ?D = "sv_devices srv" and ?cts = "map lv_counter vs"
  have I: "sys_inv ?D ?cts" and lim: "below_limits ?D" using assms(2,3) reject by simp_all
  have "fresh ?D c \<or> joined ?D c"
    using sys_inv_create(2) [OF I reject(4)] by simp
  then have "sys_inv (sv_devices (give_up c)) ?cts"
  proof
    assume "joined ?D c"
    then have "sys_inv (sv_devices (cn_server c)) (?cts @ [cn_counter c])" by (rule sys_inv_join [OF I _ lim])
    then show ?thesis using sys_inv_give_up [of c ?cts "[]"] by simp
  qed (use I in \<open>simp add: give_up_fresh\<close>)
  then show ?thesis using reject(3) by simp
next
  case (handle v srv c ps qs)
  then show ?thesis
    using assms(2,3) sys_inv_session_step [of "conn_of srv v" "map lv_counter ps" "map lv_counter qs" "Ok ()" c]
    by (simp add: conn_of_def live_of_def)
next
  case (fail v srv e c ps qs)
  have "sys_inv (sv_devices (cn_server c)) (map lv_counter ps @ cn_counter c # map lv_counter qs)"
    using sys_inv_session_step [of "conn_of srv v" _ _ "Throw e" c] assms(2,3) fail by (simp add: conn_of_def)
  then show ?thesis using sys_inv_give_up fail(3) by simp
next
  case (finish v srv r c ps qs)
  then show ?thesis
    using assms(2,3) sys_inv_dtor [of "conn_of srv v" "map lv_counter ps" "map lv_counter qs"]
    by (simp add: conn_of_def)
next
  case (sample srv n d x d' vs)
  then show ?thesis
    using assms(2) sys_inv_sample [of "sv_devices srv" "map lv_counter vs" n d x] by simp
qed

lemma inv_reaches:
  assumes "reaches s s'" and "inv s"
  shows "inv s'"
  using assms by (induction rule: reaches.induct) (auto dest: sys_inv_step)

text \<open>A server before its first client.\<close>

definition idle :: "(string, device) amap \<Rightarrow> bool" where
  "idle D \<longleftrightarrow> devs_ok D \<and> (\<forall>n d l w. amap_get D n = Some d \<longrightarrow> amap_get (d_lines d) l = Some w \<longrightarrow>
     l_enabled w = 0 \<and> l_active w = 0)"

lemma inv_idle: "idle (sv_devices srv) \<Longrightarrow> inv \<lparr>sy_server = srv, sy_live = []\<rparr>"
  by (auto simp: idle_def sys_inv_def counts_ok_def)

end
