(* ===== verification/Measurement.thy ===== *)
theory Measurement
  imports System
begin

text \<open>
  What a client gets out of a run of the server: buffered samples are never lost or changed while
  a session relies on them, and the reply to \<open>get\<close> holds exactly the samples that arrived between
  \<open>start\<close> and \<open>stop\<close>, whatever the other clients did in the meantime.
\<close>

section \<open>Buffers\<close>

definition data_at :: "(string, device) amap \<Rightarrow> string \<Rightarrow> int \<Rightarrow> double list" where
  "data_at D n l = (case amap_get D n of None \<Rightarrow> [] | Some d \<Rightarrow> data_of d l)"

lemma data_at_put:
  "amap_get D n = Some d \<Longrightarrow> (n' = n \<Longrightarrow> data_of d' l = data_of d l) \<Longrightarrow>
     data_at (amap_put n d' D) n' l = data_at D n' l"
  by (simp add: data_at_def)

lemma joined_data: "joined D c \<Longrightarrow> data_at (sv_devices (cn_server c)) n l = data_at D n l"
  unfolding joined_def by (elim exE conjE) (simp add: data_at_put data_of_on_lines)

lemma started_data:
  "conn_ok c d \<Longrightarrow> data_at (sv_devices (cn_server (started keep d c))) n l = data_at (sv_devices (cn_server c)) n l"
  by (simp add: started_def Let_def put_dev_def conn_ok_def conn_dev_def data_at_put data_of_on_lines)

lemma stopped_data:
  "conn_ok c d \<Longrightarrow> data_at (sv_devices (cn_server (stopped d c))) n l = data_at (sv_devices (cn_server c)) n l"
  by (simp add: stopped_def Let_def put_dev_def conn_ok_def conn_dev_def data_at_put data_of_on_lines)

lemma session_step_data:
  assumes I: "sys_inv (sv_devices (cn_server c)) (ps @ cn_counter c # qs)" and step: "session_step c = (r, c')"
  shows "data_at (sv_devices (cn_server c')) n l = data_at (sv_devices (cn_server c)) n l"
proof (rule session_step_dispatch [OF step])
  show ?thesis if "same_shared c c'" using that by (simp add: same_shared_def)
  show ?thesis if c1: "same_shared c c1" "dispatch op c1 = (r, c')" for op c1
  proof -
    have I1: "sys_inv (sv_devices (cn_server c1)) (ps @ cn_counter c1 # qs)"
      using c1(1) I by (simp add: same_shared_def)
    obtain d where d: "conn_ok c1 d" "wf_sets (cn_counter c1) d" using I1 refl refl by (rule sys_inv_session)
    have ne: "ct_status (cn_counter c1) = ACTIVE \<longrightarrow> ct_sets (cn_counter c1) \<noteq> []"
      using d(2) by (auto simp: wf_sets_def)
    from dispatch_effect [OF d(1) ne c1(2)] show ?thesis
      using c1(1) started_data [OF d(1)] stopped_data [OF d(1)] by (auto simp: same_shared_def)
  qed
qed

lemma dtor_data:
  assumes I: "sys_inv (sv_devices (cn_server c)) (ps @ cn_counter c # qs)"
    and h: "ct \<in> set (ps @ qs)" "holds n l ct"
  shows "data_at (sv_devices (cn_server (snd (counter_dtor c)))) n l = data_at (sv_devices (cn_server c)) n l"
proof -
  let ?D = "sv_devices (cn_server c)"
  obtain d where d: "conn_ok c d" "wf_sets (cn_counter c) d" "amap_get ?D (ct_dev (cn_counter c)) = Some d"
      "ct_registered (cn_counter c)"
    using I refl refl by (rule sys_inv_session)
  have rel: "data_of (on_lines (lines_of c) line_release d) l = data_of d l" if n: "n = ct_dev (cn_counter c)"
  proof (cases "amap_get (d_lines d) l")
    case (Some w)
    have "1 \<le> tally (holds n l) (ps @ qs)" using tally_pos [of ct "ps @ qs" "holds n l"] h by simp
    then have "l_data (line_release w) = l_data w" if "l \<in> set (lines_of c)"
      using sys_inv_counts [OF I d(3) Some] that n unfolding tally_insert
      by (intro release_keeps_data) (simp_all add: holds_def)
    then show ?thesis using Some by (simp add: data_of_def)
  qed (simp add: data_of_def)
  from counter_dtor_effect [OF d(1,4)] show ?thesis
    using d(3) rel by (auto simp: put_dev_def data_at_put)
qed

lemma give_up_data:
  assumes I: "sys_inv (sv_devices (cn_server c)) (ps @ cn_counter c # qs)"
    and h: "ct \<in> set (ps @ qs)" "holds n l ct"
  shows "data_at (sv_devices (give_up c)) n l = data_at (sv_devices (cn_server c)) n l"
proof -
  obtain r c' where r: "reply ERROR c = (r, c')" by (cases "reply ERROR c")
  have s: "same_shared c c'" by (rule reply_same [OF r])
  have "data_at (sv_devices (cn_server (snd (counter_dtor c')))) n l = data_at (sv_devices (cn_server c')) n l"
    by (rule dtor_data [OF _ h]) (use I s in \<open>simp add: same_shared_def\<close>)
  with s r show ?thesis by (cases r) (simp_all add: give_up_def same_shared_def)
qed

section \<open>One step\<close>

text \<open>The samples an event delivers to a device.\<close>

fun samples_of :: "string \<Rightarrow> event \<Rightarrow> double list list" where
  "samples_of n (Sampled n' x) = (if n' = n then [x] else [])"
| "samples_of n _ = []"

lemma reject_data:
  assumes I: "sys_inv (sv_devices srv) cts" and lim: "below_limits (sv_devices srv)"
    and c: "counter_create (conn_of srv v) = (Throw e, c)" "lv_counter v = counter_init sid"
    and h: "ct \<in> set cts" "holds n l ct"
  shows "data_at (sv_devices (give_up c)) n l = data_at (sv_devices srv) n l"
proof -
  have "fresh (sv_devices srv) c \<or> joined (sv_devices srv) c"
    using sys_inv_create(2) [OF I c] by simp
  then show ?thesis
  proof
    assume j: "joined (sv_devices srv) c"
    have "sys_inv (sv_devices (cn_server c)) (cts @ cn_counter c # [])" by (rule sys_inv_join [OF I j lim])
    from give_up_data [OF this, of ct] show ?thesis using h by (simp add: joined_data [OF j])
  qed (simp add: give_up_fresh)
qed

lemma step_data:
  assumes "sys_step s ev s'" and "inv s" and "below_limits (sv_devices (sy_server s))"
    and v: "v \<in> set (sy_live s)" "v \<in> set (sy_live s')" "l \<in> set (ct_lines (lv_counter v))"
    and act: "ct_status (lv_counter v) = ACTIVE \<or> (\<forall>n x. ev \<noteq> Sampled n x)"
  defines "n \<equiv> ct_dev (lv_counter v)"
  shows "data_at (sv_devices (sy_server s')) n l =
    data_at (sv_devices (sy_server s)) n l @ map (\<lambda>x. x ! nat l) (samples_of n ev)"
  using assms(1)
proof (cases rule: sys_step.cases)
  case (create srv so p sid c vs)
  then have "joined (sv_devices srv) c"
    using assms(2) sys_inv_create(1) [of srv "map lv_counter vs" _ "Ok ()" c sid "()"] by simp
  then show ?thesis using create by (simp add: joined_data)
next
  case (reject srv so p sid e c vs)
  then show ?thesis
    using reject_data [of srv "map lv_counter vs" _ e c sid "lv_counter v" n l] assms(2,3) v
    by (simp add: holds_def n_def)
next
  case (handle u srv c ps qs)
  then show ?thesis
    using assms(2) session_step_data [of "conn_of srv u" "map lv_counter ps" "map lv_counter qs" "Ok ()" c]
    by (simp add: conn_of_def)
next
  case (fail u srv e c ps qs)
  let ?ps = "map lv_counter ps" and ?qs = "map lv_counter qs"
  have I: "sys_inv (sv_devices (cn_server (conn_of srv u))) (?ps @ cn_counter (conn_of srv u) # ?qs)"
    and lim: "below_limits (sv_devices (cn_server (conn_of srv u)))"
    using assms(2,3) fail by (simp_all add: conn_of_def)
  have h: "lv_counter v \<in> set (?ps @ ?qs)" "holds n l (lv_counter v)"
    using v fail by (auto simp: holds_def n_def)
  show ?thesis
    using give_up_data [OF sys_inv_session_step [OF I lim fail(5)] h] session_step_data [OF I fail(5)] fail(1-3)
    by (simp add: conn_of_def)
next
  case (finish u srv r c ps qs)
  have "lv_counter v \<in> set (map lv_counter ps @ map lv_counter qs)" "holds n l (lv_counter v)"
    using v finish by (auto simp: holds_def n_def)
  from dtor_data [OF _ this, of "conn_of srv u"] show ?thesis
    using assms(2) finish by (simp add: conn_of_def)
next
  case (sample srv n' d x d' vs)
  let ?D = "sv_devices srv"
  have I: "sys_inv ?D (map lv_counter vs)" using assms(2) sample by simp
  have d': "d' = sampled x d" using sys_inv_sample(1) [OF I sample(4,5)] sample(6) by simp
  have active: "ct_status (lv_counter v) = ACTIVE" using act sample(2) by simp
  show ?thesis
  proof (cases "n' = n")
    case True
    have ses: "session_ok ?D (lv_counter v)" using I v(1) sample by (auto simp: sys_inv_def)
    then obtain w where w: "amap_get (d_lines d) l = Some w"
      using sample(4) v(3) True by (auto simp: session_ok_def n_def has_lines_def)
    have "measures n l (lv_counter v)" using active v(3) by (simp add: measures_def holds_def n_def)
    then have "1 \<le> tally (measures n l) (map lv_counter vs)"
      using v(1) sample tally_pos [of "lv_counter v" "map lv_counter vs"] by simp
    then have "line_is_active w"
      using sys_inv_counts [OF I sample(4) w] True by (simp add: line_is_active_def)
    then have "data_of (sampled x d) l = data_of d l @ [x ! nat l]"
      by (simp add: data_of_def sampled_get w line_push_back_data_def)
    then show ?thesis using sample True by (simp add: data_at_def d')
  next
    case False
    then show ?thesis using sample by (simp add: data_at_def)
  qed
qed

lemma step_prefix:
  assumes "sys_step s ev s'" and "inv s" and "below_limits (sv_devices (sy_server s))"
    and v: "v \<in> set (sy_live s)" "v \<in> set (sy_live s')" "l \<in> set (ct_lines (lv_counter v))"
  defines "n \<equiv> ct_dev (lv_counter v)"
  shows "\<exists>ys. data_at (sv_devices (sy_server s')) n l = data_at (sv_devices (sy_server s)) n l @ ys"
proof (cases "\<exists>m x. ev = Sampled m x")
  case False
  then show ?thesis using step_data [OF assms(1-6)] by (auto simp: n_def)
next
  case True
  then obtain m x srv d d' vs where sample: "s = \<lparr>sy_server = srv, sy_live = vs\<rparr>"
      "s' = \<lparr>sy_server = srv\<lparr>sv_devices := amap_put m d' (sv_devices srv)\<rparr>, sy_live = vs\<rparr>"
      "amap_get (sv_devices srv) m = Some d" "int (length x) = d_n_lines d" "push_back_data x d = Ok d'"
    using assms(1) by (auto elim: sys_step.cases)
  have I: "sys_inv (sv_devices srv) (map lv_counter vs)" using assms(2) sample by simp
  have "d' = sampled x d" using sys_inv_sample(1) [OF I sample(3,4)] sample(5) by simp
  moreover have "\<exists>ys. data_of (sampled x d) l = data_of d l @ ys"
    by (auto simp: data_of_def sampled_get line_push_back_data_def split: option.split)
  ultimately show ?thesis using sample by (auto simp: data_at_def)
qed

section \<open>Runs around one session\<close>

text \<open>
  \<open>run_with v s xs s'\<close>: a run from \<open>s\<close> to \<open>s'\<close>, within the limits, in which session \<open>v\<close> stays as it
  is (its client is silent) and its device delivers the samples \<open>xs\<close>; all other threads are free.
\<close>

inductive run_with :: "live \<Rightarrow> sys \<Rightarrow> double list list \<Rightarrow> sys \<Rightarrow> bool" for v where
  stay: "v \<in> set (sy_live s) \<Longrightarrow> run_with v s [] s"
| go: "run_with v s xs s1 \<Longrightarrow> below_limits (sv_devices (sy_server s1)) \<Longrightarrow> sys_step s1 ev s2 \<Longrightarrow>
     v \<in> set (sy_live s2) \<Longrightarrow> run_with v s (xs @ samples_of (ct_dev (lv_counter v)) ev) s2"

lemma run_with_inv:
  assumes "run_with v s xs s'" and "inv s"
  shows "inv s' \<and> v \<in> set (sy_live s) \<and> v \<in> set (sy_live s')"
  using assms by (induction rule: run_with.induct) (auto dest: sys_inv_step)

lemma run_with_data:
  assumes "run_with v s xs s'" and "inv s" and "ct_status (lv_counter v) = ACTIVE"
    and "l \<in> set (ct_lines (lv_counter v))"
  shows "data_at (sv_devices (sy_server s')) (ct_dev (lv_counter v)) l =
    data_at (sv_devices (sy_server s)) (ct_dev (lv_counter v)) l @ map (\<lambda>x. x ! nat l) xs"
  using assms
proof (induction rule: run_with.induct)
  case (go s xs s1 ev s2)
  then show ?case
    using step_data [of s1 ev s2 v l] run_with_inv [OF go.hyps(1)] by simp
qed simp

lemma run_with_prefix:
  assumes "run_with v s xs s'" and "inv s" and "l \<in> set (ct_lines (lv_counter v))"
  shows "\<exists>ys. data_at (sv_devices (sy_server s')) (ct_dev (lv_counter v)) l =
    data_at (sv_devices (sy_server s)) (ct_dev (lv_counter v)) l @ ys"
  using assms
proof (induction rule: run_with.induct)
  case (go s xs s1 ev s2)
  then show ?case
    using step_prefix [of s1 ev s2 v l] run_with_inv [OF go.hyps(1)] by fastforce
qed simp

section \<open>Replies outlive what others do\<close>

lemma fold_r_mono:
  assumes "fold_r f xs a = Ok b" and "\<And>x a b. x \<in> set xs \<Longrightarrow> f x a = Ok b \<Longrightarrow> g x a = Ok b"
  shows "fold_r g xs a = Ok b"
  using assms
proof (induction xs arbitrary: a)
  case (Cons x xs)
  from Cons.prems(1) obtain c where c: "f x a = Ok c" "fold_r f xs c = Ok b"
    by (auto simp: bind_r_Ok_iff)
  have "g x a = Ok c" using Cons.prems(2) [of x] c(1) by simp
  moreover have "fold_r g xs c = Ok b" by (rule Cons.IH [OF c(2)]) (use Cons.prems(2) in simp)
  ultimately show ?case by simp
qed simp

lemma map_r_mono:
  "map_r f xs = Ok ys \<Longrightarrow> (\<And>x y. x \<in> set xs \<Longrightarrow> f x = Ok y \<Longrightarrow> g x = Ok y) \<Longrightarrow> map_r g xs = Ok ys"
  by (induction xs arbitrary: ys) (auto simp: bind_r_Ok_iff)

lemma agg_line_extend:
  "agg_line line k fin idx xs = Ok ys \<Longrightarrow> agg_line (line @ zs) k fin idx xs = Ok ys"
  by (induction line k fin idx xs arbitrary: ys rule: agg_line.induct)
    (auto simp: bind_r_Ok_iff nth_append split: if_splits)

lemma copy_line_extend:
  "copy_line line k i fin = Ok ys \<Longrightarrow> copy_line (line @ zs) k i fin = Ok ys"
  by (auto simp: copy_line_def split: if_splits)

text \<open>\<open>d'\<close> extends the buffers of \<open>d\<close> on the given lines.\<close>

definition extends :: "int list \<Rightarrow> device \<Rightarrow> device \<Rightarrow> bool" where
  "extends ls d d' \<longleftrightarrow> (\<forall>l \<in> set ls. \<exists>ys. data_of d' l = data_of d l @ ys)"

lemma range_end_extend:
  "set_ok d ls se \<Longrightarrow> l \<in> set ls \<Longrightarrow> range_end se l m (data_of d l @ ys) = range_end se l m (data_of d l)"
  by (auto simp: range_end_def set_ok_def split: option.splits)

lemma set_reply_extend:
  assumes ok: "set_ok d ls se" and hl: "has_lines ls d" "has_lines ls d'" and ext: "extends ls d d'"
  shows "lines_set d ls k se m = Ok ys \<Longrightarrow> lines_set d' ls k se m = Ok ys"
    and "agg_set d ls k se m = Ok ys \<Longrightarrow> agg_set d' ls k se m = Ok ys"
proof -
  have line: "\<exists>ys. get_line_data l d = Ok (data_of d l) \<and> get_line_data l d' = Ok (data_of d l @ ys)"
    if "l \<in> set ls" for l
    using that ext get_line_data_of [OF hl(1) that] get_line_data_of [OF hl(2) that] by (force simp: extends_def)
  show "lines_set d ls k se m = Ok ys \<Longrightarrow> lines_set d' ls k se m = Ok ys"
    unfolding lines_set_def
    by (erule fold_r_mono) (use line range_end_extend [OF ok] copy_line_extend in \<open>fastforce simp: bind_r_Ok_iff\<close>)
  show "agg_set d ls k se m = Ok ys \<Longrightarrow> agg_set d' ls k se m = Ok ys"
    unfolding agg_set_def
    by (cases "m < 0", simp, simp, erule fold_r_mono)
      (use line range_end_extend [OF ok] agg_line_extend in \<open>fastforce simp: bind_r_Ok_iff\<close>)
qed

lemma get_reply_extend:
  assumes rec: "recorded ct d" and hl: "has_lines (ct_lines ct) d'" and ext: "extends (ct_lines ct) d d'"
  shows "get_reply ct d' = get_reply ct d"
proof -
  obtain r where r: "get_reply ct d = Ok r" using get_reply_defined [OF rec] by blast
  then obtain ms ws where ms: "map_r (set_min_len (ct_lines ct) (ct_interval ct)) (ct_sets ct) = Ok ms"
      "collect_watts ct d ms = Ok ws" "r = (watts_sets_of ms, ws)"
    by (auto simp: get_reply_def bind_r_Ok_iff)
  have hd: "has_lines (ct_lines ct) d" using rec by (simp add: recorded_def)
  have "collect_watts ct d' ms = Ok ws"
  proof -
    have ok: "set_ok d (ct_lines ct) se" if "(se, m) \<in> set (zip (ct_sets ct) ms)" for se m
      using that rec by (auto simp: recorded_def dest: set_zip_leftD)
    obtain wss where w: "map_r (\<lambda>(se, m). if ct_aggregate ct then agg_set d (ct_lines ct) (ct_interval ct) se m
         else lines_set d (ct_lines ct) (ct_interval ct) se m) (zip (ct_sets ct) ms) = Ok wss" "ws = concat wss"
      using ms(2) by (auto simp: collect_watts_def bind_r_Ok_iff)
    have "map_r (\<lambda>(se, m). if ct_aggregate ct then agg_set d' (ct_lines ct) (ct_interval ct) se m
         else lines_set d' (ct_lines ct) (ct_interval ct) se m) (zip (ct_sets ct) ms) = Ok wss"
      by (rule map_r_mono [OF w(1)])
        (use set_reply_extend [OF ok hd hl ext] in \<open>auto split: if_splits\<close>)
    then show ?thesis by (simp add: collect_watts_def w(2))
  qed
  then show ?thesis by (simp add: r ms(3)) (simp add: get_reply_def ms(1))
qed

lemma inv_recorded:
  assumes "inv s" and "v \<in> set (sy_live s)" and "ct_status (lv_counter v) = INACTIVE"
    and "0 < ct_interval (lv_counter v)"
    and "amap_get (sv_devices (sy_server s)) (ct_dev (lv_counter v)) = Some d"
  shows "recorded (lv_counter v) d"
  using assms by (auto simp: sys_inv_def session_ok_def recorded_def wf_sets_def)

lemma inv_has_lines:
  assumes "inv s" and "v \<in> set (sy_live s)"
    and "amap_get (sv_devices (sy_server s)) (ct_dev (lv_counter v)) = Some d"
  shows "has_lines (ct_lines (lv_counter v)) d"
  using assms by (auto simp: sys_inv_def session_ok_def)

lemma run_with_extends:
  assumes "run_with v s xs s'" and "inv s"
    and "amap_get (sv_devices (sy_server s)) (ct_dev (lv_counter v)) = Some d"
    and "amap_get (sv_devices (sy_server s')) (ct_dev (lv_counter v)) = Some d'"
  shows "extends (ct_lines (lv_counter v)) d d'"
  using run_with_prefix [OF assms(1,2)] assms(3,4) by (simp add: extends_def data_at_def)

lemma reply_stable:
  assumes run: "run_with v s xs s'" and I: "inv s" and v: "ct_status (lv_counter v) = INACTIVE" "0 < ct_interval (lv_counter v)"
    and d: "amap_get (sv_devices (sy_server s)) (ct_dev (lv_counter v)) = Some d"
    and d': "amap_get (sv_devices (sy_server s')) (ct_dev (lv_counter v)) = Some d'"
  shows "get_reply (lv_counter v) d' = get_reply (lv_counter v) d"
proof (rule get_reply_extend)
  note r = run_with_inv [OF run I]
  show "recorded (lv_counter v) d" using I r v d by (intro inv_recorded) auto
  show "has_lines (ct_lines (lv_counter v)) d'" using r d' by (intro inv_has_lines) auto
  show "extends (ct_lines (lv_counter v)) d d'" by (rule run_with_extends [OF run I d d'])
qed

section \<open>From start to stop\<close>

lemma counter_start_result:
  assumes "conn_ok c d" and "ct_status (cn_counter c) = INACTIVE" and "counter_start c = (r, c')"
  shows "same_shared (started False d c) c'"
  using reply_same [of SUCCESS "started False d c" r c'] counter_start_inactive [OF assms(1,2)] assms(3) by simp

lemma counter_stop_result:
  assumes "conn_ok c d" and "ct_status (cn_counter c) = ACTIVE" and "ct_sets (cn_counter c) \<noteq> []"
    and "counter_stop c = (r, c')"
  shows "same_shared (stopped d c) c'"
  using reply_same [of SUCCESS "stopped d c" r c'] counter_stop_active [OF assms(1,2,3)] assms(4) by simp

text \<open>The offsets of the set recorded by a start, samples \<open>xs\<close>, and a stop.\<close>

definition took :: "counter \<Rightarrow> device \<Rightarrow> double list list \<Rightarrow> interval_set \<Rightarrow> bool" where
  "took ct d xs se \<longleftrightarrow> (\<exists>e. snd se = Some e \<and> (\<forall>l \<in> set (ct_lines ct). 0 \<le> at_set (fst se) l \<and>
     at_set e l = at_set (fst se) l + int (length xs) \<and>
     (\<exists>pre post. data_of d l = pre @ map (\<lambda>x. x ! nat l) xs @ post \<and> int (length pre) = at_set (fst se) l)))"

lemma took_set_ok: "took ct d xs se \<Longrightarrow> set_ok d (ct_lines ct) se"
  by (force simp: took_def set_ok_def)

lemma took_slice:
  assumes "took ct d xs se" and "l \<in> set (ct_lines ct)"
  shows "slice d se (int (length xs)) l = map (\<lambda>x. x ! nat l) xs"
proof -
  obtain pre post where "data_of d l = pre @ map (\<lambda>x. x ! nat l) xs @ post" "int (length pre) = at_set (fst se) l"
    using assms by (auto simp: took_def)
  moreover then have "nat (at_set (fst se) l) = length pre" by simp
  ultimately show ?thesis by (simp add: slice_def)
qed

lemma took_usable:
  assumes "took ct d xs se" and "ct_lines ct \<noteq> []"
  shows "usable (ct_lines ct) k se = int (length xs) div k"
proof -
  have "set_span se l = int (length xs)" if "l \<in> set (ct_lines ct)" for l
    using that assms(1) by (auto simp: took_def set_span_def)
  then have "(\<lambda>l. set_span se l div k) ` set (ct_lines ct) = {int (length xs) div k}"
    using assms(2) by (cases "ct_lines ct") auto
  then show ?thesis using assms(2) by (simp add: usable_def)
qed

text \<open>
  \<open>measurement s v xs v' s'\<close>: from state \<open>s\<close>, session \<open>v\<close> handles \<open>start\<close>, its client is silent while its
  device delivers \<open>xs\<close>, it handles \<open>stop\<close> and becomes \<open>v'\<close>, and after some more time the state is \<open>s'\<close>.
  Everybody else does as they please throughout.
\<close>

definition measurement :: "sys \<Rightarrow> live \<Rightarrow> double list list \<Rightarrow> live \<Rightarrow> sys \<Rightarrow> bool" where
  "measurement s v xs v' s' \<longleftrightarrow> (\<exists>ps qs c1 s2 ps2 qs2 c3 ys.
     sy_live s = ps @ v # qs \<and> ct_status (lv_counter v) = INACTIVE \<and> below_limits (sv_devices (sy_server s)) \<and>
     counter_start (conn_of (sy_server s) v) = (Ok (), c1) \<and>
     run_with (live_of c1) \<lparr>sy_server = cn_server c1, sy_live = ps @ live_of c1 # qs\<rparr> xs s2 \<and>
     sy_live s2 = ps2 @ live_of c1 # qs2 \<and> below_limits (sv_devices (sy_server s2)) \<and>
     counter_stop (conn_of (sy_server s2) (live_of c1)) = (Ok (), c3) \<and> v' = live_of c3 \<and>
     run_with v' \<lparr>sy_server = cn_server c3, sy_live = ps2 @ v' # qs2\<rparr> ys s')"

lemma conn_of_frame [simp]:
  "cn_server (conn_of srv v) = srv" "cn_counter (conn_of srv v) = lv_counter v"
  "lv_counter (live_of c) = cn_counter c"
  by (simp_all add: conn_of_def live_of_def)

lemma start_phase:
  assumes I: "inv s" and v: "sy_live s = ps @ v # qs" "ct_status (lv_counter v) = INACTIVE"
    and lim: "below_limits (sv_devices (sy_server s))"
    and c1: "counter_start (conn_of (sy_server s) v) = (Ok (), c1)"
  defines "ct \<equiv> cn_counter c1" and "D \<equiv> sv_devices (cn_server c1)"
  shows "inv \<lparr>sy_server = cn_server c1, sy_live = ps @ live_of c1 # qs\<rparr>"
    and "ct_dev ct = ct_dev (lv_counter v)" "ct_lines ct = ct_lines (lv_counter v)"
      "ct_interval ct = ct_interval (lv_counter v)" "ct_aggregate ct = ct_aggregate (lv_counter v)"
      "ct_status ct = ACTIVE"
    and "\<exists>sz. ct_sets ct = [(sz, None)] \<and>
      (\<forall>l \<in> set (ct_lines ct). at_set sz l = int (length (data_at D (ct_dev ct) l)))"
proof -
  let ?c = "conn_of (sy_server s) v"
  have I': "sys_inv (sv_devices (cn_server ?c)) (map lv_counter ps @ cn_counter ?c # map lv_counter qs)"
    using I v(1) by simp
  obtain d where d: "conn_ok ?c d" "amap_get (sv_devices (cn_server ?c)) (ct_dev (cn_counter ?c)) = Some d"
    using I' refl refl by (rule sys_inv_session)
  have st: "ct_status (cn_counter ?c) = INACTIVE" using v(2) by simp
  have s1: "same_shared (started False d ?c) c1" by (rule counter_start_result [OF d(1) st c1])
  show "inv \<lparr>sy_server = cn_server c1, sy_live = ps @ live_of c1 # qs\<rparr>"
    using sys_inv_started [OF I' d(1) st, of False] lim s1 by (simp add: same_shared_def)
  show "ct_dev ct = ct_dev (lv_counter v)" "ct_lines ct = ct_lines (lv_counter v)"
      "ct_interval ct = ct_interval (lv_counter v)" "ct_aggregate ct = ct_aggregate (lv_counter v)"
      "ct_status ct = ACTIVE"
    using s1 by (simp_all add: ct_def same_shared_def started_def Let_def)
  let ?d = "on_lines (ct_lines (lv_counter v)) line_activate d"
  have "at_set (sizes_of (ct_lines (lv_counter v)) ?d) l = int (length (data_of d l))"
    if "l \<in> set (ct_lines (lv_counter v))" for l
    using at_sizes_of [of "ct_lines (lv_counter v)" ?d l] that d limits_data [OF lim, of "ct_dev (lv_counter v)" d l]
    by (simp add: conn_ok_def data_of_on_lines)
  then show "\<exists>sz. ct_sets ct = [(sz, None)] \<and>
      (\<forall>l \<in> set (ct_lines ct). at_set sz l = int (length (data_at D (ct_dev ct) l)))"
    using s1 started_data [OF d(1), of False] d(2)
    by (simp add: ct_def D_def same_shared_def started_def Let_def data_at_def)
qed

lemma stop_phase:
  assumes I: "inv s" and v: "sy_live s = ps @ v # qs" "ct_status (lv_counter v) = ACTIVE"
      "ct_sets (lv_counter v) = [(sz, None)]"
    and lim: "below_limits (sv_devices (sy_server s))"
    and c1: "counter_stop (conn_of (sy_server s) v) = (Ok (), c1)"
  defines "ct \<equiv> cn_counter c1" and "D \<equiv> sv_devices (cn_server c1)"
  shows "inv \<lparr>sy_server = cn_server c1, sy_live = ps @ live_of c1 # qs\<rparr>"
    and "ct_dev ct = ct_dev (lv_counter v)" "ct_lines ct = ct_lines (lv_counter v)"
      "ct_interval ct = ct_interval (lv_counter v)" "ct_aggregate ct = ct_aggregate (lv_counter v)"
      "ct_status ct = INACTIVE"
    and "\<And>l. data_at D (ct_dev ct) l = data_at (sv_devices (sy_server s)) (ct_dev ct) l"
    and "\<exists>e. ct_sets ct = [(sz, Some e)] \<and>
      (\<forall>l \<in> set (ct_lines ct). at_set e l = int (length (data_at D (ct_dev ct) l)))"
proof -
  let ?c = "conn_of (sy_server s) v"
  have I': "sys_inv (sv_devices (cn_server ?c)) (map lv_counter ps @ cn_counter ?c # map lv_counter qs)"
    using I v(1) by simp
  obtain d where d: "conn_ok ?c d" "amap_get (sv_devices (cn_server ?c)) (ct_dev (cn_counter ?c)) = Some d"
    using I' refl refl by (rule sys_inv_session)
  have st: "ct_status (cn_counter ?c) = ACTIVE" "ct_sets (cn_counter ?c) \<noteq> []" using v(2,3) by simp_all
  have s1: "same_shared (stopped d ?c) c1" by (rule counter_stop_result [OF d(1) st c1])
  show "inv \<lparr>sy_server = cn_server c1, sy_live = ps @ live_of c1 # qs\<rparr>"
    using sys_inv_stopped [OF I' d(1) st(1)] lim s1 by (simp add: same_shared_def)
  show "ct_dev ct = ct_dev (lv_counter v)" "ct_lines ct = ct_lines (lv_counter v)"
      "ct_interval ct = ct_interval (lv_counter v)" "ct_aggregate ct = ct_aggregate (lv_counter v)"
      "ct_status ct = INACTIVE"
    using s1 by (simp_all add: ct_def same_shared_def stopped_def Let_def)
  show data: "data_at D (ct_dev ct) l = data_at (sv_devices (sy_server s)) (ct_dev ct) l" for l
    using s1 stopped_data [OF d(1)] by (simp add: D_def same_shared_def)
  let ?d = "on_lines (ct_lines (lv_counter v)) line_deactivate d"
  have "at_set (sizes_of (ct_lines (lv_counter v)) ?d) l = int (length (data_of d l))"
    if "l \<in> set (ct_lines (lv_counter v))" for l
    using at_sizes_of [of "ct_lines (lv_counter v)" ?d l] that d limits_data [OF lim, of "ct_dev (lv_counter v)" d l]
    by (simp add: conn_ok_def data_of_on_lines)
  then show "\<exists>e. ct_sets ct = [(sz, Some e)] \<and>
      (\<forall>l \<in> set (ct_lines ct). at_set e l = int (length (data_at D (ct_dev ct) l)))"
    unfolding data using s1 d(2) v(3)
    by (simp add: ct_def same_shared_def stopped_def Let_def data_at_def)
qed

lemma measurement_took:
  assumes I: "inv s" and m: "measurement s v xs v' s'"
    and d: "amap_get (sv_devices (sy_server s')) (ct_dev (lv_counter v)) = Some d"
  shows "ct_lines (lv_counter v') = ct_lines (lv_counter v)" "ct_interval (lv_counter v') = ct_interval (lv_counter v)"
      "ct_aggregate (lv_counter v') = ct_aggregate (lv_counter v)"
    and "has_lines (ct_lines (lv_counter v)) d" "distinct (ct_lines (lv_counter v))"
    and "\<exists>se. ct_sets (lv_counter v') = [se] \<and> took (lv_counter v') d xs se"
    and "length (ct_lines (lv_counter v)) > 0 \<Longrightarrow> length xs < 2147483648"
    and "ct_dev (lv_counter v') = ct_dev (lv_counter v)" "ct_status (lv_counter v') = INACTIVE"
proof -
  obtain ps qs c1 s2 ps2 qs2 c3 ys where m:
      "sy_live s = ps @ v # qs" "ct_status (lv_counter v) = INACTIVE" "below_limits (sv_devices (sy_server s))"
      "counter_start (conn_of (sy_server s) v) = (Ok (), c1)"
      "run_with (live_of c1) \<lparr>sy_server = cn_server c1, sy_live = ps @ live_of c1 # qs\<rparr> xs s2"
      "sy_live s2 = ps2 @ live_of c1 # qs2" "below_limits (sv_devices (sy_server s2))"
      "counter_stop (conn_of (sy_server s2) (live_of c1)) = (Ok (), c3)" "v' = live_of c3"
      "run_with v' \<lparr>sy_server = cn_server c3, sy_live = ps2 @ v' # qs2\<rparr> ys s'"
    using m unfolding measurement_def by blast
  let ?D1 = "sv_devices (cn_server c1)" and ?D2 = "sv_devices (sy_server s2)" and ?D3 = "sv_devices (cn_server c3)"
    and ?D4 = "sv_devices (sy_server s')" and ?n = "ct_dev (lv_counter v)" and ?ls = "ct_lines (lv_counter v)"
  note st = start_phase [OF I m(1-4)]
  obtain sz where sz: "ct_sets (cn_counter c1) = [(sz, None)]"
      "\<forall>l \<in> set ?ls. at_set sz l = int (length (data_at ?D1 ?n l))"
    using st(7) unfolding st(2,3) by blast
  have I2: "inv s2" using run_with_inv [OF m(5) st(1)] by blast
  have d2: "data_at ?D2 ?n l = data_at ?D1 ?n l @ map (\<lambda>x. x ! nat l) xs" if "l \<in> set ?ls" for l
    using run_with_data [OF m(5) st(1)] st(2-6) that by simp
  note sp = stop_phase [OF I2 m(6) _ _ m(7,8), of sz, simplified, OF st(6) sz(1)]
  obtain e where e: "ct_sets (cn_counter c3) = [(sz, Some e)]"
      "\<forall>l \<in> set ?ls. at_set e l = int (length (data_at ?D3 ?n l))"
    using sp(8) unfolding sp(2,3) st(2,3) by blast
  show fx: "ct_lines (lv_counter v') = ?ls" "ct_interval (lv_counter v') = ct_interval (lv_counter v)"
      "ct_aggregate (lv_counter v') = ct_aggregate (lv_counter v)"
    using m(9) st sp by simp_all
  show dv: "ct_dev (lv_counter v') = ?n" "ct_status (lv_counter v') = INACTIVE" using m(9) st(2) sp(2,6) by simp_all
  have I3: "inv \<lparr>sy_server = cn_server c3, sy_live = ps2 @ v' # qs2\<rparr>" using sp(1) m(9) by simp
  note r4 = run_with_inv [OF m(10) I3]
  then show "has_lines ?ls d" "distinct ?ls"
    using inv_has_lines [of s' v' d] d dv fx(1) by (auto simp: sys_inv_def session_ok_def)
  have "took (lv_counter v') d xs (sz, Some e)"
    unfolding took_def fx(1)
  proof (intro exI [of _ e] conjI ballI)
    fix l assume l: "l \<in> set ?ls"
    have "data_at ?D3 ?n l = data_at ?D2 ?n l" using sp(7) [of l] st(2) sp(2) by simp
    then have d3: "data_at ?D3 ?n l = data_at ?D1 ?n l @ map (\<lambda>x. x ! nat l) xs" using d2 [OF l] by simp
    show "0 \<le> at_set (fst (sz, Some e)) l" using sz(2) l by simp
    show "at_set e l = at_set (fst (sz, Some e)) l + int (length xs)" using sz(2) e(2) l d3 by simp
    obtain zs where "data_at ?D4 ?n l = data_at ?D3 ?n l @ zs"
      using run_with_prefix [OF m(10) I3, of l] l fx(1) dv by auto
    then have "data_of d l = data_at ?D1 ?n l @ map (\<lambda>x. x ! nat l) xs @ zs" using d d3 by (simp add: data_at_def)
    then show "\<exists>pre post. data_of d l = pre @ map (\<lambda>x. x ! nat l) xs @ post \<and>
        int (length pre) = at_set (fst (sz, Some e)) l"
      using sz(2) l by force
  qed simp
  then show "\<exists>se. ct_sets (lv_counter v') = [se] \<and> took (lv_counter v') d xs se" using e(1) m(9) by simp
  show "length xs < 2147483648" if ne: "length ?ls > 0"
  proof -
    obtain l where l: "l \<in> set ?ls" using ne by fastforce
    have "length (data_at ?D2 ?n l) < 2147483648"
      using limits_data [OF m(7), of ?n] by (simp add: data_at_def split: option.split)
    then show ?thesis using d2 [OF l] by simp
  qed
qed

text \<open>The reply of a completed measurement at the full rate of the device.\<close>

lemma took_reply_lines:
  assumes "took ct d xs se" "ct_sets ct = [se]" and "has_lines (ct_lines ct) d" "distinct (ct_lines ct)"
    and "ct_lines ct \<noteq> []" and "ct_interval ct = 1" and "\<not> ct_aggregate ct" and "length xs < 2147483648"
  shows "get_reply ct d = Ok ([0, int (length xs)], concat (map (\<lambda>l. map (\<lambda>x. x ! nat l) xs) (ct_lines ct)))"
proof -
  have "recorded ct d" using assms took_set_ok [OF assms(1)] by (simp add: recorded_def)
  from get_reply_lines [OF this assms(7)] show ?thesis
    using assms took_usable [OF assms(1,5), of 1] took_slice [OF assms(1)]
    by (simp add: watts_sets_of_def i32_nat_id strided_1 [unfolded One_nat_def] cong: map_cong)
qed

lemma took_reply_sums:
  assumes "took ct d xs se" "ct_sets ct = [se]" and "has_lines (ct_lines ct) d" "distinct (ct_lines ct)"
    and "ct_lines ct \<noteq> []" and "ct_interval ct = 1" and "ct_aggregate ct" and "length xs < 2147483648"
  shows "get_reply ct d = Ok ([0, int (length xs)],
    map (\<lambda>x. fold (\<lambda>l acc. d_add acc (x ! nat l)) (ct_lines ct) d_zero) xs)"
proof -
  have "recorded ct d" using assms took_set_ok [OF assms(1)] by (simp add: recorded_def)
  moreover have "fold (\<lambda>l acc. map2 d_add acc (slice d se (int (length xs)) l)) ls (map g xs) =
      map (\<lambda>x. fold (\<lambda>l acc. d_add acc (x ! nat l)) ls (g x)) xs" if "set ls \<subseteq> set (ct_lines ct)" for ls g
    using that
  proof (induction ls arbitrary: g)
    case (Cons l ls)
    have "map2 d_add (map g xs) (slice d se (int (length xs)) l) = map (\<lambda>x. d_add (g x) (x ! nat l)) xs"
      using took_slice [OF assms(1), of l] Cons.prems by (simp add: map2_map_map)
    with Cons show ?case by simp
  qed simp
  from this [of "ct_lines ct" "\<lambda>_. d_zero"]
  have "fold (\<lambda>l acc. map2 d_add acc (slice d se (int (length xs)) l)) (ct_lines ct) (replicate (length xs) d_zero) =
      map (\<lambda>x. fold (\<lambda>l acc. d_add acc (x ! nat l)) (ct_lines ct) d_zero) xs"
    by (simp add: map_replicate_const)
  ultimately show ?thesis
    using get_reply_sums [of ct d] assms took_usable [OF assms(1,5), of 1]
    by (simp add: watts_sets_of_def i32_nat_id)
qed

text \<open>
  At a reduced rate the announced length and the samples sent do not agree: of the \<open>n div k\<close> samples
  announced for a line, only every \<open>k\<close>-th of the first \<open>n div k\<close> buffered ones is sent.
\<close>

lemma took_reply_strided:
  assumes "took ct d xs se" "ct_sets ct = [se]" and "has_lines (ct_lines ct) d" "distinct (ct_lines ct)"
    and "ct_lines ct \<noteq> []" and "ct_interval ct = int k" "0 < k" and "\<not> ct_aggregate ct" and "length xs < 2147483648"
  shows "get_reply ct d = Ok ([0, int (length xs div k)],
    concat (map (\<lambda>l. strided k (map (\<lambda>x. x ! nat l) (take (length xs div k) xs))) (ct_lines ct)))"
proof -
  have rec: "recorded ct d" using assms took_set_ok [OF assms(1)] by (simp add: recorded_def)
  have le: "length xs div k \<le> length xs" by simp
  have "slice d se (int (length xs div k)) l = map (\<lambda>x. x ! nat l) (take (length xs div k) xs)"
    if "l \<in> set (ct_lines ct)" for l
  proof -
    have "slice d se (int (length xs div k)) l = take (length xs div k) (slice d se (int (length xs)) l)"
      using le by (simp add: slice_def min_absorb1)
    then show ?thesis using took_slice [OF assms(1) that] by (simp add: take_map)
  qed
  then show ?thesis
    using get_reply_lines [OF rec assms(8)] took_usable [OF assms(1,5), of "int k"] assms le
    by (simp add: watts_sets_of_def i32_nat_id zdiv_int [symmetric] cong: map_cong)
qed

section \<open>No request is undefined\<close>

lemma receive_int_not_Undef: "fst (on_sock receive_int c) \<noteq> Undef u"
  by (simp add: on_sock_def receive_int_def receive_raw_def sock_read_def bind_p_def split: prod.split)

lemma on_write_not_Undef: "fst (on_sock (send_int x) c) \<noteq> Undef u" "fst (on_sock (sock_write bs) c) \<noteq> Undef u"
  by (simp_all add: on_sock_def send_int_def send_raw_def sock_write_def split: prod.split option.split)

lemma bind_not_Undef:
  "fst (m s) \<noteq> Undef u \<Longrightarrow> (\<And>a s'. m s = (Ok a, s') \<Longrightarrow> fst (f a s') \<noteq> Undef u) \<Longrightarrow> fst (bind_p m f s) \<noteq> Undef u"
  by (cases "m s") (auto simp: bind_p_def split: res.split)

lemma then_not_Undef:
  "fst (m s) \<noteq> Undef u \<Longrightarrow> (\<And>s'. fst (n s') \<noteq> Undef u) \<Longrightarrow> fst (then_p m n s) \<noteq> Undef u"
  unfolding then_p_def by (rule bind_not_Undef)

lemma counter_get_not_Undef:
  assumes "conn_dev c = Some d" and "ct_status (cn_counter c) = INACTIVE \<longrightarrow> recorded (cn_counter c) d"
  shows "fst (counter_get c) \<noteq> Undef u"
proof (cases "ct_status (cn_counter c)")
  case INACTIVE
  then obtain ns ws where r: "get_reply (cn_counter c) d = Ok (ns, ws)"
    using assms(2) get_reply_defined by (metis surj_pair)
  have "counter_get c = then_p (on_sock (send_int (int (length ws))))
       (then_p (on_sock (send_int (int (length ns))))
       (then_p (on_sock (send_int (int (length (lines_of c)))))
       (then_p (on_sock (sock_write (concat (map int_bytes ns))))
       (then_p (on_sock (sock_write (concat (map double_bytes ws)))) (ret_p ()))))) c"
    using INACTIVE assms(1) r
    by (simp add: counter_get_def bind_p_def [of "gets_p _"] bind_p_def [of "read_dev _"] read_dev_apply)
  then show ?thesis by (simp only:) (intro then_not_Undef on_write_not_Undef; simp)
qed (simp add: refused reply_not_Undef)

lemma dispatch_not_Undef:
  assumes "conn_ok c d" and "wf_sets (cn_counter c) d" and "0 < ct_interval (cn_counter c)"
  shows "fst (dispatch op c) \<noteq> Undef u"
proof -
  have dev: "conn_dev c = Some d" using assms(1) by (simp add: conn_ok_def)
  have "ct_status (cn_counter c) = INACTIVE \<longrightarrow> recorded (cn_counter c) d"
    using assms by (auto simp: recorded_def conn_ok_def wf_sets_def)
  from counter_get_not_Undef [OF dev this] have get: "fst (counter_get c) \<noteq> Undef u" .
  have fin: "fst (counter_finalize c) \<noteq> Undef u"
    by (auto simp: counter_finalize_def bind_p_def then_p_def reply_not_Undef)
  show ?thesis
  proof (cases "ct_status (cn_counter c)")
    case INACTIVE
    then show ?thesis
      using get fin refused(3) [OF INACTIVE] counter_start_inactive [OF assms(1) INACTIVE]
        counter_restart_inactive [OF assms(1) INACTIVE] by (simp add: dispatch_def reply_not_Undef)
  next
    case ACTIVE
    then have "ct_sets (cn_counter c) \<noteq> []" using assms(2) by (simp add: wf_sets_def)
    then show ?thesis
      using get fin refused(1,2) [OF ACTIVE] counter_stop_active [OF assms(1) ACTIVE]
      by (simp add: dispatch_def reply_not_Undef)
  qed
qed

lemma session_step_not_Undef:
  assumes "inv s" and "v \<in> set (sy_live s)" and "0 < ct_interval (lv_counter v)"
  shows "fst (session_step (conn_of (sy_server s) v)) \<noteq> Undef u"
  unfolding session_step_def
proof (rule bind_not_Undef [OF receive_int_not_Undef])
  fix op c1
  assume r: "on_sock receive_int (conn_of (sy_server s) v) = (Ok op, c1)"
  then have c1: "cn_server c1 = sy_server s" "cn_counter c1 = lv_counter v"
    by (auto simp: on_sock_def split: prod.splits)
  obtain d where "conn_ok c1 d" "wf_sets (cn_counter c1) d"
    using assms(1,2) by (auto simp: sys_inv_def session_ok_def conn_ok_def conn_dev_def devs_ok_def c1)
  then show "fst (dispatch op c1) \<noteq> Undef u"
    by (rule dispatch_not_Undef) (simp add: c1 assms(3))
qed

end
