(* ===== verification/Sampling.thy ===== *)
theory Sampling
  imports Measurement
begin

text \<open>
  The two threads of a device (\<open>Device::run\<close> in \<open>server/device.cpp\<close>): the driver pushes samples into
  a bounded lock-free queue (\<open>yield\<close> in \<open>server/device.hpp\<close>), the consumer moves them into the lines.

  The queue is Boost's \<open>spsc_queue\<close> with capacity 10000: a push on a full queue fails, and \<open>yield\<close>
  ignores that, so the sample is lost. A step is one iteration of either loop, or the request to
  stop; the driver checks \<open>is_running\<close> before it reads a sample, so it may still deliver the one it was
  reading when the request came.
\<close>

section \<open>Operations\<close>

definition queue_capacity :: nat where
  "queue_capacity = 10000"

definition yield_sample :: "double list \<Rightarrow> device \<Rightarrow> device" where
  "yield_sample s d = (if length (d_queue d) < queue_capacity then d\<lparr>d_queue := d_queue d @ [s]\<rparr> else d)"

definition device_stop :: "device \<Rightarrow> device" where
  "device_stop d = d\<lparr>d_running := False\<rparr>"

text \<open>\<open>run\<close> refuses to sample a device that lacks lines.\<close>

definition run_refused :: "device \<Rightarrow> bool" where
  "run_refused d \<longleftrightarrow> int (length (d_lines d)) < d_n_lines d"

text \<open>One iteration of the consumer's inner loop.\<close>

definition consume :: "device \<Rightarrow> device res" where
  "consume d = (case d_queue d of
     [] \<Rightarrow> Ok d
   | s # q \<Rightarrow>
       if d_running d
       then bind_r (push_back_data s (d\<lparr>d_queue := q\<rparr>)) (\<lambda>d'.
              Ok (if d_working d' then d' else d'\<lparr>d_working := True\<rparr>))
       else Ok d)"

text \<open>The inner loop on its own.\<close>

fun drain :: "nat \<Rightarrow> device \<Rightarrow> device res" where
  "drain 0 d = Ok d"
| "drain (Suc n) d = (if d_queue d \<noteq> [] \<and> d_running d then bind_r (consume d) (drain n) else Ok d)"

section \<open>Both threads\<close>

datatype phase = Checking | Reading | Finished

record pump =
  pu_device :: device
  pu_phase :: phase
  pu_offered :: "double list list"
  pu_stored :: "double list list"

text \<open>
  \<open>pu_offered\<close> and \<open>pu_stored\<close> are the history: the samples the queue accepted and those the
  consumer moved into the lines.
\<close>

inductive pump_step :: "pump \<Rightarrow> pump \<Rightarrow> bool" where
  check: "pu_phase p = Checking \<Longrightarrow>
     pump_step p (p\<lparr>pu_phase := (if d_running (pu_device p) then Reading else Finished)\<rparr>)"
| yield: "pu_phase p = Reading \<Longrightarrow> d_n_lines (pu_device p) = int (length s) \<Longrightarrow>
     pump_step p (p\<lparr>pu_device := yield_sample s ((pu_device p)\<lparr>d_sample := s\<rparr>),
       pu_phase := Checking,
       pu_offered := (if length (d_queue (pu_device p)) < queue_capacity then pu_offered p @ [s] else pu_offered p)\<rparr>)"
| move: "d_running (pu_device p) \<Longrightarrow> d_queue (pu_device p) = s # q \<Longrightarrow> consume (pu_device p) = Ok d' \<Longrightarrow>
     pump_step p (p\<lparr>pu_device := d', pu_stored := pu_stored p @ [s]\<rparr>)"
| stop: "pump_step p (p\<lparr>pu_device := device_stop (pu_device p)\<rparr>)"

inductive pump_run :: "pump \<Rightarrow> pump \<Rightarrow> bool" for p0 where
  init: "pump_run p0 p0"
| step: "pump_run p0 p \<Longrightarrow> pump_step p p' \<Longrightarrow> pump_run p0 p'"

definition pump_start :: "device \<Rightarrow> pump" where
  "pump_start d = \<lparr>pu_device = d, pu_phase = Checking, pu_offered = [], pu_stored = []\<rparr>"

section \<open>Facts\<close>

lemma dev_ok_fields [simp]:
  "dev_ok (d\<lparr>d_queue := q\<rparr>) = dev_ok d" "dev_ok (d\<lparr>d_running := b\<rparr>) = dev_ok d"
  "dev_ok (d\<lparr>d_working := b\<rparr>) = dev_ok d" "dev_ok (d\<lparr>d_sample := s\<rparr>) = dev_ok d"
  by (simp_all add: dev_ok_def)

lemma data_of_fields [simp]:
  "data_of (d\<lparr>d_queue := q\<rparr>) l = data_of d l" "data_of (d\<lparr>d_running := b\<rparr>) l = data_of d l"
  "data_of (d\<lparr>d_working := b\<rparr>) l = data_of d l" "data_of (d\<lparr>d_sample := s\<rparr>) l = data_of d l"
  by (simp_all add: data_of_def)

lemma consume_Ok:
  assumes "dev_ok d" and "d_queue d = s # q" and "d_running d" and "int (length s) = d_n_lines d"
  shows "consume d = Ok ((sampled s (d\<lparr>d_queue := q\<rparr>))\<lparr>d_working := True\<rparr>)"
proof -
  have "push_back_data s (d\<lparr>d_queue := q\<rparr>) = Ok (sampled s (d\<lparr>d_queue := q\<rparr>))"
    by (rule push_back_data_sampled) (use assms in simp_all)
  then show ?thesis using assms(2,3) by (simp add: consume_def)
qed

lemma sampled_frame2 [simp]:
  "d_queue (sampled s d) = d_queue d" "d_running (sampled s d) = d_running d" "d_working (sampled s d) = d_working d"
  by (simp_all add: sampled_def)

text \<open>Whether a line is active does not change while samples are stored.\<close>

definition active_line :: "device \<Rightarrow> int \<Rightarrow> bool" where
  "active_line d l \<longleftrightarrow> (case amap_get (d_lines d) l of None \<Rightarrow> False | Some w \<Rightarrow> line_is_active w)"

lemma active_line_fields [simp]:
  "active_line (d\<lparr>d_queue := q\<rparr>) l = active_line d l" "active_line (d\<lparr>d_running := b\<rparr>) l = active_line d l"
  "active_line (d\<lparr>d_working := b\<rparr>) l = active_line d l" "active_line (d\<lparr>d_sample := s\<rparr>) l = active_line d l"
  by (simp_all add: active_line_def)

lemma active_line_sampled [simp]: "active_line (sampled s d) l = active_line d l"
  by (auto simp: active_line_def sampled_get line_is_active_def line_push_back_data_def split: option.split)

lemma data_of_sampled: "data_of (sampled s d) l = data_of d l @ (if active_line d l then [s ! nat l] else [])"
  by (auto simp: data_of_def active_line_def sampled_get line_push_back_data_def split: option.split)

lemma yield_frame [simp]:
  "dev_ok (yield_sample s d) = dev_ok d" "data_of (yield_sample s d) l = data_of d l"
  "active_line (yield_sample s d) l = active_line d l" "d_running (yield_sample s d) = d_running d"
  "d_working (yield_sample s d) = d_working d" "d_n_lines (yield_sample s d) = d_n_lines d"
  by (simp_all add: yield_sample_def)

text \<open>The invariant of a run that started with an empty queue.\<close>

definition pump_inv :: "device \<Rightarrow> pump \<Rightarrow> bool" where
  "pump_inv d0 p \<longleftrightarrow> (let d = pu_device p in
     dev_ok d \<and> d_n_lines d = d_n_lines d0 \<and>
     pu_offered p = pu_stored p @ d_queue d \<and> length (d_queue d) \<le> queue_capacity \<and>
     (\<forall>s \<in> set (pu_offered p). int (length s) = d_n_lines d0) \<and>
     (d_working d \<longleftrightarrow> d_working d0 \<or> pu_stored p \<noteq> []) \<and>
     (\<forall>l. active_line d l = active_line d0 l \<and>
        data_of d l = data_of d0 l @ (if active_line d0 l then map (\<lambda>s. s ! nat l) (pu_stored p) else [])))"

lemma pump_step_inv:
  assumes "pump_step p p'" and "pump_inv d0 p"
  shows "pump_inv d0 p'"
  using assms
proof (cases rule: pump_step.cases)
  case (move s q d')
  have inv: "dev_ok (pu_device p)" "d_n_lines (pu_device p) = d_n_lines d0" "int (length s) = d_n_lines d0"
    using assms(2) move(3) by (auto simp: pump_inv_def Let_def)
  then have "d' = (sampled s ((pu_device p)\<lparr>d_queue := q\<rparr>))\<lparr>d_working := True\<rparr>"
    using consume_Ok [OF inv(1) move(3,2)] move(4) by simp
  then show ?thesis using assms(2) move(1,3) by (auto simp: pump_inv_def Let_def data_of_sampled)
qed (auto simp: pump_inv_def Let_def device_stop_def yield_sample_def split: if_splits)

lemma pump_run_inv:
  assumes "pump_run (pump_start d) p" and "dev_ok d" and "d_queue d = []"
  shows "pump_inv d p"
  using assms(1)
proof (induction rule: pump_run.induct)
  case init
  then show ?case using assms(2,3) by (simp add: pump_inv_def pump_start_def Let_def)
qed (rule pump_step_inv)

text \<open>After the request to stop nothing is stored any more.\<close>

lemma pump_step_stopped:
  assumes "pump_step p p'" and "\<not> d_running (pu_device p)"
  shows "\<not> d_running (pu_device p') \<and> pu_stored p' = pu_stored p \<and> d_lines (pu_device p') = d_lines (pu_device p)"
  using assms by (cases rule: pump_step.cases) (auto simp: device_stop_def yield_sample_def)

text \<open>
  Stopping is final: once a device has been asked to stop, no sample reaches its lines any
  more, whatever its two threads still do.
\<close>

lemma pump_run_stopped:
  assumes "pump_run p p'" and "\<not> d_running (pu_device p)"
  shows "\<not> d_running (pu_device p') \<and> pu_stored p' = pu_stored p \<and> d_lines (pu_device p') = d_lines (pu_device p)"
  using assms by (induction rule: pump_run.induct) (auto dest: pump_step_stopped)

text \<open>
  C30: The consumer catches up: while the device runs, emptying its queue takes one iteration per
  queued sample, loses none, and appends them in order to exactly the active lines.
\<close>

theorem drain_all:
  assumes "dev_ok d" and "d_running d" and "\<forall>s \<in> set (d_queue d). int (length s) = d_n_lines d"
    and "length (d_queue d) \<le> n"
  shows "\<exists>d'. drain n d = Ok d' \<and> d_queue d' = [] \<and> (d_queue d \<noteq> [] \<longrightarrow> d_working d') \<and>
    (\<forall>l. data_of d' l = data_of d l @ (if active_line d l then map (\<lambda>s. s ! nat l) (d_queue d) else []))"
  using assms
proof (induction n arbitrary: d)
  case (Suc n)
  show ?case
  proof (cases "d_queue d")
    case (Cons s q)
    let ?d = "(sampled s (d\<lparr>d_queue := q\<rparr>))\<lparr>d_working := True\<rparr>"
    have c: "consume d = Ok ?d" using Suc.prems Cons by (intro consume_Ok) simp_all
    have f: "d_queue ?d = q" "dev_ok ?d" "d_running ?d" "\<forall>s \<in> set q. int (length s) = d_n_lines ?d" "length q \<le> n"
      using Suc.prems Cons by simp_all
    obtain d' where d': "drain n ?d = Ok d'" "d_queue d' = []" "q \<noteq> [] \<longrightarrow> d_working d'"
        "\<forall>l. data_of d' l = data_of ?d l @ (if active_line ?d l then map (\<lambda>s. s ! nat l) q else [])"
      using Suc.IH [of ?d, unfolded f(1), OF f(2-5)] by blast
    have w: "d_working d'"
    proof (cases "q = []")
      case True
      then have "d' = ?d" using d'(1) by (cases n) simp_all
      then show ?thesis by simp
    qed (use d'(3) in simp)
    show ?thesis using Suc.prems(2) Cons c d' w by (auto simp: data_of_sampled)
  qed simp
qed simp

text \<open>An instance.\<close>

theorem drain_all_witness:
  "let d = (Device_new [] [] 1 1 False Dummy)\<lparr>d_lines := [(0, line_activate (Line_new [] [] M_power 0 0 Computer_default 0 0))],
         d_running := True, d_queue := [[5], [6]]\<rparr>
   in \<exists>d'. drain 2 d = Ok d' \<and> data_of d' 0 = [5, 6]"
proof -
  let ?d = "(Device_new [] [] 1 1 False Dummy)\<lparr>d_lines := [(0, line_activate (Line_new [] [] M_power 0 0 Computer_default 0 0))],
         d_running := True, d_queue := [[5], [6]]\<rparr>"
  have "dev_ok ?d" by (simp add: dev_ok_def Device_new_def)
  moreover have "i32 1 = 1" by (simp add: i32_id is_i32_def)
  ultimately show ?thesis
    using drain_all [of ?d 2]
    by (auto simp: Let_def data_of_def active_line_def line_is_active_def line_activate_def Line_new_def Device_new_def)
qed

text \<open>
  C11: From driver to lines samples are first in, first out: whatever the threads of a device that
  starts with an empty queue have done so far, each active line holds what it held, followed by
  its component of every stored sample; the stored samples are a prefix of the ones the queue
  accepted, and the rest is still queued, at most 10000 of them.
\<close>

theorem samples_in_order:
  assumes "pump_run (pump_start d) p" and "dev_ok d" and "d_queue d = []"
  shows "pu_offered p = pu_stored p @ d_queue (pu_device p) \<and> length (d_queue (pu_device p)) \<le> queue_capacity \<and>
    (\<forall>l. data_of (pu_device p) l = data_of d l @
      (if active_line d l then map (\<lambda>s. s ! nat l) (pu_stored p) else []))"
  using pump_run_inv [OF assms] by (simp add: pump_inv_def Let_def)

text \<open>An instance.\<close>

theorem samples_in_order_witness:
  "let d = (Device_new [] [] 1 1 False Dummy)\<lparr>d_lines := [(0, line_activate (Line_new [] [] M_power 0 0 Computer_default 0 0))],
         d_running := True\<rparr>
   in \<exists>p. pump_run (pump_start d) p \<and> pu_stored p = [[5]] \<and> data_of (pu_device p) 0 = [5]"
proof -
  let ?d = "(Device_new [] [] 1 1 False Dummy)\<lparr>d_lines := [(0, line_activate (Line_new [] [] M_power 0 0 Computer_default 0 0))],
         d_running := True\<rparr>"
  let ?p1 = "(pump_start ?d)\<lparr>pu_phase := Reading\<rparr>"
  let ?d2 = "yield_sample [5] (?d\<lparr>d_sample := [5]\<rparr>)"
  let ?p2 = "?p1\<lparr>pu_device := ?d2, pu_phase := Checking, pu_offered := [[5]]\<rparr>"
  have ok: "dev_ok ?d" "d_queue ?d = []" by (simp_all add: dev_ok_def Device_new_def)
  have i: "i32 1 = 1" by (simp add: i32_id is_i32_def)
  have r1: "pump_run (pump_start ?d) ?p1"
    using pump_run.step [OF pump_run.init pump_step.check [of "pump_start ?d"]] by (simp add: pump_start_def)
  have r2: "pump_run (pump_start ?d) ?p2"
    using pump_run.step [OF r1 pump_step.yield [of ?p1 "[5]"]]
    by (simp add: pump_start_def Device_new_def queue_capacity_def)
  obtain d3 where d3: "consume ?d2 = Ok d3"
    using consume_Ok [of ?d2 "[5]" "[]"] by (simp add: yield_sample_def queue_capacity_def dev_ok_def Device_new_def)
  have r3: "pump_run (pump_start ?d) (?p2\<lparr>pu_device := d3, pu_stored := [[5]]\<rparr>)"
    using pump_run.step [OF r2 pump_step.move [of ?p2 "[5]" "[]" d3]] d3
    by (simp add: pump_start_def Device_new_def queue_capacity_def yield_sample_def)
  show ?thesis
    using r3 samples_in_order [OF r3 ok] i
    by (auto simp: Let_def data_of_def active_line_def line_is_active_def line_activate_def Line_new_def Device_new_def)
qed

end
