(* ===== verification/Info.thy ===== *)
theory Info
  imports Lifecycle
begin

text \<open>
  The introspection requests of \<open>server/info.cpp\<close> (listing, describing and dumping devices, and
  streaming live samples) and the per-connection handler of \<open>server/server.cpp\<close> that dispatches the
  first opcode of a connection to them or to a new counter.

  What the code reads from other threads is a parameter: \<open>peers\<close>, the remote address of each
  socket (nothing once it is disconnected), and \<open>live\<close>, the content of a device's \<open>sample\<close> vector at
  the successive reads of a stream.
\<close>

section \<open>Requests\<close>

definition get_device :: "server \<Rightarrow> string \<Rightarrow> device option" where
  "get_device s name = amap_get (sv_devices s) name"

definition send_name :: "string \<Rightarrow> (conn, unit) prog" where
  "send_name str = then_p (on_sock (send_string str)) (ret_p ())"

definition send_num :: "int \<Rightarrow> (conn, unit) prog" where
  "send_num x = then_p (on_sock (send_int x)) (ret_p ())"

definition list_devices :: "(conn, unit) prog" where
  "list_devices = bind_p (gets_p (\<lambda>c. sv_devices (cn_server c))) (\<lambda>m.
     then_p (send_num (int (length m)))
     (for_p m (\<lambda>(_, dev). send_name (d_name dev))))"

definition info_device :: "(conn, unit) prog" where
  "info_device =
     bind_p (on_sock (receive_string [])) (\<lambda>(_, device_name).
     bind_p (gets_p (\<lambda>c. get_device (cn_server c) device_name)) (\<lambda>dev. case dev of
       None \<Rightarrow> reply ERROR
     | Some dev \<Rightarrow>
         then_p (send_num (d_max_frequency dev))
         (then_p (send_num (d_n_lines dev))
         (send_name (d_name dev)))))"

text \<open>\<open>get_client_ip\<close> of a registered counter asks its own socket, which may be gone.\<close>

definition client_ip :: "(nat \<Rightarrow> string option) \<Rightarrow> counter \<Rightarrow> (conn, string) prog" where
  "client_ip peers ct = (case peers (ct_sock ct) of
     None \<Rightarrow> throw_p (Runtime_error ''remote_endpoint'') | Some a \<Rightarrow> ret_p a)"

definition send_line :: "bool \<Rightarrow> line \<Rightarrow> (conn, unit) prog" where
  "send_line pdu lin =
     then_p (send_num (l_id lin))
     (then_p (send_name (l_name lin))
     (then_p (then_p (on_sock (send_float (l_voltage lin))) (ret_p ()))
     (then_p (send_name (l_description lin))
     (if pdu then send_name (comp_name (l_computer lin)) else ret_p ()))))"

definition send_counter :: "(nat \<Rightarrow> string option) \<Rightarrow> counter \<Rightarrow> (conn, unit) prog" where
  "send_counter peers cnt =
     then_p (send_num (ct_id cnt))
     (then_p (bind_p (client_ip peers cnt) send_name)
     (then_p (on_sock (send_vector int_bytes (ct_lines cnt))) (ret_p ())))"

definition send_device :: "(nat \<Rightarrow> string option) \<Rightarrow> device \<Rightarrow> (conn, unit) prog" where
  "send_device peers dev =
     then_p (send_name (d_name dev))
     (then_p (send_num (d_max_frequency dev))
     (then_p (send_num (d_n_lines dev))
     (then_p (if d_pdu dev then send_num (devtype_code MULTIPLE)
              else then_p (send_num (devtype_code SINGLE)) (send_name (comp_name (d_computer dev))))
     (then_p (for_p (d_lines dev) (\<lambda>(_, lin). send_line (d_pdu dev) lin))
     (then_p (send_num (int (length (d_counter_map dev))))
     (for_p (d_counter_map dev) (\<lambda>(_, cnt). send_counter peers cnt)))))))"

definition cmd_status :: "(nat \<Rightarrow> string option) \<Rightarrow> (conn, unit) prog" where
  "cmd_status peers = bind_p (gets_p (\<lambda>c. sv_devices (cn_server c))) (\<lambda>m.
     then_p (send_num (int (length m)))
     (for_p m (\<lambda>(_, dev). send_device peers dev)))"

text \<open>
  \<open>while ( true ) { send(_sock, dev->get_sample()); ... }\<close>: only a failing send ends it. Every round
  takes at least four bytes of what the client still accepts, so a client that accepts \<open>k\<close> bytes
  ends it within \<open>Suc k\<close> rounds (\<open>stream_ends\<close>).
\<close>

fun stream :: "nat \<Rightarrow> (nat \<Rightarrow> double list) \<Rightarrow> nat \<Rightarrow> (conn, unit) prog" where
  "stream 0 live i = undef_p ''fuel''"
| "stream (Suc n) live i =
     then_p (on_sock (send_vector double_bytes (live i))) (stream n live (Suc i))"

definition read_device :: "nat \<Rightarrow> (nat \<Rightarrow> double list) \<Rightarrow> (conn, unit) prog" where
  "read_device fuel live =
     bind_p (on_sock (receive_string [])) (\<lambda>(_, device_name).
     bind_p (on_sock receive_int) (\<lambda>frequency.
     bind_p (gets_p (\<lambda>c. get_device (cn_server c) device_name)) (\<lambda>dev. case dev of
       None \<Rightarrow> reply ERROR
     | Some dev \<Rightarrow>
         if d_max_frequency dev < frequency
         then then_p (reply ERRORF) (send_num (d_max_frequency dev))
         else then_p (reply SUCCESS) (catch_p (stream fuel live 0) (\<lambda>_. ret_p ())))))"

definition info_run ::
  "nat \<Rightarrow> (nat \<Rightarrow> string option) \<Rightarrow> (nat \<Rightarrow> double list) \<Rightarrow> int \<Rightarrow> (conn, unit) prog" where
  "info_run fuel peers live op =
     catch_p
       (if op = op_code LIST_DEVICES then list_devices
        else if op = op_code INFO_DEVICE then info_device
        else if op = op_code CMD_STATUS then cmd_status peers
        else if op = op_code READ_DEVICE then read_device fuel live
        else reply ERROR)
       (\<lambda>_. reply ERROR)"

section \<open>One connection\<close>

definition connection ::
  "nat \<Rightarrow> (nat \<Rightarrow> string option) \<Rightarrow> (nat \<Rightarrow> double list) \<Rightarrow> (conn, unit) prog" where
  "connection fuel peers live =
     catch_p
       (then_p remote_endpoint
       (bind_p (on_sock receive_int) (\<lambda>op.
        if op = op_code CREATE then counter_session
        else if op = op_code INFO_DEVICE \<or> op = op_code LIST_DEVICES \<or>
                op = op_code CMD_STATUS \<or> op = op_code READ_DEVICE
        then info_run fuel peers live op
        else reply ERROR)))
       (\<lambda>_. ret_p ())"

section \<open>Facts\<close>

text \<open>No introspection request changes the server or the counters.\<close>

lemma keeps_for [keeps_intros]: "(\<And>x. keeps g (f x)) \<Longrightarrow> keeps g (for_p xs f)"
  by (induction xs) (simp_all add: keeps_intros)

lemma keeps_catch [keeps_intros]: "keeps g m \<Longrightarrow> (\<And>e. keeps g (h e)) \<Longrightarrow> keeps g (catch_p m h)"
  unfolding keeps_def catch_p_def by (auto split: prod.split res.split) (metis snd_conv)+

lemma keeps_option [keeps_intros]:
  "keeps g m \<Longrightarrow> (\<And>x. keeps g (f x)) \<Longrightarrow> keeps g (case r of None \<Rightarrow> m | Some x \<Rightarrow> f x)"
  by (cases r) simp_all

lemma keeps_stream:
  "(\<And>c s. g (c\<lparr>cn_sock := s\<rparr>) = g c) \<Longrightarrow> keeps g (stream n live i)"
  by (induction n arbitrary: i) (simp_all add: keeps_intros)

lemmas info_defs = list_devices_def info_device_def cmd_status_def read_device_def send_device_def
  send_line_def send_counter_def client_ip_def send_name_def send_num_def reply_def

lemma info_run_keeps: "keeps (\<lambda>c. (cn_server c, cn_counter c)) (info_run fuel peers live op)"
  unfolding info_run_def info_defs
  by (intro keeps_intros keeps_stream) simp_all

text \<open>The bytes of each reply.\<close>

definition sends :: "byte list \<Rightarrow> (conn, unit) prog \<Rightarrow> bool" where
  "sends bs m \<longleftrightarrow> (\<forall>c. s_room (cn_sock c) = None \<longrightarrow>
     m c = (Ok (), c\<lparr>cn_sock := (cn_sock c)\<lparr>s_out := s_out (cn_sock c) @ bs\<rparr>\<rparr>))"

named_theorems sends_intros

lemma sends_basic [sends_intros]:
  "sends (string_bytes str) (send_name str)" "sends (int_bytes x) (send_num x)"
  "sends (int_bytes (retval_code r)) (reply r)" "sends [] (ret_p ())"
  "sends (float_bytes f) (then_p (on_sock (send_float f)) (ret_p ()))"
  "sends (int_bytes (int (length xs)) @ concat (map repr xs)) (then_p (on_sock (send_vector repr xs)) (ret_p ()))"
  by (simp_all add: sends_def send_name_def send_num_def reply_def then_p_def bind_p_def on_sock_def
      send_float_def send_raw_def)

lemma sends_then [sends_intros]:
  assumes "sends as m" and "sends bs n"
  shows "sends (as @ bs) (then_p m n)"
  unfolding sends_def
proof (intro allI impI)
  fix c :: conn
  assume r: "s_room (cn_sock c) = None"
  let ?c = "c\<lparr>cn_sock := (cn_sock c)\<lparr>s_out := s_out (cn_sock c) @ as\<rparr>\<rparr>"
  have "m c = (Ok (), ?c)" using assms(1) r by (simp add: sends_def)
  moreover have "n ?c = (Ok (), ?c\<lparr>cn_sock := (cn_sock ?c)\<lparr>s_out := s_out (cn_sock ?c) @ bs\<rparr>\<rparr>)"
    using assms(2) r unfolding sends_def by (metis (no_types, lifting) conn.select_convs(2) conn.surjective
        conn.update_convs(2) sock.select_convs(3) sock.surjective sock.update_convs(2))
  ultimately show "then_p m n c = (Ok (), c\<lparr>cn_sock := (cn_sock c)\<lparr>s_out := s_out (cn_sock c) @ as @ bs\<rparr>\<rparr>)"
    by (simp add: then_p_def bind_p_def)
qed

lemma sends_for [sends_intros]:
  "(\<And>x. x \<in> set xs \<Longrightarrow> sends (g x) (f x)) \<Longrightarrow> sends (concat (map g xs)) (for_p xs f)"
  by (induction xs) (simp_all add: sends_intros)

text \<open>The layout of a status dump.\<close>

definition line_bytes :: "bool \<Rightarrow> line \<Rightarrow> byte list" where
  "line_bytes pdu w = int_bytes (l_id w) @ string_bytes (l_name w) @ float_bytes (l_voltage w) @
     string_bytes (l_description w) @ (if pdu then string_bytes (comp_name (l_computer w)) else [])"

definition counter_bytes :: "(nat \<Rightarrow> string option) \<Rightarrow> counter \<Rightarrow> byte list" where
  "counter_bytes peers ct = int_bytes (ct_id ct) @ string_bytes (the (peers (ct_sock ct))) @
     int_bytes (int (length (ct_lines ct))) @ concat (map int_bytes (ct_lines ct))"

definition device_bytes :: "(nat \<Rightarrow> string option) \<Rightarrow> device \<Rightarrow> byte list" where
  "device_bytes peers d = string_bytes (d_name d) @ int_bytes (d_max_frequency d) @ int_bytes (d_n_lines d) @
     (if d_pdu d then int_bytes 1 else int_bytes 0 @ string_bytes (comp_name (d_computer d))) @
     concat (map (\<lambda>(_, w). line_bytes (d_pdu d) w) (d_lines d)) @
     int_bytes (int (length (d_counter_map d))) @
     concat (map (\<lambda>(_, ct). counter_bytes peers ct) (d_counter_map d))"

lemma sends_line [sends_intros]: "sends (line_bytes pdu w) (send_line pdu w)"
proof -
  have "sends (if pdu then string_bytes (comp_name (l_computer w)) else [])
      (if pdu then send_name (comp_name (l_computer w)) else ret_p ())"
    by (simp add: sends_basic)
  then show ?thesis unfolding line_bytes_def send_line_def by (intro sends_then sends_basic)
qed

lemma sends_counter [sends_intros]:
  "peers (ct_sock ct) \<noteq> None \<Longrightarrow> sends (counter_bytes peers ct) (send_counter peers ct)"
proof -
  assume "peers (ct_sock ct) \<noteq> None"
  then obtain ip where ip: "peers (ct_sock ct) = Some ip" by auto
  have "bind_p (client_ip peers ct) send_name = send_name ip"
    by (rule ext) (simp add: client_ip_def ip bind_p_def)
  then show ?thesis unfolding counter_bytes_def send_counter_def ip option.sel by (simp only:) (intro sends_intros)
qed

lemma sends_case_prod [sends_intros]: "sends (g (fst q) (snd q)) (f (fst q) (snd q)) \<Longrightarrow> sends (case_prod g q) (case_prod f q)"
  by (simp add: case_prod_beta)

lemma sends_device:
  assumes "\<forall>(i, ct) \<in> set (d_counter_map d). peers (ct_sock ct) \<noteq> None"
  shows "sends (device_bytes peers d) (send_device peers d)"
proof -
  have cnt: "sends (case x of (_, ct) \<Rightarrow> counter_bytes peers ct) (case x of (_, ct) \<Rightarrow> send_counter peers ct)"
    if "x \<in> set (d_counter_map d)" for x
    using assms that sends_counter [of peers "snd x"] by (auto simp: case_prod_unfold)
  have kind: "sends (if d_pdu d then int_bytes 1 else int_bytes 0 @ string_bytes (comp_name (d_computer d)))
      (if d_pdu d then send_num (devtype_code MULTIPLE)
       else then_p (send_num (devtype_code SINGLE)) (send_name (comp_name (d_computer d))))"
    using sends_then [OF sends_basic(2) sends_basic(1)] sends_basic(2) by simp
  show ?thesis
    unfolding device_bytes_def send_device_def
    by (intro sends_then kind sends_basic sends_for cnt) (auto intro: sends_intros)
qed

text \<open>
  C33: A status request is answered with one exact layout: the number of devices, then device after
  device its name, rate, lines and the counters open on it, as long as every open counter's client
  is connected.
\<close>

theorem sends_status:
  assumes "\<forall>(n, d) \<in> set (sv_devices (cn_server c)). \<forall>(i, ct) \<in> set (d_counter_map d). peers (ct_sock ct) \<noteq> None"
    and "s_room (cn_sock c) = None"
  shows "cmd_status peers c = (Ok (), c\<lparr>cn_sock := (cn_sock c)\<lparr>s_out := s_out (cn_sock c) @
    int_bytes (int (length (sv_devices (cn_server c)))) @
    concat (map (\<lambda>(_, d). device_bytes peers d) (sv_devices (cn_server c)))\<rparr>\<rparr>)"
proof -
  let ?m = "sv_devices (cn_server c)"
  have "sends (case x of (_, d) \<Rightarrow> device_bytes peers d) (case x of (_, d) \<Rightarrow> send_device peers d)" if "x \<in> set ?m" for x
    using assms(1) that sends_device [of "snd x" peers] by (auto simp: case_prod_unfold)
  then have "sends (int_bytes (int (length ?m)) @ concat (map (\<lambda>(_, d). device_bytes peers d) ?m))
      (then_p (send_num (int (length ?m))) (for_p ?m (\<lambda>(_, dev). send_device peers dev)))"
    by (intro sends_then sends_for sends_basic)
  then show ?thesis using assms(2) by (simp add: sends_def cmd_status_def bind_p_def)
qed

text \<open>An instance.\<close>

theorem sends_status_witness:
  "snd (cmd_status (\<lambda>_. None) \<lparr>cn_server = \<lparr>sv_IP = [], sv_port = 0, sv_daemonize = False, sv_devices = [(''A'', Device_new ''A'' [] 1 1 True Dummy)], sv_nextid = 0\<rparr>,
     cn_sock = \<lparr>s_in = [], s_out = [], s_room = None\<rparr>, cn_peer = None, cn_counter = counter_init 0\<rparr>) =
   \<lparr>cn_server = \<lparr>sv_IP = [], sv_port = 0, sv_daemonize = False, sv_devices = [(''A'', Device_new ''A'' [] 1 1 True Dummy)], sv_nextid = 0\<rparr>,
     cn_sock = \<lparr>s_in = [], s_out = int_bytes 1 @ string_bytes ''A'' @ int_bytes 1 @ int_bytes 1 @ int_bytes 1 @ int_bytes 0, s_room = None\<rparr>,
     cn_peer = None, cn_counter = counter_init 0\<rparr>"
  by (subst sends_status) (simp_all add: Device_new_def device_bytes_def)

text \<open>A stream ends when the client stops accepting bytes.\<close>

lemma send_vector_room_step:
  assumes "s_room s = Some k" and "send_vector double_bytes xs s = (Ok n, s')"
  shows "\<exists>k'. s_room s' = Some k' \<and> k' < k"
  using assms
  by (auto simp: send_vector_def send_int_def send_raw_def sock_write_def bind_p_def int_bytes_def split: if_splits)

lemma send_vector_not_Undef: "fst (send_vector double_bytes xs s) \<noteq> Undef u"
  by (auto simp: send_vector_def send_int_def send_raw_def sock_write_def bind_p_def split: option.split)

text \<open>
  C35: Live streaming ends: once the client accepts only \<open>k\<close> more bytes, the loop
  fails within \<open>k + 1\<close> rounds.
\<close>

theorem stream_ends:
  "s_room (cn_sock c) = Some k \<Longrightarrow> k < n \<Longrightarrow> \<exists>e. fst (stream n live i c) = Throw e"
proof (induction n arbitrary: c k i)
  case (Suc n)
  obtain r s where r: "send_vector double_bytes (live i) (cn_sock c) = (r, s)" by force
  show ?case
  proof (cases r)
    case (Ok m)
    obtain k' where k': "s_room s = Some k'" "k' < k"
      using send_vector_room_step [OF Suc.prems(1)] r Ok by blast
    have "\<exists>e. fst (stream n live (Suc i) (c\<lparr>cn_sock := s\<rparr>)) = Throw e"
      by (rule Suc.IH [of _ k']) (use k' Suc.prems(2) in simp_all)
    then show ?thesis by (simp add: then_p_def bind_p_def on_sock_def r Ok)
  next
    case (Undef u)
    then show ?thesis using send_vector_not_Undef [of "live i" "cn_sock c" u] r by simp
  qed (simp add: then_p_def bind_p_def on_sock_def r)
qed simp

text \<open>An instance.\<close>

theorem stream_ends_witness:
  "\<exists>e. fst (stream 21 (\<lambda>_. [1, 2]) 0 \<lparr>cn_server = \<lparr>sv_IP = [], sv_port = 0, sv_daemonize = False, sv_devices = [], sv_nextid = 0\<rparr>,
     cn_sock = \<lparr>s_in = [], s_out = [], s_room = Some 20\<rparr>, cn_peer = None, cn_counter = counter_init 0\<rparr>) = Throw e"
  by (rule stream_ends [where k = 20]) simp_all

end
