(* ===== verification/Startup.thy ===== *)
theory Startup
  imports Sampling Info
begin

text \<open>
  The life of the server process: the command line (\<open>server/pmlib_server.cpp\<close>), the start and stop of
  devices and of the listening socket and the accept loop (\<open>server/server.cpp\<close>), and the double fork
  (\<open>server/utils/daemonize.hpp\<close>).

  What the environment decides is a parameter: the state of a device once the wait for it is over,
  whether the socket calls succeed, what \<open>fork\<close>, \<open>open\<close> and \<open>getppid\<close> return. \<open>exit\<close> ends the process
  and is a result of its own.
\<close>

section \<open>Devices\<close>

datatype lifecycle =
    Dev_starting string | Dev_started string | Dev_failed string
  | Dev_stopping string | Dev_stopped string | Dev_stop_failed string
  | Devices_destroyed | Listening | Serving | Connection_failed | Acceptor_closed

datatype run_end = Returned | Exited

text \<open>
  \<open>wait n d\<close> is device \<open>n\<close> after \<open>start\<close> and the wait of at most 15 seconds on its condition variable.
  The first device that is not working then ends the process.
\<close>

fun start_devices ::
  "(string \<Rightarrow> device \<Rightarrow> device) \<Rightarrow> (string, device) amap \<Rightarrow> lifecycle list \<times> run_end option \<times> (string, device) amap" where
  "start_devices wait [] = ([], None, [])"
| "start_devices wait ((n, d) # m) =
     (let d' = wait n d
      in if d_working d'
         then (case start_devices wait m of (tr, e, m') \<Rightarrow>
                (Dev_starting n # Dev_started n # tr, e, (n, d') # m'))
         else ([Dev_starting n, Dev_failed n], Some Exited, (n, device_stop d') # m))"

text \<open>Stopping: \<open>wait n d\<close> is again the device after the wait.\<close>

fun stop_each :: "(string \<Rightarrow> device \<Rightarrow> device) \<Rightarrow> (string, device) amap \<Rightarrow> lifecycle list" where
  "stop_each wait [] = []"
| "stop_each wait ((n, d) # m) =
     (if d_working d
      then Dev_stopping n #
        (if \<not> d_running (wait n (device_stop d)) then Dev_stopped n else Dev_stop_failed n) # stop_each wait m
      else stop_each wait m)"

definition stop_devices ::
  "(string \<Rightarrow> device \<Rightarrow> device) \<Rightarrow> (string, device) amap \<Rightarrow> lifecycle list \<times> (string, device) amap" where
  "stop_devices wait m = (stop_each wait m @ [Devices_destroyed], [])"

section \<open>The listening socket\<close>

text \<open>
  \<open>endpoint_ok\<close>: the address parses and opening, binding and listening succeed (each of them throws
  otherwise). The port is a \<open>short\<close>, which the endpoint takes as an unsigned number.
\<close>

definition endpoint_port :: "int \<Rightarrow> int" where
  "endpoint_port p = p mod 65536"

definition start_connection ::
  "(string \<Rightarrow> int \<Rightarrow> bool) \<Rightarrow> int \<Rightarrow> (string \<Rightarrow> device \<Rightarrow> device) \<Rightarrow> server \<Rightarrow> lifecycle list \<times> run_end option \<times> server" where
  "start_connection endpoint_ok daemonized wait srv =
     (let failed = (\<lambda>tr. case stop_devices wait (sv_devices srv) of (tr', m) \<Rightarrow>
            (tr @ Connection_failed # tr', Some Exited, srv\<lparr>sv_devices := m\<rparr>))
      in if \<not> endpoint_ok (sv_IP srv) (endpoint_port (sv_port srv)) then failed []
         else if sv_daemonize srv \<and> daemonized \<noteq> 0 then failed [Listening]
         else ([Listening, Serving], None, srv))"

text \<open>Accepting: a connection is handed to its own thread, and the next accept is queued always.\<close>

datatype accept_action = Spawn_connection nat | Queue_accept

definition accept_handler :: "nat \<Rightarrow> bool \<Rightarrow> accept_action list" where
  "accept_handler sock e = (if \<not> e then [Spawn_connection sock] else []) @ [Queue_accept]"

definition server_run ::
  "(string \<Rightarrow> int \<Rightarrow> bool) \<Rightarrow> int \<Rightarrow> (string \<Rightarrow> device \<Rightarrow> device) \<Rightarrow> (string \<Rightarrow> device \<Rightarrow> device) \<Rightarrow> server \<Rightarrow>
     lifecycle list \<times> run_end \<times> server" where
  "server_run endpoint_ok daemonized wait wait_stop srv =
     (if sv_devices srv = [] then ([], Returned, srv)
      else case start_devices wait (sv_devices srv) of
        (tr1, Some e, m) \<Rightarrow> (tr1, e, srv\<lparr>sv_devices := m\<rparr>)
      | (tr1, None, m) \<Rightarrow>
          (case start_connection endpoint_ok daemonized wait_stop (srv\<lparr>sv_devices := m\<rparr>) of
             (tr2, Some e, srv2) \<Rightarrow> (tr1 @ tr2, e, srv2)
           | (tr2, None, srv2) \<Rightarrow>
               (case stop_devices wait_stop (sv_devices srv2) of
                  (tr3, m') \<Rightarrow> (tr1 @ tr2 @ Acceptor_closed # tr3, Returned, srv2\<lparr>sv_devices := m'\<rparr>))))"

section \<open>The double fork\<close>

text \<open>The descriptors of a process: what each one is open on. \<open>open\<close> and \<open>dup\<close> take the lowest free one.\<close>

type_synonym fds = "string option list"

fun fd_alloc :: "string \<Rightarrow> fds \<Rightarrow> fds" where
  "fd_alloc f [] = [Some f]"
| "fd_alloc f (None # t) = Some f # t"
| "fd_alloc f (Some g # t) = Some g # fd_alloc f t"

definition fd_close :: "nat \<Rightarrow> fds \<Rightarrow> fds" where
  "fd_close i t = (if i < length t then t[i := None] else t)"

definition fd_at :: "nat \<Rightarrow> fds \<Rightarrow> string option" where
  "fd_at i t = (if i < length t then t ! i else None)"

record denv =
  de_ppid :: int
  de_fork1 :: int
  de_fork2 :: int
  de_null_ok :: bool
  de_log_ok :: bool
  de_dup_ok :: bool
  de_pidfile_ok :: bool

datatype daemon_end = Daemon_returns int | Daemon_exits int

text \<open>The result in the process whose \<open>fork\<close> calls returned what \<open>e\<close> says, with its descriptors.\<close>

definition write_pidfile :: "denv \<Rightarrow> daemon_end option" where
  "write_pidfile e = (if de_pidfile_ok e then None else Some (Daemon_exits (-1)))"

definition daemonize_fn :: "string \<Rightarrow> denv \<Rightarrow> fds \<Rightarrow> daemon_end \<times> fds" where
  "daemonize_fn pidfile e t =
     (if de_ppid e = 1 then (Daemon_returns (-1), t)
      else if de_fork1 e \<noteq> 0 then
        (if 0 < de_fork1 e then (Daemon_exits 0, t) else (Daemon_returns (-1), t))
      else if de_fork2 e \<noteq> 0 then
        (if 0 < de_fork2 e then (Daemon_exits 0, t) else (Daemon_returns (-1), t))
      else let t0 = fd_close 2 (fd_close 1 (fd_close 0 t))
        in if \<not> de_null_ok e then (Daemon_returns (-1), t0)
        else let t1 = fd_alloc ''/dev/null'' t0
          in if \<not> de_log_ok e then (Daemon_returns (-1), t1)
          else let t2 = fd_alloc ''/var/log/pmlib.out'' t1
            in if fd_at 1 t2 = None \<or> \<not> de_dup_ok e then (Daemon_returns (-1), t2)
            else let t3 = fd_alloc (the (fd_at 1 t2)) t2
              in (case write_pidfile e of Some r \<Rightarrow> (r, t3) | None \<Rightarrow> (Daemon_returns 0, t3)))"

section \<open>The command line\<close>

text \<open>
  \<open>getopt_long\<close> delivers a sequence of options: the short ones of \<open>"dc:"\<close> (\<open>c\<close> with its argument), a long
  one by its exact name or an unambiguous prefix of it, and \<open>?\<close> for anything else.
\<close>

definition long_options :: "(string \<times> char) list" where
  "long_options = [(''damonize'', CHR ''d''), (''configfile'', CHR ''c'')]"

definition long_match :: "string \<Rightarrow> char" where
  "long_match name = (case filter (\<lambda>(n, _). n = name) long_options of
     (_, c) # _ \<Rightarrow> c
   | [] \<Rightarrow> (case filter (\<lambda>(n, _). take (length name) n = name) long_options of
       [(_, c)] \<Rightarrow> c | _ \<Rightarrow> CHR ''?''))"

text \<open>Options are pairs of the returned character and the argument (empty when there is none).\<close>

fun parse_options :: "(char \<times> string) list \<Rightarrow> bool \<times> string \<Rightarrow> (bool \<times> string) option" where
  "parse_options [] acc = Some acc"
| "parse_options ((opt, arg) # os) (d, cf) =
     (if opt = CHR 0x00 then parse_options os (d, cf)
      else if opt = CHR ''d'' then parse_options os (True, cf)
      else if opt = CHR ''c'' then parse_options os (d, arg)
      else None)"

datatype main_action = Print_usage | Run_server string bool | No_config_file

text \<open>What the process does, and its exit status if it comes back from that.\<close>

definition main_fn :: "(string \<Rightarrow> bool) \<Rightarrow> (char \<times> string) list \<Rightarrow> main_action \<times> int" where
  "main_fn readable os = (case parse_options os (False, []) of
     None \<Rightarrow> (Print_usage, -1)
   | Some (daemon, configfile) \<Rightarrow>
       if configfile \<noteq> [] then
         (if readable configfile then (Run_server configfile daemon, 0) else (No_config_file, -1))
       else (Print_usage, 0))"

section \<open>Facts\<close>

lemma start_devices_all:
  "\<forall>(n, d) \<in> set m. d_working (wait n d) \<Longrightarrow>
     start_devices wait m = (concat (map (\<lambda>(n, _). [Dev_starting n, Dev_started n]) m), None,
       map (\<lambda>(n, d). (n, wait n d)) m)"
  by (induction m) (auto simp: Let_def)

text \<open>The first device that is not working after the wait ends the process; the later ones are never started.\<close>

lemma start_devices_first_failure:
  assumes "\<forall>(n, d) \<in> set m1. d_working (wait n d)" and "\<not> d_working (wait n d)"
  shows "start_devices wait (m1 @ (n, d) # m2) =
    (concat (map (\<lambda>(n, _). [Dev_starting n, Dev_started n]) m1) @ [Dev_starting n, Dev_failed n], Some Exited,
     map (\<lambda>(n, d). (n, wait n d)) m1 @ (n, device_stop (wait n d)) # m2)"
  using assms by (induction m1) (auto simp: Let_def)

lemma start_devices_fails:
  assumes "\<not> (\<forall>(n, d) \<in> set m. d_working (wait n d))"
  shows "fst (snd (start_devices wait m)) = Some Exited \<and> Serving \<notin> set (fst (start_devices wait m))"
  using assms
proof (induction m)
  case (Cons a m)
  obtain n d where a: "a = (n, d)" by (cases a)
  obtain t r m' where s: "start_devices wait m = (t, r, m')" by (cases "start_devices wait m")
  show ?case
  proof (cases "d_working (wait n d)")
    case True
    then have "\<not> (\<forall>(n, d) \<in> set m. d_working (wait n d))" using Cons.prems a by auto
    from Cons.IH [OF this] show ?thesis using True a s by simp
  qed (simp add: a)
qed simp

lemma stop_each_not_serving: "Serving \<notin> set (stop_each wait m)"
  by (induction wait m rule: stop_each.induct) auto

text \<open>
  C31: The server comes to accept clients exactly when it has devices, all of them work, its
  endpoint can be listened on and, if it is to run in the background, detaching succeeds.
\<close>

theorem serves_iff:
  assumes "server_run endpoint_ok daemonized wait wait_stop srv = (tr, e, srv')"
  shows "Serving \<in> set tr \<longleftrightarrow> sv_devices srv \<noteq> [] \<and> (\<forall>(n, d) \<in> set (sv_devices srv). d_working (wait n d)) \<and>
    endpoint_ok (sv_IP srv) (endpoint_port (sv_port srv)) \<and> (sv_daemonize srv \<longrightarrow> daemonized = 0)"
proof (cases "\<forall>(n, d) \<in> set (sv_devices srv). d_working (wait n d)")
  case True
  have ns: "Serving \<notin> set (concat (map (\<lambda>(n, _). [Dev_starting n, Dev_started n]) m))" for m :: "(string \<times> device) list"
    by auto
  show ?thesis
    using assms True ns stop_each_not_serving
    by (auto simp: server_run_def start_devices_all [OF True] start_connection_def stop_devices_def Let_def
        split: if_splits)
next
  case False
  obtain t r m where s: "start_devices wait (sv_devices srv) = (t, r, m)" by (cases "start_devices wait (sv_devices srv)")
  have "r = Some Exited" "Serving \<notin> set t" using start_devices_fails [OF False] s by simp_all
  then show ?thesis using assms False s by (auto simp: server_run_def split: if_splits)
qed

text \<open>An instance.\<close>

theorem serves_iff_witness:
  "\<exists>tr e srv'. server_run (\<lambda>ip p. p = 6526) 0 (\<lambda>n d. d\<lparr>d_working := True\<rparr>) (\<lambda>n d. d)
     \<lparr>sv_IP = [], sv_port = 6526, sv_daemonize = True, sv_devices = [(''A'', Device_new ''A'' [] 1 1 False Dummy)], sv_nextid = 0\<rparr> =
     (tr, e, srv') \<and> Serving \<in> set tr"
proof -
  let ?srv = "\<lparr>sv_IP = [], sv_port = 6526, sv_daemonize = True, sv_devices = [(''A'', Device_new ''A'' [] 1 1 False Dummy)], sv_nextid = 0\<rparr>"
  obtain tr e srv' where r: "server_run (\<lambda>ip p. p = 6526) 0 (\<lambda>n d. d\<lparr>d_working := True\<rparr>) (\<lambda>n d. d) ?srv = (tr, e, srv')"
    by (cases "server_run (\<lambda>ip p. p = 6526) 0 (\<lambda>n d. d\<lparr>d_working := True\<rparr>) (\<lambda>n d. d) ?srv")
  then show ?thesis using serves_iff [OF r] by (simp add: endpoint_port_def)
qed

text \<open>When the run of a server comes back, its devices have been stopped and destroyed.\<close>

lemma returned_devices:
  "server_run endpoint_ok daemonized wait wait_stop srv = (tr, Returned, srv') \<Longrightarrow> sv_devices srv' = []"
proof -
  assume r: "server_run endpoint_ok daemonized wait wait_stop srv = (tr, Returned, srv')"
  obtain t q m where s: "start_devices wait (sv_devices srv) = (t, q, m)" by (cases "start_devices wait (sv_devices srv)")
  have q: "q = None \<or> q = Some Exited"
  proof (cases "\<forall>(n, d) \<in> set (sv_devices srv). d_working (wait n d)")
    case True
    then show ?thesis using start_devices_all [OF True] s by simp
  next
    case False
    then show ?thesis using start_devices_fails [OF False] s by simp
  qed
  show ?thesis using r s q
    by (auto simp: server_run_def start_connection_def stop_devices_def Let_def split: if_splits)
qed

text \<open>Only the grandchild returns 0, and its standard streams are where they should be.\<close>

lemma fd_streams:
  assumes "3 \<le> length t"
  shows "fd_alloc ''/dev/null'' (fd_close 2 (fd_close 1 (fd_close 0 t))) = Some ''/dev/null'' # None # None # drop 3 t"
proof -
  obtain a b c r where t: "t = a # b # c # r"
    using assms by (metis Suc_le_length_iff numeral_3_eq_3)
  show ?thesis by (simp add: t fd_close_def numeral_2_eq_2)
qed

text \<open>
  C32: Detaching reports success exactly in the process that both forks created and for which every
  file could be opened; then its standard streams are the null device and the log file.
\<close>

theorem daemonize_success:
  assumes "3 \<le> length t"
  shows "(fst (daemonize_fn pidfile e t) = Daemon_returns 0 \<longleftrightarrow>
      de_ppid e \<noteq> 1 \<and> de_fork1 e = 0 \<and> de_fork2 e = 0 \<and> de_null_ok e \<and> de_log_ok e \<and> de_dup_ok e \<and> de_pidfile_ok e) \<and>
    (fst (daemonize_fn pidfile e t) = Daemon_returns 0 \<longrightarrow>
      take 3 (snd (daemonize_fn pidfile e t)) = [Some ''/dev/null'', Some ''/var/log/pmlib.out'', Some ''/var/log/pmlib.out''])"
  by (auto simp: daemonize_fn_def Let_def fd_streams [OF assms, unfolded One_nat_def] fd_at_def write_pidfile_def
      numeral_3_eq_3 split: if_splits)

text \<open>An instance.\<close>

theorem daemonize_success_witness:
  "let e = \<lparr>de_ppid = 2, de_fork1 = 0, de_fork2 = 0, de_null_ok = True, de_log_ok = True, de_dup_ok = True, de_pidfile_ok = True\<rparr>;
       r = daemonize_fn ''p'' e [None, None, None, Some ''socket'']
   in fst r = Daemon_returns 0 \<and> take 3 (snd r) = [Some ''/dev/null'', Some ''/var/log/pmlib.out'', Some ''/var/log/pmlib.out'']"
  using daemonize_success [of "[None, None, None, Some ''socket'']" "''p''"
      "\<lparr>de_ppid = 2, de_fork1 = 0, de_fork2 = 0, de_null_ok = True, de_log_ok = True, de_dup_ok = True, de_pidfile_ok = True\<rparr>"]
  by (simp add: Let_def)

text \<open>Nothing makes a stopped device run again, so stopping never fails.\<close>

lemma stop_each_succeeds:
  assumes "\<And>n d. \<not> d_running d \<Longrightarrow> \<not> d_running (wait n d)"
  shows "Dev_stop_failed n \<notin> set (stop_each wait m)"
  using assms by (induction wait m rule: stop_each.induct) (auto simp: device_stop_def)

end
