(* ===== verification/Numbers.thy ===== *)
theory Numbers
  imports Prelude Ieee
begin

text \<open>
  Text to numbers and back, as the C++ library does it: \<open>strtod\<close> and \<open>std::stod\<close> (correctly rounded,
  with the range errors of the C library), unsigned decimal digits, and fixed-point output
  (\<open>std::fixed << std::setprecision(p)\<close>).
\<close>

section \<open>Digits\<close>

definition digit_val :: "char \<Rightarrow> nat" where
  "digit_val c = of_char c - 48"

definition is_digit :: "char \<Rightarrow> bool" where
  "is_digit c \<longleftrightarrow> 48 \<le> (of_char c :: nat) \<and> (of_char c :: nat) \<le> 57"

definition is_hex :: "char \<Rightarrow> bool" where
  "is_hex c \<longleftrightarrow> is_digit c \<or> (let n = of_char c :: nat in 97 \<le> n \<and> n \<le> 102 \<or> 65 \<le> n \<and> n \<le> 70)"

definition hex_val :: "char \<Rightarrow> nat" where
  "hex_val c = (let n = of_char c in if n \<le> 57 then n - 48 else if n \<le> 70 then n - 55 else n - 87)"

definition digits_val :: "nat \<Rightarrow> nat \<Rightarrow> (char \<Rightarrow> nat) \<Rightarrow> string \<Rightarrow> nat" where
  "digits_val base acc v ds = fold (\<lambda>c n. n * base + v c) ds acc"

definition is_space :: "char \<Rightarrow> bool" where
  "is_space c \<longleftrightarrow> c = CHR '' '' \<or> (let n = of_char c :: nat in 9 \<le> n \<and> n \<le> 13)"

definition to_lower :: "char \<Rightarrow> char" where
  "to_lower c = (let n = of_char c :: nat in if 65 \<le> n \<and> n \<le> 90 then char_of (n + 32) else c)"

section \<open>Decimal and hexadecimal numerals\<close>

text \<open>An optional exponent: nothing is consumed unless a digit follows the marker and the sign.\<close>

definition parse_exp :: "char \<Rightarrow> string \<Rightarrow> int \<times> string" where
  "parse_exp marker str = (case str of
     [] \<Rightarrow> (0, str)
   | c # t \<Rightarrow>
       if to_lower c \<noteq> marker then (0, str)
       else let (neg, u) = (case t of x # u \<Rightarrow>
                if x = CHR ''-'' then (True, u) else if x = CHR ''+'' then (False, u) else (False, t)
              | [] \<Rightarrow> (False, t));
                ds = takeWhile is_digit u
            in if ds = [] then (0, str)
               else ((if neg then - 1 else 1) * int (digits_val 10 0 digit_val ds), dropWhile is_digit u))"

text \<open>
  The magnitude of a numeral as a fraction, and what is left: digits with an optional fraction and
  exponent.
\<close>

definition pow_frac :: "nat \<Rightarrow> nat \<Rightarrow> int \<Rightarrow> nat \<times> nat" where
  "pow_frac base m e = (if 0 \<le> e then (m * base ^ nat e, 1) else (m, base ^ nat (- e)))"

definition parse_dec :: "string \<Rightarrow> ((nat \<times> nat) \<times> string) option" where
  "parse_dec str =
     (let ip = takeWhile is_digit str; t = dropWhile is_digit str;
          (fp, u) = (case t of c # t' \<Rightarrow>
              if c = CHR ''.'' \<and> (ip \<noteq> [] \<or> takeWhile is_digit t' \<noteq> []) then (takeWhile is_digit t', dropWhile is_digit t')
              else ([], t) | [] \<Rightarrow> ([], t))
      in if ip = [] \<and> fp = [] then None
         else let (e, w) = parse_exp (CHR ''e'') u
              in Some (pow_frac 10 (digits_val 10 0 digit_val (ip @ fp)) (e - int (length fp)), w))"

definition parse_hex :: "string \<Rightarrow> ((nat \<times> nat) \<times> string) option" where
  "parse_hex str =
     (let ip = takeWhile is_hex str; t = dropWhile is_hex str;
          (fp, u) = (case t of c # t' \<Rightarrow>
              if c = CHR ''.'' \<and> (ip \<noteq> [] \<or> takeWhile is_hex t' \<noteq> []) then (takeWhile is_hex t', dropWhile is_hex t')
              else ([], t) | [] \<Rightarrow> ([], t))
      in if ip = [] \<and> fp = [] then None
         else let (e, w) = parse_exp (CHR ''p'') u
              in Some (pow_frac 2 (digits_val 16 0 hex_val (ip @ fp)) (e - 4 * int (length fp)), w))"

section \<open>strtod\<close>

definition signed_bits :: "bool \<Rightarrow> nat \<Rightarrow> double" where
  "signed_bits neg mag = of_nat (pack binary64 neg mag)"

text \<open>The range errors: overflow to infinity, and an inexact result below the normal range.\<close>

definition range_error :: "nat \<times> nat \<Rightarrow> bool" where
  "range_error q = (case q of (n, d) \<Rightarrow>
     let mag = round_mag binary64 n d
     in mag = inf_mag binary64 \<or>
        (n \<noteq> 0 \<and> mag < 2 ^ 52 \<and> mag * d \<noteq> n * 2 ^ 1074))"

definition lower_prefix :: "string \<Rightarrow> string \<Rightarrow> bool" where
  "lower_prefix p str \<longleftrightarrow> map to_lower (take (length p) str) = p"

text \<open>The value, whether there was a range error, and the unread rest; nothing if there is no number.\<close>

definition strtod :: "string \<Rightarrow> (double \<times> bool \<times> string) option" where
  "strtod str =
     (let s1 = dropWhile is_space str;
          (neg, s2) = (case s1 of c # t \<Rightarrow>
             if c = CHR ''-'' then (True, t) else if c = CHR ''+'' then (False, t) else (False, s1) | [] \<Rightarrow> (False, s1))
      in if lower_prefix ''infinity'' s2 then Some (signed_bits neg (inf_mag binary64), False, drop 8 s2)
         else if lower_prefix ''inf'' s2 then Some (signed_bits neg (inf_mag binary64), False, drop 3 s2)
         else if lower_prefix ''nan'' s2 then Some (signed_bits neg (nan_bits binary64), False, drop 3 s2)
         else let num = (if lower_prefix ''0x'' s2
                then (case parse_hex (drop 2 s2) of Some r \<Rightarrow> Some r | None \<Rightarrow> parse_dec s2)
                else parse_dec s2)
              in (case num of None \<Rightarrow> None
                  | Some ((n, d), rest) \<Rightarrow> Some (signed_bits neg (round_mag binary64 n d), range_error (n, d), rest)))"

definition stod :: "string \<Rightarrow> double res" where
  "stod str = (case strtod str of
     None \<Rightarrow> Throw Invalid_argument
   | Some (v, err, _) \<Rightarrow> if err then Throw Out_of_range else Ok v)"

section \<open>Fixed-point output\<close>

text \<open>A finite value with \<open>p\<close> decimals, rounded half-even on its exact value.\<close>

definition print_fixed :: "nat \<Rightarrow> fpv \<Rightarrow> string" where
  "print_fixed p v = (case v of
     NaN \<Rightarrow> ''nan''
   | Inf neg \<Rightarrow> (if neg then ''-inf'' else ''inf'')
   | Fin neg m e \<Rightarrow>
       (let (n, d) = (if 0 \<le> e then (m * 2 ^ nat e, 1) else (m, 2 ^ nat (- e)));
            k = rne (n * 10 ^ p) d; ip = dec_digits (k div 10 ^ p); f = dec_digits (k mod 10 ^ p)
        in (if neg then ''-'' else []) @ ip @
           (if p = 0 then [] else ''.'' @ replicate (p - length f) (CHR ''0'') @ f)))"

section \<open>Decimal digits read back\<close>

lemma is_digit_char: "(n::nat) < 10 \<Longrightarrow> is_digit (char_of (48 + n))"
  by (simp add: is_digit_def)

lemma digit_val_char: "(n::nat) < 10 \<Longrightarrow> digit_val (char_of (48 + n)) = n"
  by (simp add: digit_val_def)

lemma dec_digits_nonempty: "dec_digits n \<noteq> []"
  by (subst dec_digits.simps) simp

lemma dec_digits_are_digits: "\<forall>c \<in> set (dec_digits n). is_digit c"
proof (induction n rule: dec_digits.induct)
  case (1 n)
  then show ?case by (subst dec_digits.simps) (auto simp: is_digit_char)
qed

lemma digits_val_append: "digits_val b a v (xs @ ys) = digits_val b (digits_val b a v xs) v ys"
  by (simp add: digits_val_def)

lemma digits_val_dec_digits: "digits_val 10 0 digit_val (dec_digits n) = n"
proof (induction n rule: dec_digits.induct)
  case (1 n)
  show ?case
  proof (cases "n < 10")
    case True
    then show ?thesis by (subst dec_digits.simps) (simp add: digits_val_def digit_val_char)
  next
    case False
    then have "digits_val 10 0 digit_val (dec_digits n) = n div 10 * 10 + n mod 10"
      using 1 by (subst dec_digits.simps) (simp add: digits_val_append, simp add: digits_val_def digit_val_char)
    then show ?thesis by simp
  qed
qed

lemma takeWhile_digits:
  "\<forall>c \<in> set ds. is_digit c \<Longrightarrow> rest = [] \<or> \<not> is_digit (hd rest) \<Longrightarrow>
     takeWhile is_digit (ds @ rest) = ds \<and> dropWhile is_digit (ds @ rest) = rest"
  by (cases rest) (auto simp: takeWhile_append2 dropWhile_append2)

text \<open>A plain decimal numeral reads as its correctly rounded value.\<close>

lemma parse_dec_digits: "parse_dec (dec_digits n) = Some ((n, 1), [])"
proof -
  have t: "takeWhile is_digit (dec_digits n) = dec_digits n" "dropWhile is_digit (dec_digits n) = []"
    using takeWhile_digits [OF dec_digits_are_digits, of "[]" n] by simp_all
  show ?thesis
    unfolding parse_dec_def Let_def t
    by (simp add: dec_digits_nonempty parse_exp_def pow_frac_def digits_val_dec_digits)
qed

lemma digit_not_special:
  "is_digit c \<Longrightarrow> \<not> is_space c \<and> c \<noteq> CHR ''-'' \<and> c \<noteq> CHR ''+'' \<and> to_lower c = c \<and> c \<noteq> CHR ''i'' \<and> c \<noteq> CHR ''n'' \<and> c \<noteq> CHR ''x''"
  by (auto simp: is_digit_def is_space_def to_lower_def Let_def)

lemma dec_digits_no_prefix:
  assumes "p \<in> {''infinity'', ''inf'', ''nan'', ''0x''}"
  shows "\<not> lower_prefix p (dec_digits n)"
proof
  assume l: "lower_prefix p (dec_digits n)"
  have "map to_lower (take (length p) (dec_digits n)) = take (length p) (dec_digits n)"
    using digit_not_special dec_digits_are_digits by (intro map_idI) (auto dest!: in_set_takeD)
  then have "set p \<subseteq> set (dec_digits n)"
    using l unfolding lower_prefix_def by (metis set_take_subset)
  then have "\<forall>c \<in> set p. is_digit c" using dec_digits_are_digits by auto
  then show False using assms by (auto simp: is_digit_def)
qed

lemma stod_dec_digits:
  "stod (dec_digits n) = (if range_error (n, 1) then Throw Out_of_range else Ok (d_of_ratio n 1))"
proof -
  obtain c cs where c: "dec_digits n = c # cs" using dec_digits_nonempty by (cases "dec_digits n") auto
  have dc: "is_digit c" using dec_digits_are_digits [of n] c by simp
  have s: "dropWhile is_space (c # cs) = c # cs" "c \<noteq> CHR ''-''" "c \<noteq> CHR ''+''"
    using digit_not_special [OF dc] by simp_all
  have "strtod (dec_digits n) = Some (d_of_ratio n 1, range_error (n, 1), [])"
    using dec_digits_no_prefix [of _ n] parse_dec_digits [of n] s unfolding c
    by (simp add: strtod_def Let_def signed_bits_def d_of_ratio_def fp_frac_def)
  then show ?thesis by (simp add: stod_def)
qed

end
