(* ===== verification/Drivers.thy ===== *)
theory Drivers
  imports Sampling Numbers
begin

text \<open>
  The device drivers of \<open>server/devices/\<close>: what each one sends to its meter and how it turns what the
  meter delivers into samples. The meter itself is a parameter: the bytes or lines a serial port
  delivers, the register contents of an I2C chip.

  A driver is the sequence of samples it yields; how it ends (the port failing, a malformed number)
  is the end of its thread, which \<open>Device::run\<close> survives.
\<close>

section \<open>LMG\<close>

definition lmg_commands :: "nat \<Rightarrow> nat \<Rightarrow> string list" where
  "lmg_commands n_lines max_freq =
     ['':SYSTem:LANGuage SHORT'' @ [CHR 0x0A], ''FRMT PACKED'' @ [CHR 0x0A],
      ''CYCL '' @ print_fixed 6 (d_val (d_div (d_of_int 1) (d_of_int (int max_freq)))) @ [CHR 0x0A],
      ''ACTN'' @ concat (map (\<lambda>s. '';P'' @ to_string (int s + 1) @ ''?'') [0..<n_lines]) @ [CHR 0x0A],
      ''CONT ON'' @ [CHR 0x0A]]"

definition lmg_farewell :: "string list" where
  "lmg_farewell = [''CONT OFF'' @ [CHR 0x0A], ''FRMT ASCII'' @ [CHR 0x0A], ''GTL'' @ [CHR 0x0A]]"

definition frame_bytes :: "nat \<Rightarrow> nat" where
  "frame_bytes n_lines = 7 + n_lines * 4 + 1"

text \<open>The values of one packed frame: a header of 7 bytes, the channels, a trailer.\<close>

definition lmg_sample :: "nat \<Rightarrow> byte list \<Rightarrow> double list" where
  "lmg_sample n_lines frame =
     map (\<lambda>s. d_of_f (of_nat (le_val (take 4 (drop (7 + s * 4) frame))))) [0..<n_lines]"

text \<open>The reading loop: one sample per complete frame; an incomplete one ends it.\<close>

function lmg_run :: "nat \<Rightarrow> byte list \<Rightarrow> double list list" where
  "lmg_run n_lines port =
     (if frame_bytes n_lines \<le> length port
      then lmg_sample n_lines (take (frame_bytes n_lines) port) # lmg_run n_lines (drop (frame_bytes n_lines) port)
      else [])"
  by pat_completeness auto
termination
  by (relation "measure (length \<circ> snd)") (auto simp: frame_bytes_def)

declare lmg_run.simps [simp del]

definition lmg_frame :: "byte list \<Rightarrow> float list \<Rightarrow> byte \<Rightarrow> byte list" where
  "lmg_frame header vs trailer = header @ concat (map float_bytes vs) @ [trailer]"

lemma length_float_bytes [simp]: "length (float_bytes v) = 4"
  by (simp add: float_bytes_def)

lemma length_floats: "length (concat (map float_bytes vs)) = 4 * length vs"
  by (induction vs) simp_all

lemma take_drop_floats:
  "s < length vs \<Longrightarrow> take 4 (drop (s * 4) (concat (map float_bytes vs) @ t)) = float_bytes (vs ! s)"
proof (induction vs arbitrary: s)
  case (Cons v vs)
  show ?case
  proof (cases s)
    case 0
    then show ?thesis by simp
  next
    case (Suc s')
    have "drop (s * 4) (float_bytes v @ concat (map float_bytes vs) @ t) =
        drop (s' * 4) (concat (map float_bytes vs) @ t)"
      by (simp add: Suc)
    then show ?thesis using Cons Suc by simp
  qed
qed simp

lemma float_bytes_val: "of_nat (le_val (float_bytes v)) = v"
proof -
  have "unat v < 256 ^ 4" using unsigned_less [of v] by simp
  then show ?thesis by (simp add: float_bytes_def le_val_le_bytes)
qed

lemma lmg_sample_frame:
  assumes "length header = 7"
  shows "lmg_sample (length vs) (lmg_frame header vs trailer) = map d_of_f vs"
proof (rule nth_equalityI)
  fix s assume "s < length (lmg_sample (length vs) (lmg_frame header vs trailer))"
  then have s: "s < length vs" by (simp add: lmg_sample_def)
  have "drop (7 + s * 4) (lmg_frame header vs trailer) = drop (s * 4) (concat (map float_bytes vs) @ [trailer])"
    using assms by (simp add: lmg_frame_def)
  then show "lmg_sample (length vs) (lmg_frame header vs trailer) ! s = map d_of_f vs ! s"
    using s take_drop_floats [OF s, of "[trailer]"] float_bytes_val by (simp add: lmg_sample_def)
qed (simp add: lmg_sample_def)

lemma length_lmg_frame: "length header = 7 \<Longrightarrow> length (lmg_frame header vs trailer) = frame_bytes (length vs)"
  by (simp add: lmg_frame_def frame_bytes_def length_floats)

text \<open>
  C37: The LMG driver decodes a stream of well-formed frames into one sample per frame, in order,
  and waits on an incomplete one.
\<close>

theorem lmg_run_frames:
  assumes "\<forall>(h, vs, t) \<in> set fs. length h = 7 \<and> length vs = n" and "length rest < frame_bytes n"
  shows "lmg_run n (concat (map (\<lambda>(h, vs, t). lmg_frame h vs t) fs) @ rest) =
    map (\<lambda>(h, vs, t). map d_of_f vs) fs"
  using assms
proof (induction fs)
  case Nil
  then show ?case by (simp add: lmg_run.simps)
next
  case (Cons f fs)
  obtain h vs t where f: "f = (h, vs, t)" by (cases f)
  have len: "length h = 7" "length vs = n" using Cons.prems f by simp_all
  let ?fr = "lmg_frame h vs t" and ?r = "concat (map (\<lambda>(h, vs, t). lmg_frame h vs t) fs) @ rest"
  have fl: "length ?fr = frame_bytes n" using length_lmg_frame [of h vs t] len by simp
  then have "lmg_run n (?fr @ ?r) = lmg_sample n ?fr # lmg_run n ?r"
    by (subst lmg_run.simps) simp
  then show ?case using Cons f len lmg_sample_frame [of h vs t] by simp
qed

text \<open>An instance.\<close>

theorem lmg_run_frames_witness:
  "lmg_run 1 (lmg_frame [1, 2, 3, 4, 5, 6, 7] [0x41200000] 10 @ [1, 2]) = [[d_of_f 0x41200000]]"
  using lmg_run_frames [of "[([1, 2, 3, 4, 5, 6, 7], [0x41200000], 10)]" 1 "[1, 2]"] by (simp add: frame_bytes_def)

section \<open>WattsUp\<close>

definition wattsup_commands :: "string list" where
  "wattsup_commands = [''#L,R,0;'', ''#R,W,0;'', ''#L,W,3,E,1,1;'']"

definition is_pad :: "char \<Rightarrow> bool" where
  "is_pad c \<longleftrightarrow> c \<in> {CHR '' '', CHR 0x09, CHR 0x0D, CHR 0x0A, CHR '';''}"

definition trim :: "string \<Rightarrow> string" where
  "trim str = rev (dropWhile is_pad (rev (dropWhile is_pad str)))"

text \<open>\<open>boost::split\<close> keeps empty fields.\<close>

fun split_at :: "char \<Rightarrow> string \<Rightarrow> string list" where
  "split_at sep [] = [[]]"
| "split_at sep (c # cs) =
     (if c = sep then [] # split_at sep cs
      else (case split_at sep cs of f # fs \<Rightarrow> (c # f) # fs | [] \<Rightarrow> [[c]]))"

text \<open>One line of the meter: a sample, nothing, or the end of the driver by an exception.\<close>

definition wattsup_line :: "string \<Rightarrow> double option res" where
  "wattsup_line line =
     (let vsample = split_at (CHR '','') (trim line)
      in if length vsample = 21
         then bind_r (stod (vsample ! 3)) (\<lambda>v. Ok (Some (d_mul v (d_of_ratio 1 10))))
         else Ok None)"

fun wattsup_run :: "string list \<Rightarrow> double list list \<times> exn option" where
  "wattsup_run [] = ([], None)"
| "wattsup_run (l # ls) = (case wattsup_line l of
     Ok None \<Rightarrow> wattsup_run ls
   | Ok (Some v) \<Rightarrow> (case wattsup_run ls of (xs, e) \<Rightarrow> ([v] # xs, e))
   | Throw e \<Rightarrow> ([], Some e)
   | Undef u \<Rightarrow> ([], None))"

fun join :: "char \<Rightarrow> string list \<Rightarrow> string" where
  "join sep [] = []"
| "join sep [f] = f"
| "join sep (f # g # fs) = f @ sep # join sep (g # fs)"

lemma split_at_nonempty: "split_at sep s \<noteq> []"
  by (induction s) (auto split: list.split)

lemma split_at_field: "sep \<notin> set f \<Longrightarrow> split_at sep (f @ t) = (case split_at sep t of g # gs \<Rightarrow> (f @ g) # gs | [] \<Rightarrow> [])"
proof (induction f)
  case Nil
  then show ?case by (cases "split_at sep t") (simp_all add: split_at_nonempty)
next
  case (Cons c f)
  then show ?case by (cases "split_at sep t") (auto simp: split_at_nonempty)
qed

lemma split_at_join: "fs \<noteq> [] \<Longrightarrow> \<forall>f \<in> set fs. sep \<notin> set f \<Longrightarrow> split_at sep (join sep fs) = fs"
proof (induction sep fs rule: join.induct)
  case (2 sep f)
  then show ?case using split_at_field [of sep f "[]"] by simp
next
  case (3 sep f g fs)
  then show ?case by (simp add: split_at_field)
qed simp

lemma trim_padded:
  assumes "s \<noteq> []" and "\<not> is_pad (hd s)" and "\<not> is_pad (last s)" and "\<forall>c \<in> set pre. is_pad c" and "\<forall>c \<in> set post. is_pad c"
  shows "trim (pre @ s @ post) = s"
proof -
  have "dropWhile is_pad (pre @ s @ post) = s @ post"
    using assms(1,2,4) by (cases s) (simp_all add: dropWhile_append2)
  moreover have "dropWhile is_pad (rev post @ rev s) = rev s"
    using assms(1,3,5) by (cases s rule: rev_cases, simp) (subst dropWhile_append2, auto)
  ultimately show ?thesis by (simp add: trim_def)
qed

lemma flog_1234: "flog 1234 1 = 10"
  by (simp add: flog_def bitlen.simps scaled_def)

lemma digits_1234: "dec_digits 1234 = ''1234''"
  by code_simp

lemma range_1234: "\<not> range_error (1234, 1)"
  by (simp add: range_error_def round_mag_def ulp_exp_def flog_1234 emin_def binary64_def scaled_def
      rne_def inf_mag_def Let_def del: One_nat_def)

text \<open>
  C38: A status line of the WattsUp meter, padded in any way, yields its fourth field over ten: the
  power, which the meter reports in tenths of a watt.
\<close>

theorem wattsup_line_status:
  assumes "length fs = 21" and "\<forall>f \<in> set fs. CHR '','' \<notin> set f" and "fs ! 3 = dec_digits n" and "\<not> range_error (n, 1)"
    and "\<not> is_pad (hd (join (CHR '','') fs))" and "\<not> is_pad (last (join (CHR '','') fs))"
    and "\<forall>c \<in> set pre. is_pad c" and "\<forall>c \<in> set post. is_pad c"
  shows "wattsup_line (pre @ join (CHR '','') fs @ post) = Ok (Some (d_mul (d_of_ratio n 1) (d_of_ratio 1 10)))"
proof -
  obtain f g r where "fs = f # g # r"
    using assms(1) by (metis Suc_length_conv numeral_eq_Suc pred_numeral_simps(3) eval_nat_numeral(2))
  then have ne: "join (CHR '','') fs \<noteq> []" by simp
  have "split_at (CHR '','') (trim (pre @ join (CHR '','') fs @ post)) = fs"
    using trim_padded [OF ne assms(5-8)] split_at_join [of fs "CHR '',''"] assms(1,2) by (simp, fastforce)
  then show ?thesis using assms(1,3,4) by (simp add: wattsup_line_def stod_dec_digits)
qed

text \<open>An instance.\<close>

theorem wattsup_line_status_witness:
  "wattsup_line ([CHR '' ''] @ join (CHR '','') [''d'', ''1'', ''2'', dec_digits 1234, ''0'', ''0'', ''0'', ''0'', ''0'', ''0'', ''0'', ''0'', ''0'', ''0'', ''0'', ''0'', ''0'', ''0'', ''0'', ''0'', ''0''] @ [CHR '';'', CHR 0x0D]) =
    Ok (Some (d_mul (d_of_ratio 1234 1) (d_of_ratio 1 10)))"
  by (rule wattsup_line_status) (simp_all add: digits_1234 range_1234 [unfolded One_nat_def] is_pad_def)

section \<open>Dummy and ArduPower\<close>

definition dummy_init :: "nat \<Rightarrow> double list" where
  "dummy_init n_lines = map (\<lambda>s. d_div (d_of_int (int s + 1)) (d_of_int 100)) [0..<n_lines]"

definition dummy_next :: "double list \<Rightarrow> double list" where
  "dummy_next sample = map (\<lambda>x. d_add x (d_of_int 1)) sample"

fun dummy_run :: "nat \<Rightarrow> double list \<Rightarrow> double list list" where
  "dummy_run 0 sample = []"
| "dummy_run (Suc k) sample = dummy_next sample # dummy_run k (dummy_next sample)"

definition ardupower_next :: "double list \<Rightarrow> double list" where
  "ardupower_next sample = sample[0 := d_add (sample ! 0) (d_of_int 1)]"

fun ardupower_run :: "nat \<Rightarrow> double list \<Rightarrow> double list list" where
  "ardupower_run 0 sample = []"
| "ardupower_run (Suc k) sample = ardupower_next sample # ardupower_run k (ardupower_next sample)"

text \<open>Every driver yields complete samples, as the queue's consumer needs.\<close>

lemma lmg_run_complete: "\<forall>x \<in> set (lmg_run n port). length x = n"
proof (induction n port rule: lmg_run.induct)
  case (1 n port)
  then show ?case by (subst lmg_run.simps) (auto simp: lmg_sample_def)
qed

lemma wattsup_run_complete: "\<forall>x \<in> set (fst (wattsup_run ls)). length x = 1"
  by (induction ls) (auto split: res.split option.split prod.split)

lemma dummy_run_complete: "\<forall>x \<in> set (dummy_run k sample). length x = length sample"
  by (induction k arbitrary: sample) (auto simp: dummy_next_def)

lemma ardupower_run_complete: "\<forall>x \<in> set (ardupower_run k sample). length x = length sample"
  by (induction k arbitrary: sample) (auto simp: ardupower_next_def)

end
