(* ===== verification/Cape.thy ===== *)
theory Cape
  imports Drivers
begin

unbundle bit_operations_syntax

text \<open>
  The APCape driver (\<open>server/devices/APCape.hpp\<close>): the INA219 registers of its eight monitors, read
  over I2C, decoded, scaled, and selected by each line's metric. The bus is a parameter: what a block
  read of a register returns, nothing when it fails.
\<close>

section \<open>Configuration\<close>

definition reg_config :: byte where "reg_config = 0x00"
definition reg_shunt :: byte where "reg_shunt = 0x01"
definition reg_bus :: byte where "reg_bus = 0x02"
definition reg_power :: byte where "reg_power = 0x03"
definition reg_current :: byte where "reg_current = 0x04"
definition reg_calibration :: byte where "reg_calibration = 0x05"

text \<open>The fields of the configuration register that the driver sets.\<close>

definition config_bvoltage_32v :: "16 word" where "config_bvoltage_32v = 0x2000"
definition config_gain_8_320mv :: "16 word" where "config_gain_8_320mv = 0x1800"
definition config_badcres_12bit :: "16 word" where "config_badcres_12bit = 0x0400"
definition config_sadcres_12bit_1s :: "16 word" where "config_sadcres_12bit_1s = 0x0018"
definition config_mode_sandbvolt_continuous :: "16 word" where "config_mode_sandbvolt_continuous = 0x0007"

text \<open>The fields of the configuration register: name, mask and the settings with their names.\<close>

definition config_reset :: "16 word" where "config_reset = 0x8000"

definition config_fields :: "(string \<times> 16 word \<times> (string \<times> 16 word) list) list" where
  "config_fields =
    [(''BVOLTAGERANGE'', 0x2000,
      [(''16V'', 0x0000), (''32V'', 0x2000)]),
     (''GAIN'', 0x1800,
      [(''1_40MV'', 0x0000), (''2_80MV'', 0x0800), (''4_160MV'', 0x1000), (''8_320MV'', 0x1800)]),
     (''BADCRES'', 0x0780,
      [(''9BIT'', 0x0080), (''10BIT'', 0x0100), (''11BIT'', 0x0200), (''12BIT'', 0x0400)]),
     (''SADCRES'', 0x0078,
      [(''9BIT_1S_84US'', 0x0000), (''10BIT_1S_148US'', 0x0008), (''11BIT_1S_276US'', 0x0010),
       (''12BIT_1S_532US'', 0x0018), (''12BIT_2S_1060US'', 0x0048),
       (''12BIT_4S_2130US'', 0x0050), (''12BIT_8S_4260US'', 0x0058),
       (''12BIT_16S_8510US'', 0x0060), (''12BIT_32S_17MS'', 0x0068),
       (''12BIT_64S_34MS'', 0x0070), (''12BIT_128S_69MS'', 0x0078)]),
     (''MODE'', 0x0007,
      [(''POWERDOWN'', 0x0000), (''SVOLT_TRIGGERED'', 0x0001), (''BVOLT_TRIGGERED'', 0x0002),
       (''SANDBVOLT_TRIGGERED'', 0x0003), (''ADCOFF'', 0x0004), (''SVOLT_CONTINUOUS'', 0x0005),
       (''BVOLT_CONTINUOUS'', 0x0006), (''SANDBVOLT_CONTINUOUS'', 0x0007)])]"

text \<open>The block writes of the constructor: register and two bytes, the most significant first.\<close>

definition config_word :: "16 word" where
  "config_word = config_bvoltage_32v OR config_gain_8_320mv OR config_badcres_12bit OR
     config_sadcres_12bit_1s OR config_mode_sandbvolt_continuous"

definition setCalibration_32V_4_5A :: "(byte \<times> byte list) list" where
  "setCalibration_32V_4_5A =
     [(reg_calibration, [ucast (drop_bit 8 (0x16DB :: 16 word) AND 0xFF), ucast ((0x16DB :: 16 word) AND 0xFF)]),
      (reg_config, [ucast (drop_bit 8 config_word AND 0xFF), ucast (config_word AND 0xFF)])]"

definition currentDivider_mA :: float where
  "currentDivider_mA = f_of_d (d_of_ratio 7142857 1000000)"

definition powerDivider_mW :: float where
  "powerDivider_mW = f_of_d (d_of_ratio 357142 1000000)"

section \<open>Raw registers\<close>

definition twosToInt :: "int \<Rightarrow> nat \<Rightarrow> int" where
  "twosToInt val len = (if bit val (len - 1) then val - 2 ^ len else val)"

text \<open>The conversion of an \<open>int\<close> to \<open>unsigned short\<close> keeps the low 16 bits.\<close>

abbreviation to_ushort :: "int \<Rightarrow> 16 word" where
  "to_ushort \<equiv> of_int"

definition getBusVoltage_raw :: "(byte \<times> byte) option \<Rightarrow> 16 word" where
  "getBusVoltage_raw r = (case r of
     None \<Rightarrow> 0
   | Some (hi, lo) \<Rightarrow>
       if drop_bit 7 hi = 1
       then (let testint = to_ushort (int (unat hi * 256 + unat lo));
                 othernew = to_ushort (twosToInt (int (unat testint)) 16)
             in drop_bit (3 * 4) othernew)
       else to_ushort (drop_bit 3 (int (unat hi * 256 + unat lo)) * 4))"

text \<open>The shunt voltage, current and power registers are decoded alike.\<close>

definition register_raw :: "(byte \<times> byte) option \<Rightarrow> 16 word" where
  "register_raw r = (case r of
     None \<Rightarrow> 0
   | Some (hi, lo) \<Rightarrow>
       if drop_bit 7 hi = 1
       then (let testint = to_ushort (int (unat hi * 256 + unat lo)) in to_ushort (twosToInt (int (unat testint)) 16))
       else to_ushort (int (unat hi * 256 + unat lo)))"

definition getShuntVoltage_raw :: "(byte \<times> byte) option \<Rightarrow> 16 word" where
  "getShuntVoltage_raw r = register_raw r"

definition getCurrent_raw :: "(byte \<times> byte) option \<Rightarrow> 16 word" where
  "getCurrent_raw r = register_raw r"

text \<open>Here the intermediate values are \<open>unsigned int\<close>.\<close>

definition getPower_raw :: "(byte \<times> byte) option \<Rightarrow> 16 word" where
  "getPower_raw r = (case r of
     None \<Rightarrow> 0
   | Some (hi, lo) \<Rightarrow>
       if drop_bit 7 hi = 1
       then (let testint = of_int (int (unat hi * 256 + unat lo)) :: 32 word;
                 othernew = of_int (twosToInt (sint testint) 16) :: 32 word
             in ucast othernew)
       else to_ushort (int (unat hi * 256 + unat lo)))"

section \<open>Physical values\<close>

definition f_of_ushort :: "16 word \<Rightarrow> float" where
  "f_of_ushort w = f_of_int (int (unat w))"

definition milli :: "float \<Rightarrow> float" where
  "milli value = f_of_d (d_mul (d_of_f value) (d_of_ratio 1 1000))"

definition getShuntVoltage_mV :: "(byte \<Rightarrow> (byte \<times> byte) option) \<Rightarrow> float" where
  "getShuntVoltage_mV chip = milli (f_of_ushort (getShuntVoltage_raw (chip reg_shunt)))"

definition getBusVoltage_V :: "(byte \<Rightarrow> (byte \<times> byte) option) \<Rightarrow> float" where
  "getBusVoltage_V chip = milli (f_of_ushort (getBusVoltage_raw (chip reg_bus)))"

definition getCurrent_mA :: "(byte \<Rightarrow> (byte \<times> byte) option) \<Rightarrow> float" where
  "getCurrent_mA chip = f_div (f_of_ushort (getCurrent_raw (chip reg_current))) currentDivider_mA"

definition getPower_mW :: "(byte \<Rightarrow> (byte \<times> byte) option) \<Rightarrow> float" where
  "getPower_mW chip = f_div (f_of_ushort (getPower_raw (chip reg_power))) powerDivider_mW"

section \<open>The sampling loop\<close>

definition apcape_addresses :: "nat list" where
  "apcape_addresses = [0x40, 0x41, 0x42, 0x43, 0x44, 0x45, 0x46, 0x47]"

text \<open>
  One round: \<open>get_lines().at(i)\<close> throws if line \<open>i\<close> is not there, which ends the driver.
\<close>

definition apcape_value :: "metric \<Rightarrow> (byte \<Rightarrow> (byte \<times> byte) option) \<Rightarrow> double" where
  "apcape_value m chip = (case m of
     M_power \<Rightarrow> d_of_f (getPower_mW chip)
   | M_voltage \<Rightarrow> d_of_f (getBusVoltage_V chip)
   | M_current \<Rightarrow> d_of_f (getCurrent_mA chip)
   | _ \<Rightarrow> d_of_f (getPower_mW chip))"

definition apcape_round :: "nat \<Rightarrow> (int, line) amap \<Rightarrow> (nat \<Rightarrow> byte \<Rightarrow> (byte \<times> byte) option) \<Rightarrow> double list res" where
  "apcape_round n_lines lines bus =
     map_r (\<lambda>i. case amap_get lines (int i) of
         None \<Rightarrow> Throw Out_of_range
       | Some w \<Rightarrow> Ok (apcape_value (l_metric w) (bus (apcape_addresses ! i)))) [0..<n_lines]"

text \<open>How long a round sleeps: what is left of the period.\<close>

definition apcape_sleep :: "int \<Rightarrow> int \<Rightarrow> int" where
  "apcape_sleep max_freq elapsed = (let period = 1000000 div max_freq in if elapsed < period then period - elapsed else 0)"

section \<open>Facts\<close>

text \<open>The 16 bits of a register.\<close>

definition reg_val :: "byte \<Rightarrow> byte \<Rightarrow> nat" where
  "reg_val hi lo = unat hi * 256 + unat lo"

lemma reg_val_less: "reg_val hi lo < 65536"
proof -
  have "unat hi \<le> 255" "unat lo \<le> 255" using unat_byte_less [of hi] unat_byte_less [of lo] by linarith+
  then show ?thesis by (simp add: reg_val_def)
qed

lemma unat_of_int_16: "unat (of_int x :: 16 word) = nat (x mod 65536)"
  by (simp add: unsigned_of_int take_bit_eq_mod)

lemma high_bit: "drop_bit 7 hi = (1 :: byte) \<longleftrightarrow> 128 \<le> unat hi"
proof -
  have "drop_bit 7 hi = (1 :: byte) \<longleftrightarrow> unat (drop_bit 7 hi) = 1"
    by (metis unsigned_1 unsigned_word_eqI)
  also have "\<dots> \<longleftrightarrow> unat hi div 128 = 1"
    by (simp add: drop_bit_eq_div unat_div_distrib)
  also have "\<dots> \<longleftrightarrow> 128 \<le> unat hi" using unat_byte_less [of hi] by (auto simp: div_nat_eqI simp del: unat_byte_less)
  finally show ?thesis .
qed

text \<open>
  The conversion from two's complement is undone by the unsigned return types: every register
  reads as its unsigned value.
\<close>

lemma twosToInt_mod: "nat (twosToInt x 16 mod 65536) = nat (x mod 65536)"
  by (simp add: twosToInt_def)

lemma of_nat_16:
  "n < 65536 \<Longrightarrow> unat (of_nat n :: 16 word) = n" "n < 65536 \<Longrightarrow> uint (of_nat n :: 16 word) = int n"
  by (simp_all add: unsigned_of_nat take_bit_eq_mod)

lemma power_register: "getPower_raw (Some (hi, lo)) = register_raw (Some (hi, lo))"
proof -
  let ?v = "int (unat hi * 256 + unat lo)"
  have v: "0 \<le> ?v" "?v < 65536" using reg_val_less [of hi lo] unfolding reg_val_def by linarith+
  have "sint (of_int x :: 32 word) = x" if "0 \<le> x" "x < 65536" for x
    using that by (simp add: signed_of_int signed_take_bit_int_eq_self)
  note s = this [OF v]
  have u: "ucast (of_int x :: 32 word) = (of_int x :: 16 word)" for x
    by (rule bit_word_eqI) (simp add: bit_ucast_iff bit_word_of_int_iff)
  have "int (unat (of_int x :: 16 word)) = x" if "0 \<le> x" "x < 65536" for x using that by (simp add: unat_of_int_16)
  note t = this [OF v]
  show ?thesis
    unfolding getPower_raw_def register_raw_def option.case prod.case Let_def s u t ..
qed

text \<open>
  C39: The shunt, current and power registers read as unsigned 16-bit numbers, whatever the sign
  bit says: the conversion from two's complement is undone by the unsigned return types.
\<close>

theorem register_raw_val:
  "unat (getShuntVoltage_raw (Some (hi, lo))) = unat hi * 256 + unat lo \<and>
   getCurrent_raw (Some (hi, lo)) = getShuntVoltage_raw (Some (hi, lo)) \<and>
   getPower_raw (Some (hi, lo)) = getShuntVoltage_raw (Some (hi, lo))"
proof (intro conjI)
  show "unat (getShuntVoltage_raw (Some (hi, lo))) = unat hi * 256 + unat lo"
    using reg_val_less [of hi lo]
    by (simp add: getShuntVoltage_raw_def register_raw_def unat_of_int_16 twosToInt_mod Let_def of_nat_16
        flip: reg_val_def)
  show "getPower_raw (Some (hi, lo)) = getShuntVoltage_raw (Some (hi, lo))"
    by (simp add: getShuntVoltage_raw_def power_register)
qed (simp add: getShuntVoltage_raw_def getCurrent_raw_def)

lemma bus_voltage_low:
  assumes "unat hi < 128"
  shows "unat (getBusVoltage_raw (Some (hi, lo))) = reg_val hi lo div 8 * 4"
proof -
  have "reg_val hi lo div 8 * 4 < 65536" using reg_val_less [of hi lo] by linarith
  moreover have "drop_bit 3 (int (reg_val hi lo)) * 4 = int (reg_val hi lo div 8 * 4)"
    by (simp add: drop_bit_eq_div zdiv_int)
  ultimately have "unat (to_ushort (drop_bit 3 (int (reg_val hi lo)) * 4)) = reg_val hi lo div 8 * 4"
    using of_nat_16(1) by (metis of_int_of_nat_eq)
  then show ?thesis
    using assms by (simp add: getBusVoltage_raw_def high_bit reg_val_def)
qed

lemma bus_voltage_high:
  assumes "128 \<le> unat hi"
  shows "unat (getBusVoltage_raw (Some (hi, lo))) = reg_val hi lo div 4096"
proof -
  have "unat (drop_bit 12 w) = unat w div 4096" for w :: "16 word"
    by (simp add: drop_bit_eq_div unat_div_distrib)
  then show ?thesis
    using assms reg_val_less [of hi lo]
    by (simp add: getBusVoltage_raw_def high_bit Let_def unat_of_int_16 twosToInt_mod of_nat_16 flip: reg_val_def)
qed

text \<open>
  The bus voltage register: below half range, the upper 13 bits in steps of 4 mV; above it
  only the top four bits are left, since the shift distance is 3 * 4 instead of 3.
\<close>

lemma bus_voltage_val:
  "unat (getBusVoltage_raw (Some (hi, lo))) =
     (if unat hi < 128 then (unat hi * 256 + unat lo) div 8 * 4 else (unat hi * 256 + unat lo) div 4096)"
  using bus_voltage_low [of hi lo] bus_voltage_high [of hi lo] by (simp add: reg_val_def)

text \<open>
  C0: A round of the APCape driver reads every monitor in turn and never leaves the map of lines,
  when the device's lines are declared; each value is the one the line's metric selects.
\<close>

theorem apcape_round_Ok:
  assumes "\<forall>i < n. amap_get lines (int i) \<noteq> None"
  shows "apcape_round n lines bus =
    Ok (map (\<lambda>i. apcape_value (l_metric (the (amap_get lines (int i)))) (bus (apcape_addresses ! i))) [0..<n])"
  unfolding apcape_round_def by (rule map_r_map) (use assms in auto)

text \<open>An instance.\<close>

theorem apcape_round_Ok_witness:
  "apcape_round 1 [(0, Line_new [] [] M_voltage 0 0 Computer_default 0 0)] (\<lambda>i r. Some (0x12, 0x34)) =
    Ok [d_of_f (milli (f_of_ushort (getBusVoltage_raw (Some (0x12, 0x34)))))]"
  using apcape_round_Ok [of 1 "[(0, Line_new [] [] M_voltage 0 0 Computer_default 0 0)]" "\<lambda>i r. Some (0x12, 0x34)"]
  by (simp add: apcape_value_def Line_new_def getBusVoltage_V_def)

text \<open>The two bytes written to the configuration register are, as one word, the chosen setting of every field.\<close>

lemma calibration_fields:
  "\<exists>hi lo. setCalibration_32V_4_5A ! 1 = (reg_config, [hi, lo]) \<and>
     (let w = of_nat (unat hi * 256 + unat lo) in w AND config_reset = 0 \<and>
        map (\<lambda>(f, mask, settings). (f, map fst (filter (\<lambda>(n, v). v = w AND mask) settings))) config_fields =
          [(''BVOLTAGERANGE'', [''32V'']), (''GAIN'', [''8_320MV'']), (''BADCRES'', [''12BIT'']),
           (''SADCRES'', [''12BIT_1S_532US'']), (''MODE'', [''SANDBVOLT_CONTINUOUS''])])"
  by (simp add: setCalibration_32V_4_5A_def config_word_def config_bvoltage_32v_def config_gain_8_320mv_def
      config_badcres_12bit_def config_sadcres_12bit_1s_def config_mode_sandbvolt_continuous_def config_fields_def
      config_reset_def Let_def)

end
