(* ===== verification/Sessions.thy ===== *)
theory Sessions
  imports Measurement Info
begin

text \<open>
  The code of a whole connection against the transition system: what a connection's thread does,
  run on its own, is a sequence of the steps of \<open>System\<close>; so what is invariant under the steps
  holds around every connection. Also the bytes of a reply to \<open>get\<close>.
\<close>

section \<open>A session is a sequence of steps\<close>

inductive steps :: "sys \<Rightarrow> sys \<Rightarrow> bool" where
  refl: "steps s s"
| snoc: "steps s s1 \<Longrightarrow> sys_step s1 ev s2 \<Longrightarrow> steps s s2"

lemma steps_trans: "steps s1 s2 \<Longrightarrow> steps s s1 \<Longrightarrow> steps s s2"
  by (induction rule: steps.induct) (auto intro: steps.snoc)

lemma steps_one: "sys_step s ev s' \<Longrightarrow> steps s s'"
  by (rule steps.snoc [OF steps.refl])

lemma conn_of_live [simp]: "conn_of (cn_server c) (live_of c) = c"
  by (simp add: conn_of_def live_of_def)

lemma live_of_conn [simp]: "live_of (conn_of srv v) = v"
  by (simp add: conn_of_def live_of_def)

text \<open>
  The loop of a session: when it returns, its rounds were handled requests; when it throws, all
  but the last were.
\<close>

lemma loop_steps:
  assumes "counter_loop n (conn_of srv v) = (r, c)"
  shows "(r = Ok () \<longrightarrow> \<not> ct_running (cn_counter c) \<and>
      steps \<lparr>sy_server = srv, sy_live = ps @ v # qs\<rparr> \<lparr>sy_server = cn_server c, sy_live = ps @ live_of c # qs\<rparr>) \<and>
    (\<forall>e. r = Throw e \<longrightarrow> (\<exists>srv' v'. ct_running (lv_counter v') \<and> session_step (conn_of srv' v') = (Throw e, c) \<and>
      steps \<lparr>sy_server = srv, sy_live = ps @ v # qs\<rparr> \<lparr>sy_server = srv', sy_live = ps @ v' # qs\<rparr>))"
  using assms
proof (induction n arbitrary: srv v)
  case (Suc n)
  show ?case
  proof (cases "ct_running (lv_counter v)")
    case run: True
    obtain q c1 where q: "session_step (conn_of srv v) = (q, c1)" by (cases "session_step (conn_of srv v)")
    show ?thesis
    proof (cases q)
      case (Ok u)
      let ?s1 = "\<lparr>sy_server = cn_server c1, sy_live = ps @ live_of c1 # qs\<rparr>"
      have "counter_loop n (conn_of (cn_server c1) (live_of c1)) = (r, c)"
        using Suc.prems run q Ok by (simp add: bind_p_def then_p_def)
      note IH = Suc.IH [OF this]
      have one: "steps \<lparr>sy_server = srv, sy_live = ps @ v # qs\<rparr> ?s1"
        using sys_step.handle [OF run, of srv c1] q Ok by (intro steps_one) simp
      show ?thesis
      proof (intro conjI impI allI)
        assume "r = Ok ()"
        then show "\<not> ct_running (cn_counter c)"
          "steps \<lparr>sy_server = srv, sy_live = ps @ v # qs\<rparr> \<lparr>sy_server = cn_server c, sy_live = ps @ live_of c # qs\<rparr>"
          using IH steps_trans [OF _ one] by simp_all
      next
        fix e assume "r = Throw e"
        then obtain srv' v' where "ct_running (lv_counter v')" "session_step (conn_of srv' v') = (Throw e, c)"
            "steps ?s1 \<lparr>sy_server = srv', sy_live = ps @ v' # qs\<rparr>"
          using IH by blast
        then show "\<exists>srv' v'. ct_running (lv_counter v') \<and> session_step (conn_of srv' v') = (Throw e, c) \<and>
            steps \<lparr>sy_server = srv, sy_live = ps @ v # qs\<rparr> \<lparr>sy_server = srv', sy_live = ps @ v' # qs\<rparr>"
          using steps_trans [OF _ one] by blast
      qed
    next
      case (Throw e)
      then show ?thesis using Suc.prems run q by (auto simp: bind_p_def then_p_def intro: steps.refl)
    next
      case (Undef u)
      then show ?thesis using Suc.prems run q by (auto simp: bind_p_def then_p_def)
    qed
  next
    case False
    then have "r = Ok ()" "c = conn_of srv v" using Suc.prems by (auto simp: bind_p_def)
    then show ?thesis using False by (simp add: steps.refl)
  qed
qed auto

lemma give_up_reply:
  "reply ERROR c = (r, c') \<Longrightarrow>
     give_up c = (if r = Ok () then cn_server (snd (counter_dtor c')) else cn_server c')"
  by (cases r) (simp_all add: give_up_def)

text \<open>The session as a whole: it leaves the other sessions alone and ends in a reachable state.\<close>

lemma run_steps:
  assumes run: "counter_run (conn_of srv v) = (r, c)" and nu: "\<forall>u. r \<noteq> Undef u"
  shows "steps \<lparr>sy_server = srv, sy_live = ps @ v # qs\<rparr>
    \<lparr>sy_server = (if r = Ok () then cn_server (snd (counter_dtor c)) else cn_server c), sy_live = ps @ qs\<rparr>"
proof -
  obtain n where "counter_run (conn_of srv v) = catch_p (counter_loop n) (\<lambda>_. reply ERROR) (conn_of srv v)"
    unfolding counter_run_def by blast
  moreover obtain q c1 where q: "counter_loop n (conn_of srv v) = (q, c1)" by (cases "counter_loop n (conn_of srv v)")
  ultimately have rq: "(r, c) = (case q of Throw e \<Rightarrow> reply ERROR c1 | _ \<Rightarrow> (q, c1))"
    using run by (simp add: catch_p_def split: res.split)
  note L = loop_steps [OF q, of ps qs]
  show ?thesis
  proof (cases q)
    case (Ok u)
    then have c: "r = Ok ()" "c = c1" using rq by simp_all
    have "sys_step \<lparr>sy_server = cn_server c, sy_live = ps @ live_of c # qs\<rparr> Left
        \<lparr>sy_server = cn_server (snd (counter_dtor c)), sy_live = ps @ qs\<rparr>"
      using sys_step.finish [of "live_of c" "cn_server c" "fst (counter_dtor c)" "snd (counter_dtor c)"] L Ok c
      by simp
    then show ?thesis using L Ok c steps.snoc by fastforce
  next
    case (Throw e)
    then obtain srv' v' where v': "ct_running (lv_counter v')" "session_step (conn_of srv' v') = (Throw e, c1)"
        "steps \<lparr>sy_server = srv, sy_live = ps @ v # qs\<rparr> \<lparr>sy_server = srv', sy_live = ps @ v' # qs\<rparr>"
      using L by blast
    have "give_up c1 = (if r = Ok () then cn_server (snd (counter_dtor c)) else cn_server c)"
      using rq Throw give_up_reply [of c1 r c] by simp
    then show ?thesis using steps.snoc [OF v'(3) sys_step.fail [OF v'(1,2)]] by simp
  next
    case (Undef u)
    then show ?thesis using rq nu by simp
  qed
qed

lemma dtor_not_Throw: "fst (counter_dtor c) \<noteq> Throw e"
proof -
  have w: "fold_r (\<lambda>l. with_line l f) ls d \<noteq> Throw e" for f ls d
    by (induction ls arbitrary: d) (auto simp: with_line_def split: option.split)
  have "deregister_counter ct d \<noteq> Throw e" for ct d
  proof (cases "fold_r (\<lambda>l. with_line l line_release) (ct_lines ct) d")
    case (Throw x)
    then show ?thesis using w [of line_release "ct_lines ct" d] by (auto simp: deregister_counter_def split: option.split)
  qed (auto simp: deregister_counter_def split: option.split)
  then show ?thesis by (auto simp: counter_dtor_def bind_p_def on_dev_def split: option.split res.split)
qed

lemma session_steps:
  assumes c0: "cn_counter c = counter_init sid" and run: "counter_session c = (r, c')" and nu: "\<forall>u. r \<noteq> Undef u"
  shows "steps \<lparr>sy_server = cn_server c, sy_live = vs\<rparr> \<lparr>sy_server = cn_server c', sy_live = vs\<rparr>"
proof -
  let ?v = "\<lparr>lv_sock = cn_sock c, lv_peer = cn_peer c, lv_counter = counter_init sid\<rparr>"
  have c: "conn_of (cn_server c) ?v = c" using c0 by (simp add: conn_of_def)
  obtain q c1 where q: "counter_create c = (q, c1)" by (cases "counter_create c")
  show ?thesis
  proof (cases q)
    case (Ok u)
    have created: "steps \<lparr>sy_server = cn_server c, sy_live = vs\<rparr> \<lparr>sy_server = cn_server c1, sy_live = vs @ live_of c1 # []\<rparr>"
      using sys_step.create [of "cn_server c" "cn_sock c" "cn_peer c" sid c1 vs] q Ok c by (intro steps_one) simp
    obtain r2 c2 where r2: "counter_run c1 = (r2, c2)" by (cases "counter_run c1")
    have ses: "(r, c') = (case r2 of Ok _ \<Rightarrow> counter_dtor c2 | _ \<Rightarrow> (r2, c2))"
      using run by (simp add: counter_session_def counter_ctor_def then_p_def bind_p_def catch_p_def q Ok r2)
        (cases r2; auto)
    have nu2: "\<forall>u. r2 \<noteq> Undef u" using ses nu by auto
    have "cn_server c' = (if r2 = Ok () then cn_server (snd (counter_dtor c2)) else cn_server c2)"
    proof (cases r2)
      case (Ok a)
      then have "counter_dtor c2 = (r, c')" using ses by simp
      then show ?thesis by (simp add: Ok)
    qed (use ses in auto)
    then show ?thesis
      using steps_trans [OF run_steps [of "cn_server c1" "live_of c1" r2 c2 vs "[]"] created] r2 nu2 by simp
  next
    case (Throw e)
    obtain q2 c2 where q2: "reply ERROR c1 = (q2, c2)" by (cases "reply ERROR c1")
    have ses: "(r, c') = (case q2 of Ok _ \<Rightarrow> counter_dtor c2 | Throw e \<Rightarrow> (Throw e, c2) | Undef u \<Rightarrow> (Undef u, c2))"
      using run by (simp add: counter_session_def counter_ctor_def then_p_def bind_p_def catch_p_def q Throw q2)
        (cases q2; auto)
    have "cn_server c' = (if q2 = Ok () then cn_server (snd (counter_dtor c2)) else cn_server c2)"
    proof (cases q2)
      case (Ok a)
      then have "counter_dtor c2 = (r, c')" using ses by simp
      then show ?thesis by (simp add: Ok)
    qed (use ses in auto)
    then have "cn_server c' = give_up c1" by (simp add: give_up_reply [OF q2])
    then show ?thesis
      using sys_step.reject [of "cn_server c" "cn_sock c" "cn_peer c" sid e c1 vs] q Throw c
      by (intro steps_one) simp
  next
    case (Undef u)
    then show ?thesis
      using run nu by (auto simp: counter_session_def counter_ctor_def then_p_def bind_p_def catch_p_def q)
  qed
qed

section \<open>A whole connection\<close>

text \<open>No exception leaves the thread of a connection, whatever arrives on its socket.\<close>

lemma connection_ends: "fst (connection fuel peers live c) \<noteq> Throw e"
  by (auto simp: connection_def catch_p_def split: prod.split res.split)

lemma info_run_same: "info_run fuel peers live op c = (r, c') \<Longrightarrow> same_shared c c'"
  using info_run_keeps [of fuel peers live op] unfolding keeps_def same_shared_def
  by (metis prod.inject snd_conv)

lemma connection_steps:
  assumes c0: "cn_counter c = counter_init sid" and run: "connection fuel peers live c = (r, c')" and nu: "\<forall>u. r \<noteq> Undef u"
  shows "steps \<lparr>sy_server = cn_server c, sy_live = vs\<rparr> \<lparr>sy_server = cn_server c', sy_live = vs\<rparr>"
proof (cases "cn_peer c")
  case None
  then have "c' = c" using run by (simp add: connection_def catch_p_def then_p_def bind_p_def remote_endpoint_def)
  then show ?thesis by (simp add: steps.refl)
next
  case (Some p)
  obtain q c1 where q: "on_sock receive_int c = (q, c1)" by (cases "on_sock receive_int c")
  then have s1: "same_shared c c1" by (auto simp: on_sock_def same_shared_def split: prod.splits)
  show ?thesis
  proof (cases q)
    case (Ok op)
    let ?body = "if op = op_code CREATE then counter_session
        else if op = op_code INFO_DEVICE \<or> op = op_code LIST_DEVICES \<or> op = op_code CMD_STATUS \<or> op = op_code READ_DEVICE
        then info_run fuel peers live op else reply ERROR"
    obtain b c2 where b: "?body c1 = (b, c2)" by (cases "?body c1")
    have rb: "c' = c2 \<and> (\<forall>u. b \<noteq> Undef u)"
      using run nu b by (cases b)
        (auto simp: connection_def catch_p_def then_p_def bind_p_def remote_endpoint_def Some q Ok)
    have "same_shared c1 c2 \<or> counter_session c1 = (b, c2)"
      using b info_run_same [of fuel peers live op c1] reply_same [of ERROR c1] by (auto split: if_splits)
    then show ?thesis
    proof
      assume "same_shared c1 c2"
      then show ?thesis using s1 rb by (simp add: same_shared_def steps.refl)
    next
      assume "counter_session c1 = (b, c2)"
      then have "steps \<lparr>sy_server = cn_server c1, sy_live = vs\<rparr> \<lparr>sy_server = cn_server c2, sy_live = vs\<rparr>"
        by (rule session_steps [rotated]) (use rb s1 c0 in \<open>auto simp: same_shared_def\<close>)
      then show ?thesis using s1 rb by (simp add: same_shared_def)
    qed
  next
    case (Throw e)
    then have "c' = c1" using run
      by (simp add: connection_def catch_p_def then_p_def bind_p_def remote_endpoint_def Some q)
    then show ?thesis using s1 by (simp add: same_shared_def steps.refl)
  next
    case (Undef u)
    then show ?thesis using run nu
      by (auto simp: connection_def catch_p_def then_p_def bind_p_def remote_endpoint_def Some q)
  qed
qed

section \<open>The bytes of a reply\<close>

text \<open>
  The reply to get has one exact layout: the number of samples, the number of set boundaries,
  the number of lines, then the boundaries and the samples.
\<close>

lemma counter_get_bytes:
  assumes "conn_dev c = Some d" and "ct_status (cn_counter c) = INACTIVE" and "s_room (cn_sock c) = None"
    and "get_reply (cn_counter c) d = Ok (ns, ws)"
  shows "counter_get c = (Ok (), c\<lparr>cn_sock := (cn_sock c)\<lparr>s_out := s_out (cn_sock c) @
    int_bytes (int (length ws)) @ int_bytes (int (length ns)) @ int_bytes (int (length (lines_of c))) @
    concat (map int_bytes ns) @ concat (map double_bytes ws)\<rparr>\<rparr>)"
  using assms
  by (simp add: counter_get_def bind_p_def [of "gets_p _"] bind_p_def [of "read_dev _"] read_dev_apply
      then_p_def bind_p_def on_sock_def)

end
