(* ===== verification/Demo.thy ===== *)
theory Demo
  imports Sessions
begin

text \<open>
  A small concrete server, one WattsUp meter with one line, and the states of one client's session
  on it. The properties are instantiated on it.
\<close>

definition demo_line :: line where
  "demo_line = Line_new ''l0'' ''outlet'' M_power 0 0 Computer_default 0 0"

definition demo_device :: device where
  "demo_device = (Device_new ''W'' ''/dev/ttyUSB0'' 1 1 False WattsUp)\<lparr>d_lines := [(0, demo_line)]\<rparr>"

definition demo_server :: server where
  "demo_server = \<lparr>sv_IP = ''0.0.0.0'', sv_port = 6526, sv_daemonize = False,
     sv_devices = [(''W'', demo_device)], sv_nextid = 0\<rparr>"

definition demo_client :: "bool \<Rightarrow> live" where
  "demo_client a = \<lparr>lv_sock = \<lparr>s_in = create_request ''W'' 1 a [CHR 0x01], s_out = [], s_room = None\<rparr>,
     lv_peer = Some ''10.0.0.1'', lv_counter = counter_init 0\<rparr>"

definition demo_conn :: "bool \<Rightarrow> conn" where
  "demo_conn a = admitted ''W'' 1 a [CHR 0x01] [] demo_device (conn_of demo_server (demo_client a))"

definition demo_live :: "bool \<Rightarrow> live" where
  "demo_live a = live_of (demo_conn a)"

definition demo_state :: "bool \<Rightarrow> sys" where
  "demo_state a = \<lparr>sy_server = cn_server (demo_conn a), sy_live = [demo_live a]\<rparr>"

lemma demo_device_ok: "dev_ok demo_device"
  by (simp add: dev_ok_def demo_device_def Device_new_def)

lemma demo_lines: "set_lines [CHR 0x01] demo_device = [0]"
  by (simp add: set_lines_def demo_device_def Device_new_def upt_rec char_byte_def)

lemma demo_create: "counter_create (conn_of demo_server (demo_client a)) = (Ok (), demo_conn a)"
proof -
  have "counter_create (conn_of demo_server (demo_client a)) =
      (Ok (), admitted ''W'' 1 a [CHR 0x01] [] demo_device (conn_of demo_server (demo_client a)))"
    by (rule counter_create_admitted [where p = "''10.0.0.1''"])
      (use demo_device_ok in \<open>simp_all add: conn_of_def demo_client_def demo_server_def valid_string_def
         demo_device_def Device_new_def\<close>)
  then show ?thesis by (simp add: demo_conn_def)
qed

text \<open>The states of the session, written out.\<close>

definition demo_counter :: "bool \<Rightarrow> counter" where
  "demo_counter a = \<lparr>ct_sock = 0, ct_running = True, ct_aggregate = a, ct_interval = 1, ct_status = INACTIVE,
     ct_frequency = 1, ct_lines = [0], ct_sets = [], ct_sizes = [], ct_dev = ''W'', ct_id = 1, ct_registered = False\<rparr>"

definition demo_dev :: "bool \<Rightarrow> int \<Rightarrow> double list \<Rightarrow> device" where
  "demo_dev a k xs = demo_device\<lparr>d_lines := [(0, demo_line\<lparr>l_enabled := 1, l_active := k, l_data := xs\<rparr>)],
     d_counter_map := [(1, demo_counter a)]\<rparr>"

definition demo_srv :: "bool \<Rightarrow> int \<Rightarrow> double list \<Rightarrow> server" where
  "demo_srv a k xs = demo_server\<lparr>sv_nextid := 1, sv_devices := [(''W'', demo_dev a k xs)]\<rparr>"

lemmas demo_defs = demo_dev_def demo_srv_def demo_counter_def demo_device_def Device_new_def
  demo_line_def Line_new_def demo_server_def

lemma demo_conn_fields:
  "cn_server (demo_conn a) = demo_srv a 0 []"
  "lv_counter (demo_live a) = (demo_counter a)\<lparr>ct_registered := True\<rparr>"
  "s_room (lv_sock (demo_live a)) = None"
proof -
  have i: "i32 1 = 1" by (simp add: i32_def)
  show "cn_server (demo_conn a) = demo_srv a 0 []"
    "lv_counter (demo_live a) = (demo_counter a)\<lparr>ct_registered := True\<rparr>"
    "s_room (lv_sock (demo_live a)) = None"
    unfolding demo_conn_def demo_live_def admitted_def Let_def demo_lines
    by (simp_all add: conn_of_def live_of_def demo_client_def counter_init_def demo_defs on_lines_def line_enable_def i)
qed

lemma demo_idle: "idle (sv_devices demo_server)"
proof -
  have "devs_ok (sv_devices demo_server)"
    using demo_device_ok by (simp add: devs_ok_def demo_server_def)
  then show ?thesis by (auto simp: idle_def demo_defs split: if_splits)
qed

lemma demo_limits: "0 \<le> k \<Longrightarrow> k < 2147483647 \<Longrightarrow> length xs < 2147483648 \<Longrightarrow> below_limits (sv_devices (demo_srv a k xs))"
  by (auto simp: below_limits_def demo_defs split: if_splits)

lemma demo_server_limits: "below_limits (sv_devices demo_server)"
  by (auto simp: below_limits_def demo_defs split: if_splits)

lemma demo_created: "sys_step \<lparr>sy_server = demo_server, sy_live = []\<rparr> Created (demo_state a)"
  using sys_step.create [of demo_server _ _ 0 "demo_conn a" "[]"] demo_create [of a]
  by (simp add: demo_state_def demo_live_def demo_client_def)

lemma demo_reached: "reaches \<lparr>sy_server = demo_server, sy_live = []\<rparr> (demo_state a)"
  using reaches.step [OF reaches.start _ demo_created] demo_server_limits by simp

lemma demo_inv: "inv (demo_state a)"
  using inv_reaches [OF demo_reached] inv_idle [OF demo_idle] by blast

section \<open>A measurement on it\<close>

definition demo_active :: "bool \<Rightarrow> live" where
  "demo_active a = live_of (snd (counter_start (conn_of (demo_srv a 0 []) (demo_live a))))"

lemma i32_small [simp]: "i32 0 = 0" "i32 1 = 1" "i32 2 = 2"
  by (simp_all add: i32_def)

lemma demo_conn_ok:
  assumes "lv_counter v = (demo_counter a)\<lparr>ct_registered := r, ct_status := st, ct_sizes := sz, ct_sets := ss\<rparr>"
  shows "conn_ok (conn_of (demo_srv a k xs) v) (demo_dev a k xs)"
  using assms by (simp add: conn_ok_def conn_dev_def conn_of_def demo_defs dev_ok_def has_lines_def amap_ok_def)

lemma demo_start:
  "counter_start (conn_of (demo_srv a 0 []) (demo_live a)) = (Ok (), conn_of (demo_srv a 1 []) (demo_active a))"
  "lv_counter (demo_active a) = (demo_counter a)\<lparr>ct_registered := True, ct_status := ACTIVE,
     ct_sizes := [(0, 0)], ct_sets := [([(0, 0)], None)]\<rparr>"
  "s_room (lv_sock (demo_active a)) = None"
proof -
  let ?c = "conn_of (demo_srv a 0 []) (demo_live a)"
  have "conn_ok ?c (demo_dev a 0 [])" by (rule demo_conn_ok [where r = True and st = INACTIVE and sz = "[]" and ss = "[]"])
      (simp add: demo_conn_fields demo_counter_def)
  then have s: "counter_start ?c = reply SUCCESS (started False (demo_dev a 0 []) ?c)"
    by (rule counter_start_inactive) (simp add: demo_conn_fields demo_counter_def)
  have r: "s_room (cn_sock ?c) = None" by (simp add: conn_of_def demo_conn_fields)
  show "counter_start ?c = (Ok (), conn_of (demo_srv a 1 []) (demo_active a))"
    "lv_counter (demo_active a) = (demo_counter a)\<lparr>ct_registered := True, ct_status := ACTIVE,
       ct_sizes := [(0, 0)], ct_sets := [([(0, 0)], None)]\<rparr>"
    "s_room (lv_sock (demo_active a)) = None"
    using r unfolding demo_active_def s
    by (simp_all add: started_def Let_def reply_room demo_conn_fields put_dev_def conn_of_def live_of_def
        on_lines_def line_activate_def sizes_of_def line_get_size_def demo_defs)
qed

definition demo_final :: "bool \<Rightarrow> double list \<Rightarrow> live" where
  "demo_final a xs = live_of (snd (counter_stop (conn_of (demo_srv a 1 xs) (demo_active a))))"

lemma demo_stop:
  assumes "length xs = 2"
  shows "counter_stop (conn_of (demo_srv a 1 xs) (demo_active a)) = (Ok (), conn_of (demo_srv a 0 xs) (demo_final a xs))"
    and "lv_counter (demo_final a xs) = (demo_counter a)\<lparr>ct_registered := True, ct_status := INACTIVE,
     ct_sizes := [(0, 2)], ct_sets := [([(0, 0)], Some [(0, 2)])]\<rparr>"
proof -
  let ?c = "conn_of (demo_srv a 1 xs) (demo_active a)"
  have "conn_ok ?c (demo_dev a 1 xs)" by (rule demo_conn_ok [OF demo_start(2)])
  then have s: "counter_stop ?c = reply SUCCESS (stopped (demo_dev a 1 xs) ?c)"
    by (rule counter_stop_active) (simp_all add: demo_start(2) demo_counter_def)
  have r: "s_room (cn_sock ?c) = None" by (simp add: conn_of_def demo_start(3))
  show "counter_stop ?c = (Ok (), conn_of (demo_srv a 0 xs) (demo_final a xs))"
    "lv_counter (demo_final a xs) = (demo_counter a)\<lparr>ct_registered := True, ct_status := INACTIVE,
     ct_sizes := [(0, 2)], ct_sets := [([(0, 0)], Some [(0, 2)])]\<rparr>"
    using r assms unfolding demo_final_def s
    by (simp_all add: stopped_def Let_def reply_room demo_start(2) put_dev_def conn_of_def live_of_def
        on_lines_def line_deactivate_def sizes_of_def line_get_size_def demo_defs)
qed

lemma demo_sample:
  "sys_step \<lparr>sy_server = demo_srv a 1 xs, sy_live = vs\<rparr> (Sampled ''W'' [x])
     \<lparr>sy_server = demo_srv a 1 (xs @ [x]), sy_live = vs\<rparr>"
proof -
  have "push_back_data [x] (demo_dev a 1 xs) = Ok (demo_dev a 1 (xs @ [x]))"
    by (simp add: push_back_data_def demo_defs line_is_active_def line_push_back_data_def)
  from sys_step.sample [of "demo_srv a 1 xs" "''W''" "demo_dev a 1 xs" "[x]", OF _ _ this, of vs]
  show ?thesis by (simp add: demo_srv_def) (simp add: demo_dev_def demo_device_def Device_new_def)
qed

lemma demo_run:
  "run_with (demo_active a) \<lparr>sy_server = demo_srv a 1 [], sy_live = [demo_active a]\<rparr> [[x], [y]]
     \<lparr>sy_server = demo_srv a 1 [x, y], sy_live = [demo_active a]\<rparr>"
proof -
  let ?s = "\<lambda>xs. \<lparr>sy_server = demo_srv a 1 xs, sy_live = [demo_active a]\<rparr>"
  have n: "ct_dev (lv_counter (demo_active a)) = ''W''" by (simp add: demo_start(2) demo_counter_def)
  have "run_with (demo_active a) (?s []) [] (?s [])" by (rule run_with.stay) simp
  from run_with.go [OF this _ demo_sample] have "run_with (demo_active a) (?s []) [[x]] (?s [x])"
    using demo_limits [of 1 "[]" a] by (simp add: n)
  from run_with.go [OF this _ demo_sample] show ?thesis
    using demo_limits [of 1 "[x]" a] by (simp add: n)
qed

lemma demo_measurement:
  "measurement (demo_state a) (demo_live a) [[x], [y]] (demo_final a [x, y])
     \<lparr>sy_server = demo_srv a 0 [x, y], sy_live = [demo_final a [x, y]]\<rparr>"
proof -
  have live: "live_of (conn_of srv v) = v" for srv v by (simp add: live_of_def conn_of_def)
  have st: "demo_state a = \<lparr>sy_server = demo_srv a 0 [], sy_live = [] @ demo_live a # []\<rparr>"
    by (simp add: demo_state_def demo_conn_fields)
  have stay: "run_with (demo_final a [x, y]) \<lparr>sy_server = demo_srv a 0 [x, y], sy_live = [] @ demo_final a [x, y] # []\<rparr> []
      \<lparr>sy_server = demo_srv a 0 [x, y], sy_live = [demo_final a [x, y]]\<rparr>"
    using run_with.stay [of "demo_final a [x, y]" "\<lparr>sy_server = demo_srv a 0 [x, y], sy_live = [demo_final a [x, y]]\<rparr>"]
    by simp
  show ?thesis
    unfolding measurement_def
    apply (rule exI [of _ "[]"], rule exI [of _ "[]"], rule exI [of _ "conn_of (demo_srv a 1 []) (demo_active a)"])
    apply (rule exI [of _ "\<lparr>sy_server = demo_srv a 1 [x, y], sy_live = [] @ demo_active a # []\<rparr>"])
    apply (rule exI [of _ "[]"], rule exI [of _ "[]"], rule exI [of _ "conn_of (demo_srv a 0 [x, y]) (demo_final a [x, y])"])
    apply (rule exI [of _ "[]"])
    using st demo_start(1) [of a] demo_run [of a x y] demo_stop(1) [of "[x, y]" a] stay demo_limits
    by (simp add: live) (simp add: demo_conn_fields demo_counter_def)
qed

section \<open>A whole connection on it\<close>

definition demo_hello :: "bool \<Rightarrow> conn" where
  "demo_hello a = (let c = conn_of demo_server (demo_client a)
     in c\<lparr>cn_sock := (cn_sock c)\<lparr>s_in := int_bytes (op_code CREATE) @ s_in (cn_sock c)\<rparr>\<rparr>)"

lemma demo_op: "on_sock receive_int (demo_hello a) = (Ok (op_code CREATE), conn_of demo_server (demo_client a))"
proof -
  have "receive_int (cn_sock (demo_hello a)) = (Ok (op_code CREATE),
      (cn_sock (demo_hello a))\<lparr>s_in := s_in (cn_sock (conn_of demo_server (demo_client a)))\<rparr>)"
    by (rule receive_int_in) (simp_all add: demo_hello_def Let_def is_i32_def)
  then show ?thesis by (simp add: on_sock_def demo_hello_def Let_def)
qed

lemma demo_hangup: "\<exists>c'. counter_run (demo_conn a) = (Ok (), c') \<and> cn_server c' = cn_server (demo_conn a) \<and>
    cn_counter c' = cn_counter (demo_conn a)"
proof -
  have "s_in (cn_sock (demo_conn a)) = []" by (simp add: demo_conn_def admitted_def Let_def)
  moreover have "ct_running (cn_counter (demo_conn a))"
    using demo_conn_fields(2) [of a] by (simp add: demo_live_def live_of_def demo_counter_def)
  moreover have "s_room (cn_sock (demo_conn a)) = None"
    using demo_conn_fields(3) [of a] by (simp add: demo_live_def live_of_def)
  ultimately show ?thesis
    by (simp add: counter_run_def catch_p_def bind_p_def then_p_def session_step_def on_sock_def receive_int_def
        receive_raw_def sock_read_def reply_def)
qed

lemma demo_release: "\<exists>c'. counter_dtor c = (Ok (), c')"
  if "cn_server c = cn_server (demo_conn a)" "cn_counter c = cn_counter (demo_conn a)"
proof -
  have "cn_counter c = (demo_counter a)\<lparr>ct_registered := True\<rparr>"
    using demo_conn_fields(2) [of a] that(2) by (simp add: demo_live_def live_of_def)
  then show ?thesis using that(1)
    by (simp add: demo_conn_fields(1) counter_dtor_def bind_p_def on_dev_def conn_dev_def demo_srv_def
        demo_counter_def demo_dev_def deregister_counter_def with_line_def)
qed

lemma demo_connection: "\<exists>c'. connection fuel peers live (demo_hello a) = (Ok (), c')"
proof -
  have p: "cn_peer (demo_hello a) = Some ''10.0.0.1''" by (simp add: demo_hello_def Let_def conn_of_def demo_client_def)
  obtain c1 where c1: "counter_run (demo_conn a) = (Ok (), c1)" "cn_server c1 = cn_server (demo_conn a)"
    "cn_counter c1 = cn_counter (demo_conn a)" using demo_hangup by blast
  obtain c2 where c2: "counter_dtor c1 = (Ok (), c2)" using demo_release [OF c1(2,3)] by blast
  have "counter_session (conn_of demo_server (demo_client a)) = (Ok (), c2)"
    by (simp add: counter_session_def counter_ctor_def then_p_def bind_p_def catch_p_def demo_create c1(1) c2)
  then show ?thesis
    by (simp add: connection_def catch_p_def then_p_def bind_p_def remote_endpoint_def p demo_op)
qed

end
