(* ===== verification/Json_Value.thy ===== *)
theory Json_Value
  imports Numbers
begin

text \<open>
  The JSON values of the bundled JsonCpp (\<open>server/utils/jsoncpp.cpp\<close>): the eight kinds of
  \<open>Json::Value\<close>, their tests, conversions and comparisons, and the access operations of arrays and
  objects. An array is a map from indices, which may have holes, an object a map from strings in
  \<open>memcmp\<close> order. Failed assertions and conversions throw; comments and offsets, which values also
  carry, have no part in any of these operations and are left out.
\<close>

section \<open>Values\<close>

datatype jvalue =
    JNull
  | JInt int
  | JUInt int
  | JReal double
  | JString string
  | JBool bool
  | JArray "(nat \<times> jvalue) list"
  | JObject "(string \<times> jvalue) list"

datatype jtype = nullValue | intValue | uintValue | realValue | stringValue | booleanValue | arrayValue | objectValue

fun jtype_of :: "jvalue \<Rightarrow> jtype" where
  "jtype_of JNull = nullValue"
| "jtype_of (JInt _) = intValue"
| "jtype_of (JUInt _) = uintValue"
| "jtype_of (JReal _) = realValue"
| "jtype_of (JString _) = stringValue"
| "jtype_of (JBool _) = booleanValue"
| "jtype_of (JArray _) = arrayValue"
| "jtype_of (JObject _) = objectValue"

fun jtype_code :: "jtype \<Rightarrow> int" where
  "jtype_code nullValue = 0"
| "jtype_code intValue = 1"
| "jtype_code uintValue = 2"
| "jtype_code realValue = 3"
| "jtype_code stringValue = 4"
| "jtype_code booleanValue = 5"
| "jtype_code arrayValue = 6"
| "jtype_code objectValue = 7"

text \<open>\<open>Value::Value(ValueType)\<close>: a string value made this way has no characters at all.\<close>

fun value_new :: "jtype \<Rightarrow> jvalue" where
  "value_new nullValue = JNull"
| "value_new intValue = JInt 0"
| "value_new uintValue = JUInt 0"
| "value_new realValue = JReal d_zero"
| "value_new stringValue = JString []"
| "value_new arrayValue = JArray []"
| "value_new objectValue = JObject []"
| "value_new booleanValue = JBool False"

abbreviation json_error :: "string \<Rightarrow> 'a res" where
  "json_error m \<equiv> Throw (Runtime_error m)"

section \<open>Ranges\<close>

definition minInt :: int where "minInt = - 2147483648"
definition maxInt :: int where "maxInt = 2147483647"
definition maxUInt :: int where "maxUInt = 4294967295"
definition minInt64 :: int where "minInt64 = - 9223372036854775808"
definition maxInt64 :: int where "maxInt64 = 9223372036854775807"
definition maxUInt64 :: int where "maxUInt64 = 18446744073709551615"

text \<open>
  Comparing a \<open>double\<close> with an integer converts the integer to \<open>double\<close> first, which rounds the 64-bit
  bounds up.
\<close>

definition in_range :: "double \<Rightarrow> int \<Rightarrow> int \<Rightarrow> bool" where
  "in_range d lo hi \<longleftrightarrow> fp_le (d_val (d_of_int lo)) (d_val d) \<and> fp_le (d_val d) (d_val (d_of_int hi))"

definition is_integral_double :: "double \<Rightarrow> bool" where
  "is_integral_double d = (case d_val d of
     NaN \<Rightarrow> False | Inf _ \<Rightarrow> True | Fin s m e \<Rightarrow> 0 \<le> e \<or> m mod 2 ^ nat (- e) = 0)"

definition double_below :: "double \<Rightarrow> int \<Rightarrow> bool" where
  "double_below d hi \<longleftrightarrow> fp_lt (d_val d) (d_val (d_of_int hi))"

definition double_from :: "double \<Rightarrow> int \<Rightarrow> bool" where
  "double_from d lo \<longleftrightarrow> fp_le (d_val (d_of_int lo)) (d_val d)"

fun isInt :: "jvalue \<Rightarrow> bool" where
  "isInt (JInt i) = (minInt \<le> i \<and> i \<le> maxInt)"
| "isInt (JUInt u) = (u \<le> maxInt)"
| "isInt (JReal d) = (in_range d minInt maxInt \<and> is_integral_double d)"
| "isInt _ = False"

fun isUInt :: "jvalue \<Rightarrow> bool" where
  "isUInt (JInt i) = (0 \<le> i \<and> i \<le> maxUInt)"
| "isUInt (JUInt u) = (u \<le> maxUInt)"
| "isUInt (JReal d) = (in_range d 0 maxUInt \<and> is_integral_double d)"
| "isUInt _ = False"

fun isInt64 :: "jvalue \<Rightarrow> bool" where
  "isInt64 (JInt i) = True"
| "isInt64 (JUInt u) = (u \<le> maxInt64)"
| "isInt64 (JReal d) = (double_from d minInt64 \<and> double_below d maxInt64 \<and> is_integral_double d)"
| "isInt64 _ = False"

fun isUInt64 :: "jvalue \<Rightarrow> bool" where
  "isUInt64 (JInt i) = (0 \<le> i)"
| "isUInt64 (JUInt u) = True"
| "isUInt64 (JReal d) = (double_from d 0 \<and> double_below d maxUInt64 \<and> is_integral_double d)"
| "isUInt64 _ = False"

definition isIntegral :: "jvalue \<Rightarrow> bool" where
  "isIntegral v \<longleftrightarrow> isInt64 v \<or> isUInt64 v"

definition isDouble :: "jvalue \<Rightarrow> bool" where
  "isDouble v \<longleftrightarrow> jtype_of v = realValue \<or> isIntegral v"

definition isNumeric :: "jvalue \<Rightarrow> bool" where
  "isNumeric v \<longleftrightarrow> isIntegral v \<or> isDouble v"

definition isNull :: "jvalue \<Rightarrow> bool" where
  "isNull v \<longleftrightarrow> jtype_of v = nullValue"

section \<open>Numbers as text\<close>

text \<open>\<open>"%.<precision>g"\<close>: that many significant digits, at least one, without trailing zeros.\<close>

definition log10_floor :: "nat \<Rightarrow> nat \<Rightarrow> int" where
  "log10_floor n d =
     (if d \<le> n then int (length (dec_digits (n div d))) - 1
      else - int (length (dec_digits ((d + n - 1) div n - 1))))"

definition strip_zeros :: "string \<Rightarrow> string" where
  "strip_zeros ds = rev (dropWhile (\<lambda>c. c = CHR ''0'') (rev ds))"

definition print_g :: "nat \<Rightarrow> fpv \<Rightarrow> string" where
  "print_g precision v = (case v of
     NaN \<Rightarrow> ''nan''
   | Inf neg \<Rightarrow> (if neg then ''-inf'' else ''inf'')
   | Fin neg m e \<Rightarrow> (if neg then ''-'' else []) @
       (if m = 0 then ''0''
        else let p = max 1 precision;
                 (n, d) = (if 0 \<le> e then (m * 2 ^ nat e, 1) else (m, 2 ^ nat (- e)));
                 x0 = log10_floor n d;
                 (a, b) = pow_frac 10 1 (int p - 1 - x0);
                 k0 = rne (n * a) (d * b);
                 (k, x) = (if k0 = 10 ^ p then (10 ^ (p - 1), x0 + 1) else (k0, x0));
                 ds = dec_digits k
             in if x < - 4 \<or> int p \<le> x
                then (let f = strip_zeros (tl ds); ax = nat \<bar>x\<bar>
                      in hd ds # (if f = [] then [] else ''.'' @ f) @ ''e'' @ (if x < 0 then ''-'' else ''+'') @
                         (if ax < 10 then ''0'' else []) @ dec_digits ax)
                else if 0 \<le> x
                then (let f = strip_zeros (drop (nat x + 1) ds)
                      in take (nat x + 1) ds @ (if f = [] then [] else ''.'' @ f))
                else ''0.'' @ replicate (nat (- x) - 1) (CHR ''0'') @ strip_zeros ds))"

definition fixNumericLocale :: "string \<Rightarrow> string" where
  "fixNumericLocale s = map (\<lambda>c. if c = CHR '','' then CHR ''.'' else c) s"

definition double_to_string :: "double \<Rightarrow> bool \<Rightarrow> nat \<Rightarrow> string" where
  "double_to_string value useSpecialFloats precision = fixNumericLocale (case d_val value of
     NaN \<Rightarrow> (if useSpecialFloats then ''NaN'' else ''null'')
   | Inf True \<Rightarrow> (if useSpecialFloats then ''-Infinity'' else ''-1e+9999'')
   | Inf False \<Rightarrow> (if useSpecialFloats then ''Infinity'' else ''1e+9999'')
   | v \<Rightarrow> print_g precision v)"

text \<open>\<open>valueToString\<close> of the integer types writes the digits backwards into a buffer.\<close>

function uintToString :: "nat \<Rightarrow> string \<Rightarrow> string" where
  "uintToString value current =
     (let current' = char_of (value mod 10 + 48) # current
      in if value div 10 \<noteq> 0 then uintToString (value div 10) current' else current')"
  by pat_completeness auto
termination by (relation "measure fst") auto

declare uintToString.simps [simp del]

definition int_to_string :: "int \<Rightarrow> string" where
  "int_to_string value =
     (if value = minInt64 then ''-'' @ uintToString (nat maxInt64 + 1) []
      else if value < 0 then ''-'' @ uintToString (nat (- value)) []
      else uintToString (nat value) [])"

definition bool_to_string :: "bool \<Rightarrow> string" where
  "bool_to_string b = (if b then ''true'' else ''false'')"

section \<open>Conversions\<close>

fun asString :: "jvalue \<Rightarrow> string res" where
  "asString JNull = Ok []"
| "asString (JString s) = Ok s"
| "asString (JBool b) = Ok (bool_to_string b)"
| "asString (JInt i) = Ok (int_to_string i)"
| "asString (JUInt u) = Ok (uintToString (nat u) [])"
| "asString (JReal d) = Ok (double_to_string d False 17)"
| "asString _ = json_error ''Type is not convertible to string''"

text \<open>Truncation of a \<open>double\<close>, undefined when the result does not fit.\<close>

definition trunc_to :: "int \<Rightarrow> int \<Rightarrow> double \<Rightarrow> int res" where
  "trunc_to lo hi d = (case fp_trunc (d_val d) of
     Some i \<Rightarrow> if lo \<le> i \<and> i \<le> hi then Ok i else Undef ''double to integer''
   | None \<Rightarrow> Undef ''double to integer'')"

fun asInt :: "jvalue \<Rightarrow> int res" where
  "asInt (JInt i) = (if isInt (JInt i) then Ok i else json_error ''LargestInt out of Int range'')"
| "asInt (JUInt u) = (if isInt (JUInt u) then Ok u else json_error ''LargestUInt out of Int range'')"
| "asInt (JReal d) = (if in_range d minInt maxInt then trunc_to minInt maxInt d else json_error ''double out of Int range'')"
| "asInt JNull = Ok 0"
| "asInt (JBool b) = Ok (if b then 1 else 0)"
| "asInt _ = json_error ''Value is not convertible to Int.''"

fun asUInt :: "jvalue \<Rightarrow> int res" where
  "asUInt (JInt i) = (if isUInt (JInt i) then Ok i else json_error ''LargestInt out of UInt range'')"
| "asUInt (JUInt u) = (if isUInt (JUInt u) then Ok u else json_error ''LargestUInt out of UInt range'')"
| "asUInt (JReal d) = (if in_range d 0 maxUInt then trunc_to 0 maxUInt d else json_error ''double out of UInt range'')"
| "asUInt JNull = Ok 0"
| "asUInt (JBool b) = Ok (if b then 1 else 0)"
| "asUInt _ = json_error ''Value is not convertible to UInt.''"

fun asInt64 :: "jvalue \<Rightarrow> int res" where
  "asInt64 (JInt i) = Ok i"
| "asInt64 (JUInt u) = (if isInt64 (JUInt u) then Ok u else json_error ''LargestUInt out of Int64 range'')"
| "asInt64 (JReal d) = (if in_range d minInt64 maxInt64 then trunc_to minInt64 maxInt64 d else json_error ''double out of Int64 range'')"
| "asInt64 JNull = Ok 0"
| "asInt64 (JBool b) = Ok (if b then 1 else 0)"
| "asInt64 _ = json_error ''Value is not convertible to Int64.''"

fun asUInt64 :: "jvalue \<Rightarrow> int res" where
  "asUInt64 (JInt i) = (if isUInt64 (JInt i) then Ok i else json_error ''LargestInt out of UInt64 range'')"
| "asUInt64 (JUInt u) = Ok u"
| "asUInt64 (JReal d) = (if in_range d 0 maxUInt64 then trunc_to 0 maxUInt64 d else json_error ''double out of UInt64 range'')"
| "asUInt64 JNull = Ok 0"
| "asUInt64 (JBool b) = Ok (if b then 1 else 0)"
| "asUInt64 _ = json_error ''Value is not convertible to UInt64.''"

fun asDouble :: "jvalue \<Rightarrow> double res" where
  "asDouble (JInt i) = Ok (d_of_int i)"
| "asDouble (JUInt u) = Ok (d_of_int u)"
| "asDouble (JReal d) = Ok d"
| "asDouble JNull = Ok d_zero"
| "asDouble (JBool b) = Ok (d_of_int (if b then 1 else 0))"
| "asDouble _ = json_error ''Value is not convertible to double.''"

text \<open>A \<open>double\<close> beyond the range of \<open>float\<close> becomes an infinity here (on IEEE hardware).\<close>

fun asFloat :: "jvalue \<Rightarrow> float res" where
  "asFloat (JInt i) = Ok (f_of_int i)"
| "asFloat (JUInt u) = Ok (f_of_int u)"
| "asFloat (JReal d) = Ok (f_of_d d)"
| "asFloat JNull = Ok 0"
| "asFloat (JBool b) = Ok (f_of_int (if b then 1 else 0))"
| "asFloat _ = json_error ''Value is not convertible to float.''"

fun asBool :: "jvalue \<Rightarrow> bool res" where
  "asBool (JBool b) = Ok b"
| "asBool JNull = Ok False"
| "asBool (JInt i) = Ok (i \<noteq> 0)"
| "asBool (JUInt u) = Ok (u \<noteq> 0)"
| "asBool (JReal d) = Ok (\<not> fp_eq (d_val d) (d_val d_zero))"
| "asBool _ = json_error ''Value is not convertible to bool.''"

definition is_zero :: "jvalue \<Rightarrow> bool" where
  "is_zero v = (case asDouble v of Ok d \<Rightarrow> fp_eq (d_val d) (d_val d_zero) | _ \<Rightarrow> False)"

fun isConvertibleTo :: "jtype \<Rightarrow> jvalue \<Rightarrow> bool" where
  "isConvertibleTo nullValue v =
     (isNumeric v \<and> is_zero v \<or> v = JBool False \<or> v = JString [] \<or> v = JArray [] \<or> v = JObject [] \<or> v = JNull)"
| "isConvertibleTo intValue v =
     (isInt v \<or> (case v of JReal d \<Rightarrow> in_range d minInt maxInt | _ \<Rightarrow> False) \<or> jtype_of v = booleanValue \<or> v = JNull)"
| "isConvertibleTo uintValue v =
     (isUInt v \<or> (case v of JReal d \<Rightarrow> in_range d 0 maxUInt | _ \<Rightarrow> False) \<or> jtype_of v = booleanValue \<or> v = JNull)"
| "isConvertibleTo realValue v = (isNumeric v \<or> jtype_of v = booleanValue \<or> v = JNull)"
| "isConvertibleTo booleanValue v = (isNumeric v \<or> jtype_of v = booleanValue \<or> v = JNull)"
| "isConvertibleTo stringValue v = (isNumeric v \<or> jtype_of v = booleanValue \<or> jtype_of v = stringValue \<or> v = JNull)"
| "isConvertibleTo arrayValue v = (jtype_of v = arrayValue \<or> v = JNull)"
| "isConvertibleTo objectValue v = (jtype_of v = objectValue \<or> v = JNull)"

end
