(* ===== verification/Json_Access.thy ===== *)
theory Json_Access
  imports Json_Value
begin

text \<open>
  Comparison of JSON values and access to the elements of arrays and objects
  (\<open>Json::Value\<close> in \<open>server/utils/jsoncpp.cpp\<close>). A reference into a container is modelled by its two
  uses: the container after the access (which may have created the element, or turned null into a
  container), and the element.
\<close>

section \<open>Comparison\<close>

text \<open>
  \<open>operator<\<close> and \<open>operator==\<close>. Two containers of the same kind are compared by size first, then
  element by element, a key before its value. A pair is smaller if its key is, or if the keys are
  equal and its value is.
\<close>

function (sequential) j_less :: "jvalue \<Rightarrow> jvalue \<Rightarrow> bool"
  and j_less_arr :: "(nat \<times> jvalue) list \<Rightarrow> (nat \<times> jvalue) list \<Rightarrow> bool"
  and j_less_obj :: "(string \<times> jvalue) list \<Rightarrow> (string \<times> jvalue) list \<Rightarrow> bool" where
  "j_less (JInt i) (JInt k) = (i < k)"
| "j_less (JUInt i) (JUInt k) = (i < k)"
| "j_less (JReal x) (JReal y) = fp_lt (d_val x) (d_val y)"
| "j_less (JBool b) (JBool c) = (\<not> b \<and> c)"
| "j_less (JString s) (JString t) = (s < t)"
| "j_less (JArray xs) (JArray ys) =
     (if length xs \<noteq> length ys then length xs < length ys else j_less_arr xs ys)"
| "j_less (JObject xs) (JObject ys) =
     (if length xs \<noteq> length ys then length xs < length ys else j_less_obj xs ys)"
| "j_less v w = (jtype_code (jtype_of v) < jtype_code (jtype_of w))"
| "j_less_arr [] ys = (ys \<noteq> [])"
| "j_less_arr xs [] = False"
| "j_less_arr ((i, v) # xs) ((k, w) # ys) =
     (if i < k \<or> i = k \<and> j_less v w then True
      else if k < i \<or> i = k \<and> j_less w v then False
      else j_less_arr xs ys)"
| "j_less_obj [] ys = (ys \<noteq> [])"
| "j_less_obj xs [] = False"
| "j_less_obj ((i, v) # xs) ((k, w) # ys) =
     (if i < k \<or> i = k \<and> j_less v w then True
      else if k < i \<or> i = k \<and> j_less w v then False
      else j_less_obj xs ys)"
  by pat_completeness auto
termination
  by (relation "measure (\<lambda>x. case x of
      Inl (v, w) \<Rightarrow> size v + size w
    | Inr (Inl (xs, ys)) \<Rightarrow> size_list (size_prod (\<lambda>_. 0) size) xs + size_list (size_prod (\<lambda>_. 0) size) ys
    | Inr (Inr (xs, ys)) \<Rightarrow> size_list (size_prod (\<lambda>_. 0) size) xs + size_list (size_prod (\<lambda>_. 0) size) ys)") auto

fun j_eq :: "jvalue \<Rightarrow> jvalue \<Rightarrow> bool"
  and j_eq_arr :: "(nat \<times> jvalue) list \<Rightarrow> (nat \<times> jvalue) list \<Rightarrow> bool"
  and j_eq_obj :: "(string \<times> jvalue) list \<Rightarrow> (string \<times> jvalue) list \<Rightarrow> bool" where
  "j_eq JNull JNull = True"
| "j_eq (JInt i) (JInt k) = (i = k)"
| "j_eq (JUInt i) (JUInt k) = (i = k)"
| "j_eq (JReal x) (JReal y) = fp_eq (d_val x) (d_val y)"
| "j_eq (JBool b) (JBool c) = (b = c)"
| "j_eq (JString s) (JString t) = (s = t)"
| "j_eq (JArray xs) (JArray ys) = (length xs = length ys \<and> j_eq_arr xs ys)"
| "j_eq (JObject xs) (JObject ys) = (length xs = length ys \<and> j_eq_obj xs ys)"
| "j_eq v w = False"
| "j_eq_arr [] [] = True"
| "j_eq_arr ((i, v) # xs) ((k, w) # ys) = (i = k \<and> j_eq v w \<and> j_eq_arr xs ys)"
| "j_eq_arr xs ys = False"
| "j_eq_obj [] [] = True"
| "j_eq_obj ((i, v) # xs) ((k, w) # ys) = (i = k \<and> j_eq v w \<and> j_eq_obj xs ys)"
| "j_eq_obj xs ys = False"

definition j_compare :: "jvalue \<Rightarrow> jvalue \<Rightarrow> int" where
  "j_compare v w = (if j_less v w then - 1 else if j_less w v then 1 else 0)"

section \<open>Size\<close>

fun j_size :: "jvalue \<Rightarrow> nat" where
  "j_size (JArray xs) = (if xs = [] then 0 else fst (last xs) + 1)"
| "j_size (JObject xs) = length xs"
| "j_size _ = 0"

definition j_empty :: "jvalue \<Rightarrow> bool" where
  "j_empty v \<longleftrightarrow> (case v of JNull \<Rightarrow> True | JArray _ \<Rightarrow> j_size v = 0 | JObject _ \<Rightarrow> j_size v = 0 | _ \<Rightarrow> False)"

fun j_clear :: "jvalue \<Rightarrow> jvalue res" where
  "j_clear JNull = Ok JNull"
| "j_clear (JArray _) = Ok (JArray [])"
| "j_clear (JObject _) = Ok (JObject [])"
| "j_clear _ = json_error ''in Json::Value::clear(): requires complex value''"

section \<open>Elements\<close>

text \<open>\<open>operator[](ArrayIndex)\<close> on a mutable and on a constant value.\<close>

definition array_ref :: "nat \<Rightarrow> jvalue \<Rightarrow> (jvalue \<times> jvalue) res" where
  "array_ref i v = (case (case v of JNull \<Rightarrow> JArray [] | _ \<Rightarrow> v) of
     JArray xs \<Rightarrow> (case amap_get xs i of
         Some e \<Rightarrow> Ok (JArray xs, e)
       | None \<Rightarrow> Ok (JArray (amap_put i JNull xs), JNull))
   | _ \<Rightarrow> json_error ''in Json::Value::operator[](ArrayIndex): requires arrayValue'')"

definition array_get :: "nat \<Rightarrow> jvalue \<Rightarrow> jvalue res" where
  "array_get i v = (case v of
     JNull \<Rightarrow> Ok JNull
   | JArray xs \<Rightarrow> Ok (case amap_get xs i of Some e \<Rightarrow> e | None \<Rightarrow> JNull)
   | _ \<Rightarrow> json_error ''in Json::Value::operator[](ArrayIndex)const: requires arrayValue'')"

text \<open>Assigning through the reference.\<close>

definition array_set :: "nat \<Rightarrow> jvalue \<Rightarrow> jvalue \<Rightarrow> jvalue res" where
  "array_set i e v = bind_r (array_ref i v) (\<lambda>(v', _). case v' of
     JArray xs \<Rightarrow> Ok (JArray (amap_put i e xs)) | _ \<Rightarrow> Ok v')"

definition j_append :: "jvalue \<Rightarrow> jvalue \<Rightarrow> jvalue res" where
  "j_append e v = array_set (j_size v) e v"

definition j_resize :: "nat \<Rightarrow> jvalue \<Rightarrow> jvalue res" where
  "j_resize newSize v =
     (case (case v of JNull \<Rightarrow> JArray [] | _ \<Rightarrow> v) of
        JArray xs \<Rightarrow>
          (let oldSize = j_size (JArray xs)
           in if newSize = 0 then j_clear (JArray xs)
              else if oldSize < newSize then bind_r (array_ref (newSize - 1) (JArray xs)) (\<lambda>(w, _). Ok w)
              else let w = JArray (fold amap_del [newSize..<oldSize] xs)
                   in if j_size w = newSize then Ok w else json_error ''assert json failed'')
      | _ \<Rightarrow> json_error ''in Json::Value::resize(): requires arrayValue'')"

definition removeIndex :: "nat \<Rightarrow> jvalue \<Rightarrow> (jvalue \<times> jvalue) option" where
  "removeIndex index v = (case v of
     JArray xs \<Rightarrow> (case amap_get xs index of
         None \<Rightarrow> None
       | Some removed \<Rightarrow>
           (let oldSize = j_size v;
                shifted = fold (\<lambda>i ys. let e = (case amap_get ys (i + 1) of Some e \<Rightarrow> e | None \<Rightarrow> JNull);
                    ys' = (case amap_get ys (i + 1) of Some _ \<Rightarrow> ys | None \<Rightarrow> amap_put (i + 1) JNull ys)
                  in amap_put i e ys') [index..<oldSize - 1] xs
            in Some (JArray (amap_del (oldSize - 1) shifted), removed)))
   | _ \<Rightarrow> None)"

section \<open>Members\<close>

definition resolveReference :: "string \<Rightarrow> jvalue \<Rightarrow> (jvalue \<times> jvalue) res" where
  "resolveReference key v = (case (case v of JNull \<Rightarrow> JObject [] | _ \<Rightarrow> v) of
     JObject xs \<Rightarrow> (case amap_get xs key of
         Some e \<Rightarrow> Ok (JObject xs, e)
       | None \<Rightarrow> Ok (JObject (amap_put key JNull xs), JNull))
   | _ \<Rightarrow> json_error ''in Json::Value::resolveReference(key, end): requires objectValue'')"

definition member_set :: "string \<Rightarrow> jvalue \<Rightarrow> jvalue \<Rightarrow> jvalue res" where
  "member_set key e v = bind_r (resolveReference key v) (\<lambda>(v', _). case v' of
     JObject xs \<Rightarrow> Ok (JObject (amap_put key e xs)) | _ \<Rightarrow> Ok v')"

definition find_member :: "string \<Rightarrow> jvalue \<Rightarrow> jvalue option res" where
  "find_member key v = (case v of
     JNull \<Rightarrow> Ok None
   | JObject xs \<Rightarrow> Ok (amap_get xs key)
   | _ \<Rightarrow> json_error ''in Json::Value::find(key, end, found): requires objectValue or nullValue'')"

definition member_get :: "string \<Rightarrow> jvalue \<Rightarrow> jvalue res" where
  "member_get key v = bind_r (find_member key v) (\<lambda>r. Ok (case r of Some e \<Rightarrow> e | None \<Rightarrow> JNull))"

definition get_default :: "string \<Rightarrow> jvalue \<Rightarrow> jvalue \<Rightarrow> jvalue res" where
  "get_default key dflt v = bind_r (find_member key v) (\<lambda>r. Ok (case r of Some e \<Rightarrow> e | None \<Rightarrow> dflt))"

definition isMember :: "string \<Rightarrow> jvalue \<Rightarrow> bool res" where
  "isMember key v = bind_r (find_member key v) (\<lambda>r. Ok (r \<noteq> None))"

definition removeMember :: "string \<Rightarrow> jvalue \<Rightarrow> (jvalue \<times> jvalue) option" where
  "removeMember key v = (case v of
     JObject xs \<Rightarrow> map_option (\<lambda>e. (JObject (amap_del key xs), e)) (amap_get xs key)
   | _ \<Rightarrow> None)"

definition getMemberNames :: "jvalue \<Rightarrow> string list res" where
  "getMemberNames v = (case v of
     JNull \<Rightarrow> Ok []
   | JObject xs \<Rightarrow> Ok (amap_keys xs)
   | _ \<Rightarrow> json_error ''in Json::Value::getMemberNames(), value must be objectValue'')"

section \<open>Well-formed values\<close>

text \<open>The maps are ordered, and the numbers are those of the 64-bit types.\<close>

fun wf_value :: "jvalue \<Rightarrow> bool" where
  "wf_value (JInt i) = (minInt64 \<le> i \<and> i \<le> maxInt64)"
| "wf_value (JUInt u) = (0 \<le> u \<and> u \<le> maxUInt64)"
| "wf_value (JArray xs) = (amap_ok xs \<and> (\<forall>(_, e) \<in> set xs. wf_value e))"
| "wf_value (JObject xs) = (amap_ok xs \<and> (\<forall>(_, e) \<in> set xs. wf_value e))"
| "wf_value _ = True"

text \<open>
  Assigning a member of an object and reading it back gives the value assigned, and every
  other member as before; a null value becomes an object first.
\<close>

lemma member_get_set:
  assumes "member_set key e v = Ok w"
  shows "member_get k w = (if k = key then Ok e else member_get k v)"
  using assms
  by (cases v) (auto simp: member_set_def resolveReference_def member_get_def find_member_def split: option.splits)

lemma in_amap_put: "(i, e) \<in> set (amap_put k v xs) \<Longrightarrow> (i, e) \<in> set xs \<or> e = v"
  by (induction k v xs rule: amap_put.induct) (auto split: if_splits)

lemma amap_ok_single [simp]: "amap_ok [a]"
  by (simp add: amap_ok_def)

lemma wf_member_set: "member_set key e v = Ok w \<Longrightarrow> wf_value v \<Longrightarrow> wf_value e \<Longrightarrow> wf_value w"
  by (cases v) (auto simp: member_set_def resolveReference_def dest!: in_amap_put split: option.splits)

lemma array_get_set:
  assumes "array_set i e v = Ok w"
  shows "array_get k w = (if k = i then Ok e else array_get k v)"
  using assms by (cases v) (auto simp: array_set_def array_ref_def array_get_def split: option.splits)

lemma wf_array_set: "array_set i e v = Ok w \<Longrightarrow> wf_value v \<Longrightarrow> wf_value e \<Longrightarrow> wf_value w"
  by (cases v) (auto simp: array_set_def array_ref_def dest!: in_amap_put split: option.splits)

end
