(* ===== verification/Json_Token.thy ===== *)
theory Json_Token
  imports Json_Access
begin

text \<open>
  The lexical part of \<open>Json::OurReader\<close> (\<open>server/utils/jsoncpp.cpp\<close>): tokens, comments, numbers and
  strings. A location in the document is the text from there to the end of the document, so that a
  pointer difference is a difference of lengths. The document is a \<open>std::string\<close>, hence reading at its
  end gives the terminating NUL.
\<close>

section \<open>Tokens\<close>

datatype token_type =
    tokenEndOfStream | tokenObjectBegin | tokenObjectEnd | tokenArrayBegin | tokenArrayEnd
  | tokenString | tokenNumber | tokenTrue | tokenFalse | tokenNull | tokenNaN | tokenPosInf | tokenNegInf
  | tokenArraySeparator | tokenMemberSeparator | tokenComment | tokenError

record token =
  tk_type :: token_type
  tk_start :: string
  tk_end :: string

record json_features =
  allowComments :: bool
  strictRoot :: bool
  allowDroppedNullPlaceholders :: bool
  allowNumericKeys :: bool
  allowSingleQuotes :: bool
  failIfExtra :: bool
  rejectDupKeys :: bool
  allowSpecialFloats :: bool
  stackLimit :: int

text \<open>The text between two locations.\<close>

definition text_to :: "string \<Rightarrow> string \<Rightarrow> string" where
  "text_to start stop = take (length start - length stop) start"

definition peek :: "string \<Rightarrow> char" where
  "peek s = (case s of [] \<Rightarrow> CHR 0x00 | c # _ \<Rightarrow> c)"

definition getNextChar :: "string \<Rightarrow> char \<times> string" where
  "getNextChar s = (case s of [] \<Rightarrow> (CHR 0x00, []) | c # t \<Rightarrow> (c, t))"

definition is_json_space :: "char \<Rightarrow> bool" where
  "is_json_space c \<longleftrightarrow> c \<in> {CHR '' '', CHR 0x09, CHR 0x0D, CHR 0x0A}"

definition skipSpaces :: "string \<Rightarrow> string" where
  "skipSpaces s = dropWhile is_json_space s"

definition match :: "string \<Rightarrow> string \<Rightarrow> bool \<times> string" where
  "match pattern s =
     (if length s < length pattern then (False, s)
      else if take (length pattern) s = pattern then (True, drop (length pattern) s) else (False, s))"

section \<open>Comments, numbers and strings\<close>

fun readCStyleComment :: "string \<Rightarrow> bool \<times> string" where
  "readCStyleComment [] = (False, [])"
| "readCStyleComment (c # t) =
     (if c = CHR ''*'' \<and> peek t = CHR ''/'' then (True, tl t) else readCStyleComment t)"

fun readCppStyleComment :: "string \<Rightarrow> string" where
  "readCppStyleComment [] = []"
| "readCppStyleComment (c # t) =
     (if c = CHR 0x0A then t
      else if c = CHR 0x0D then (if peek t = CHR 0x0A then tl t else t)
      else readCppStyleComment t)"

definition readComment :: "string \<Rightarrow> bool \<times> string" where
  "readComment s = (let (c, t) = getNextChar s
     in if c = CHR ''*'' then readCStyleComment t
        else if c = CHR ''/'' then (True, readCppStyleComment t)
        else (False, t))"

text \<open>
  \<open>readNumber\<close>: digits, a fraction, an exponent, each possibly without digits. A minus sign followed
  by the letter \<open>I\<close> is the start of an infinity.
\<close>

definition frac_part :: "string \<Rightarrow> string" where
  "frac_part t = (case t of c # u \<Rightarrow> if c = CHR ''.'' then dropWhile is_digit u else t | [] \<Rightarrow> [])"

definition exp_part :: "string \<Rightarrow> string" where
  "exp_part t = (case t of
     c # u \<Rightarrow> if c = CHR ''e'' \<or> c = CHR ''E''
       then dropWhile is_digit (case u of x # w \<Rightarrow> if x = CHR ''+'' \<or> x = CHR ''-'' then w else u | [] \<Rightarrow> [])
       else t
   | [] \<Rightarrow> [])"

definition readNumber :: "bool \<Rightarrow> string \<Rightarrow> bool \<times> string" where
  "readNumber checkInf s =
     (if checkInf \<and> s \<noteq> [] \<and> hd s = CHR ''I'' then (False, tl s)
      else (True, exp_part (frac_part (dropWhile is_digit s))))"

fun read_quoted :: "char \<Rightarrow> string \<Rightarrow> bool \<times> string" where
  "read_quoted q [] = (False, [])"
| "read_quoted q (c # t) =
     (if c = CHR 0x5C then read_quoted q (tl t)
      else if c = q then (True, t)
      else read_quoted q t)"

definition readString :: "string \<Rightarrow> bool \<times> string" where
  "readString s = read_quoted (CHR 0x22) s"

definition readStringSingleQuote :: "string \<Rightarrow> bool \<times> string" where
  "readStringSingleQuote s = read_quoted (CHR 0x27) s"

text \<open>
  \<open>readToken\<close> after the white space: the kind of token that starts with \<open>c\<close> and the location after it.
  A single quote, when single quotes are not allowed, falls through to the comment case.
\<close>

definition checked :: "token_type \<Rightarrow> bool \<times> string \<Rightarrow> token_type \<times> string" where
  "checked ty r = (if fst r then ty else tokenError, snd r)"

definition token_from :: "json_features \<Rightarrow> char \<Rightarrow> string \<Rightarrow> token_type \<times> string" where
  "token_from fs c t =
     (if c = CHR ''{'' then (tokenObjectBegin, t)
      else if c = CHR ''}'' then (tokenObjectEnd, t)
      else if c = CHR ''['' then (tokenArrayBegin, t)
      else if c = CHR '']'' then (tokenArrayEnd, t)
      else if c = CHR 0x22 then checked tokenString (readString t)
      else if c = CHR 0x27 \<and> allowSingleQuotes fs then checked tokenString (readStringSingleQuote t)
      else if c = CHR 0x27 \<or> c = CHR ''/'' then checked tokenComment (readComment t)
      else if is_digit c then (tokenNumber, snd (readNumber False t))
      else if c = CHR ''-'' then (let (num, u) = readNumber True t
        in if num then (tokenNumber, u)
           else if allowSpecialFloats fs then checked tokenNegInf (match ''nfinity'' u)
           else (tokenError, u))
      else if c = CHR ''t'' then checked tokenTrue (match ''rue'' t)
      else if c = CHR ''f'' then checked tokenFalse (match ''alse'' t)
      else if c = CHR ''n'' then checked tokenNull (match ''ull'' t)
      else if c = CHR ''N'' then (if allowSpecialFloats fs then checked tokenNaN (match ''aN'' t) else (tokenError, t))
      else if c = CHR ''I'' then (if allowSpecialFloats fs then checked tokenPosInf (match ''nfinity'' t) else (tokenError, t))
      else if c = CHR '','' then (tokenArraySeparator, t)
      else if c = CHR '':'' then (tokenMemberSeparator, t)
      else if c = CHR 0x00 then (tokenEndOfStream, t)
      else (tokenError, t))"

definition readToken :: "json_features \<Rightarrow> string \<Rightarrow> token" where
  "readToken fs s = (let s' = skipSpaces s; (c, t) = getNextChar s'; (ty, u) = token_from fs c t
     in \<lparr> tk_type = ty, tk_start = s', tk_end = u \<rparr>)"

section \<open>Progress\<close>

lemma length_readCStyleComment: "length (snd (readCStyleComment s)) \<le> length s"
  by (induction s rule: readCStyleComment.induct) (auto simp: le_diff_conv)

lemma length_readCppStyleComment: "length (readCppStyleComment s) \<le> length s"
  by (induction s rule: readCppStyleComment.induct) (auto simp: le_diff_conv)

lemma length_readComment: "length (snd (readComment s)) \<le> length s"
proof (cases s)
  case (Cons c t)
  then show ?thesis
    using length_readCStyleComment [of t] length_readCppStyleComment [of t]
    by (auto simp: readComment_def getNextChar_def)
qed (simp add: readComment_def getNextChar_def)

lemma length_dropWhile: "length (dropWhile P s) \<le> length s"
  by (induction s) auto

lemma length_frac_part: "length (frac_part s) \<le> length s"
  by (cases s) (auto simp: frac_part_def intro: le_trans [OF length_dropWhile])

lemma length_exp_part: "length (exp_part s) \<le> length s"
  by (cases s) (auto simp: exp_part_def split: list.split intro: le_trans [OF length_dropWhile])

lemma length_readNumber: "length (snd (readNumber b s)) \<le> length s"
proof -
  have "length (exp_part (frac_part (dropWhile is_digit s))) \<le> length s"
    using length_exp_part length_frac_part length_dropWhile by (rule order_trans [OF _ order_trans])
  then show ?thesis by (simp add: readNumber_def)
qed

lemma length_read_quoted: "length (snd (read_quoted q s)) \<le> length s"
  by (induction q s rule: read_quoted.induct) (auto simp: le_diff_conv)

lemma length_match: "length (snd (match p s)) \<le> length s"
  by (simp add: match_def)

lemmas length_lexers = length_readComment length_readNumber length_read_quoted length_match

lemma checked_simps [simp]:
  "fst (checked ty r) = (if fst r then ty else tokenError)" "snd (checked ty r) = snd r"
  by (simp_all add: checked_def)

lemma if_bothI: "P x \<Longrightarrow> P y \<Longrightarrow> P (if b then x else y)"
  by simp

lemma length_token_from: "length (snd (token_from fs c t)) \<le> length t"
proof -
  have minus: "length (snd (match p (snd (readNumber True t)))) \<le> length t" for p
    using length_match length_readNumber by (rule le_trans)
  show ?thesis
    unfolding token_from_def Let_def case_prod_beta readString_def readStringSingleQuote_def
    by (intro if_bothI [where P = "\<lambda>r. length (snd r) \<le> length t"])
      (simp_all add: length_lexers minus)
qed

lemma token_from_end:
  assumes "c \<noteq> CHR 0x00"
  shows "fst (token_from fs c t) \<noteq> tokenEndOfStream"
  unfolding token_from_def Let_def case_prod_beta if_not_P [OF assms]
  by (intro if_bothI [where P = "\<lambda>r. fst r \<noteq> tokenEndOfStream"]) simp_all

lemma length_skipSpaces: "length (skipSpaces s) \<le> length s"
  by (simp add: skipSpaces_def length_dropWhile)

lemma readToken_le: "length (tk_end (readToken fs s)) \<le> length s"
proof (cases "skipSpaces s")
  case Nil
  then show ?thesis using length_token_from [of fs "CHR 0x00" "[]"]
    by (simp add: readToken_def getNextChar_def Let_def case_prod_beta)
next
  case (Cons c t)
  then show ?thesis using length_token_from [of fs c t] length_skipSpaces [of s]
    by (simp add: readToken_def getNextChar_def Let_def case_prod_beta)
qed

text \<open>Every token other than the end of the document consumes a character.\<close>

lemma readToken_less:
  assumes "tk_type (readToken fs s) \<noteq> tokenEndOfStream"
  shows "length (tk_end (readToken fs s)) < length s"
proof (cases "skipSpaces s")
  case Nil
  then have "tk_type (readToken fs s) = tokenEndOfStream"
    by (simp add: readToken_def getNextChar_def token_from_def is_digit_def)
  with assms show ?thesis by simp
next
  case (Cons c t)
  then show ?thesis using length_token_from [of fs c t] length_skipSpaces [of s]
    by (simp add: readToken_def getNextChar_def Let_def case_prod_beta)
qed

text \<open>The tokens read until one of a wanted kind, or the end, is met.\<close>

function tokens_until :: "(token_type \<Rightarrow> bool) \<Rightarrow> json_features \<Rightarrow> string \<Rightarrow> token list" where
  "tokens_until stop fs s = (let t = readToken fs s
     in t # (if stop (tk_type t) \<or> tk_type t = tokenEndOfStream then [] else tokens_until stop fs (tk_end t)))"
  by pat_completeness auto
termination
  by (relation "measure (\<lambda>(_, _, s). length s)") (auto simp: readToken_less)

declare tokens_until.simps [simp del]

lemma tokens_until_ne [simp]: "tokens_until stop fs s \<noteq> []"
  by (subst tokens_until.simps) (simp add: Let_def)

end
