(* ===== verification/Json_Reader.thy ===== *)
theory Json_Reader
  imports Json_Token
begin

text \<open>
  The parser of the bundled JsonCpp, \<open>Json::OurReader\<close> with its builder and \<open>operator>>\<close>
  (\<open>server/utils/jsoncpp.cpp\<close>): the decoding of numbers and strings, the recursive descent with its
  stack limit and its error recovery, the error report. The value being read is passed down and
  returned, since a failed parse leaves what it has filled in so far. Comments attached to values are
  not kept, but the exception their first character may cause is.
\<close>

section \<open>Numbers\<close>

text \<open>
  \<open>decodeNumber\<close>: an integer up to the limit of its sign; everything else is left to \<open>decodeDouble\<close>.
  The limit of a negative number and the negation of the result are computed by wrap-around.
\<close>

fun num_loop :: "nat \<Rightarrow> string \<Rightarrow> nat \<Rightarrow> nat option" where
  "num_loop limit [] value = Some value"
| "num_loop limit (c # cs) value =
     (if \<not> is_digit c then None
      else if limit div 10 \<le> value \<and>
          (limit div 10 < value \<or> cs \<noteq> [] \<or> limit mod 10 < digit_val c) then None
      else num_loop limit cs (value * 10 + digit_val c))"

text \<open>\<open>sscanf\<close> with \<open>%lf\<close> succeeds when the whole text is a floating-point numeral.\<close>

definition decodeDouble :: "string \<Rightarrow> jvalue option" where
  "decodeDouble txt = (case strtod txt of Some (v, _, []) \<Rightarrow> Some (JReal v) | _ \<Rightarrow> None)"

definition decodeNumber :: "string \<Rightarrow> jvalue option" where
  "decodeNumber txt =
     (let isNegative = (peek txt = CHR ''-'');
          maxIntegerValue = (if isNegative then nat (- minInt64) else nat maxUInt64)
      in case num_loop maxIntegerValue (if isNegative then tl txt else txt) 0 of
           None \<Rightarrow> decodeDouble txt
         | Some value \<Rightarrow>
             if isNegative then Some (JInt (i64 (- i64 (int value))))
             else if int value \<le> maxInt then Some (JInt (int value))
             else Some (JUInt (int value)))"

section \<open>Strings\<close>

text \<open>A decoding error carries its message and the number of characters left before the end quote.\<close>

type_synonym 'a decoded = "(string \<times> nat) + 'a"

fun hex_digits :: "nat \<Rightarrow> string \<Rightarrow> nat \<Rightarrow> (nat \<times> string) decoded" where
  "hex_digits 0 cs unicode = Inr (unicode, cs)"
| "hex_digits (Suc k) (c # cs) unicode =
     (if is_hex c then hex_digits k cs (unicode * 16 + hex_val c)
      else Inl (''Bad unicode escape sequence in string: hexadecimal digit expected.'', length cs))"
| "hex_digits (Suc k) [] unicode =
     Inl (''Bad unicode escape sequence in string: hexadecimal digit expected.'', 0)"

definition decodeUnicodeEscapeSequence :: "string \<Rightarrow> (nat \<times> string) decoded" where
  "decodeUnicodeEscapeSequence cs =
     (if length cs < 4 then Inl (''Bad unicode escape sequence in string: four digits expected.'', length cs)
      else hex_digits 4 cs 0)"

definition surrogate_message :: string where
  "surrogate_message = ''expecting another '' @ [CHR 0x5C] @
     ''u token to begin the second half of a unicode surrogate pair''"

definition decodeUnicodeCodePoint :: "string \<Rightarrow> (nat \<times> string) decoded" where
  "decodeUnicodeCodePoint cs = (case decodeUnicodeEscapeSequence cs of
     Inl e \<Rightarrow> Inl e
   | Inr (unicode, r) \<Rightarrow>
       if 0xD800 \<le> unicode \<and> unicode \<le> 0xDBFF
       then (if length r < 6
             then Inl (''additional six characters expected to parse unicode surrogate pair.'', length r)
             else if r ! 0 \<noteq> CHR 0x5C
             then Inl (surrogate_message, length r - 1)
             else if r ! 1 \<noteq> CHR ''u''
             then Inl (surrogate_message, length r - 2)
             else (case decodeUnicodeEscapeSequence (drop 2 r) of
                 Inl e \<Rightarrow> Inl e
               | Inr (surrogatePair, r') \<Rightarrow>
                   Inr (0x10000 + unicode mod 1024 * 1024 + surrogatePair mod 1024, r')))
       else Inr (unicode, r))"

definition codePointToUTF8 :: "nat \<Rightarrow> string" where
  "codePointToUTF8 cp =
     (if cp \<le> 0x7F then [char_of cp]
      else if cp \<le> 0x7FF then [char_of (0xC0 + cp div 64 mod 32), char_of (0x80 + cp mod 64)]
      else if cp \<le> 0xFFFF then
        [char_of (0xE0 + cp div 4096 mod 16), char_of (0x80 + cp div 64 mod 64), char_of (0x80 + cp mod 64)]
      else if cp \<le> 0x10FFFF then
        [char_of (0xF0 + cp div 262144 mod 8), char_of (0x80 + cp div 4096 mod 64),
         char_of (0x80 + cp div 64 mod 64), char_of (0x80 + cp mod 64)]
      else [])"

definition simple_escape :: "char \<Rightarrow> char option" where
  "simple_escape e =
     (if e = CHR 0x22 \<or> e = CHR ''/'' \<or> e = CHR 0x5C then Some e
      else if e = CHR ''b'' then Some (CHR 0x08)
      else if e = CHR ''f'' then Some (CHR 0x0C)
      else if e = CHR ''n'' then Some (CHR 0x0A)
      else if e = CHR ''r'' then Some (CHR 0x0D)
      else if e = CHR ''t'' then Some (CHR 0x09)
      else None)"

lemma hex_digits_length: "hex_digits k cs u = Inr (v, r) \<Longrightarrow> length r + k = length cs"
  by (induction k cs u rule: hex_digits.induct) (auto split: if_splits)

lemma code_point_length: "decodeUnicodeCodePoint cs = Inr (u, r) \<Longrightarrow> length r < length cs"
  by (auto simp: decodeUnicodeCodePoint_def decodeUnicodeEscapeSequence_def
      dest!: hex_digits_length split: sum.splits prod.splits if_splits)

function decode_chars :: "string \<Rightarrow> string \<Rightarrow> string decoded" where
  "decode_chars [] decoded = Inr decoded"
| "decode_chars (c # cs) decoded =
     (if c = CHR 0x22 then Inr decoded
      else if c = CHR 0x5C then (case cs of
          [] \<Rightarrow> Inl (''Empty escape sequence in string'', 0)
        | e # r \<Rightarrow> (case simple_escape e of
              Some x \<Rightarrow> decode_chars r (decoded @ [x])
            | None \<Rightarrow>
                if e = CHR ''u'' then (case decodeUnicodeCodePoint r of
                    Inl err \<Rightarrow> Inl err
                  | Inr (unicode, r') \<Rightarrow> decode_chars r' (decoded @ codePointToUTF8 unicode))
                else Inl (''Bad escape sequence in string'', length r)))
      else decode_chars cs (decoded @ [c]))"
  by pat_completeness auto
termination
  by (relation "measure (\<lambda>(cs, _). length cs)") (auto dest: code_point_length)

text \<open>The text of a string token, without its quotes, decoded.\<close>

definition decodeString :: "token \<Rightarrow> string decoded" where
  "decodeString tok = decode_chars (butlast (tl (text_to (tk_start tok) (tk_end tok)))) []"

section \<open>The reader's state\<close>

record json_error_info =
  er_start :: nat
  er_end :: nat
  er_message :: string
  er_extra :: "nat option"

record rst =
  rs_rest :: string
  rs_errors :: "json_error_info list"
  rs_depth :: int
  rs_before :: string
  rs_last :: "string option"

fun normalizeEOL :: "string \<Rightarrow> string" where
  "normalizeEOL [] = []"
| "normalizeEOL (c # t) =
     (if c = CHR 0x0D then CHR 0x0A # normalizeEOL (if peek t = CHR 0x0A then tl t else t)
      else c # normalizeEOL t)"

definition containsNewLine :: "string \<Rightarrow> bool" where
  "containsNewLine s \<longleftrightarrow> list_ex (\<lambda>c. c = CHR 0x0A \<or> c = CHR 0x0D) s"

text \<open>\<open>Value::setComment\<close>: a comment must start with a slash.\<close>

definition setComment :: "string \<Rightarrow> (rst, unit) prog" where
  "setComment comment =
     (if peek comment = CHR 0x00 \<or> peek comment = CHR ''/'' then ret_p ()
      else throw_p (Runtime_error ''in Json::Value::setComment(): Comments must start with /''))"

text \<open>What \<open>readComment\<close> does with the comment it has read, when comments are collected.\<close>

definition addComment :: "token \<Rightarrow> (rst, unit) prog" where
  "addComment tok = bind_p (gets_p rs_last) (\<lambda>lastValueEnd.
     let comment = text_to (tk_start tok) (tk_end tok);
         same_line = (case lastValueEnd of None \<Rightarrow> False
           | Some l \<Rightarrow> \<not> containsNewLine (text_to l (tk_start tok)) \<and>
               (peek (tl comment) \<noteq> CHR ''*'' \<or> \<not> containsNewLine comment))
     in if same_line then setComment (normalizeEOL comment)
        else mod_p (rs_before_update (\<lambda>b. b @ normalizeEOL comment)))"

definition note_token :: "bool \<Rightarrow> token \<Rightarrow> (rst, unit) prog" where
  "note_token collect tok = (if collect \<and> tk_type tok = tokenComment then addComment tok else ret_p ())"

definition next_token :: "bool \<Rightarrow> json_features \<Rightarrow> (rst, token) prog" where
  "next_token collect fs = bind_p (gets_p rs_rest) (\<lambda>s.
     let tok = readToken fs s
     in then_p (note_token collect tok)
         (then_p (mod_p (rs_rest_update (\<lambda>_. tk_end tok))) (ret_p tok)))"

text \<open>Reading tokens until one of a wanted kind, or the end of the document, is met.\<close>

definition read_until :: "bool \<Rightarrow> json_features \<Rightarrow> (token_type \<Rightarrow> bool) \<Rightarrow> (rst, token) prog" where
  "read_until collect fs stop = bind_p (gets_p rs_rest) (\<lambda>s.
     let toks = tokens_until stop fs s
     in then_p (for_p toks (note_token collect))
         (then_p (mod_p (rs_rest_update (\<lambda>_. tk_end (last toks)))) (ret_p (last toks))))"

definition skip_comments :: "bool \<Rightarrow> json_features \<Rightarrow> (rst, token) prog" where
  "skip_comments collect fs = read_until collect fs (\<lambda>ty. ty \<noteq> tokenComment)"

definition skipCommentTokens :: "bool \<Rightarrow> json_features \<Rightarrow> (rst, token) prog" where
  "skipCommentTokens collect fs = (if allowComments fs then skip_comments collect fs else next_token collect fs)"

definition addError :: "string \<Rightarrow> string \<Rightarrow> token \<Rightarrow> nat option \<Rightarrow> (rst, unit) prog" where
  "addError doc message tok extra = mod_p (rs_errors_update (\<lambda>es. es @
     [\<lparr> er_start = length doc - length (tk_start tok), er_end = length doc - length (tk_end tok),
        er_message = message, er_extra = extra \<rparr>]))"

text \<open>Skipping to the end of the broken value; the errors found on the way are dropped.\<close>

definition recoverFromError :: "bool \<Rightarrow> json_features \<Rightarrow> token_type \<Rightarrow> (rst, bool) prog" where
  "recoverFromError collect fs skipUntilToken =
     then_p (read_until collect fs (\<lambda>ty. ty = skipUntilToken)) (ret_p False)"

definition addErrorAndRecover :: "bool \<Rightarrow> json_features \<Rightarrow> string \<Rightarrow> string \<Rightarrow> token \<Rightarrow> token_type \<Rightarrow> (rst, bool) prog" where
  "addErrorAndRecover collect fs doc message tok skipUntilToken =
     then_p (addError doc message tok None) (recoverFromError collect fs skipUntilToken)"

text \<open>Decoding with the error reported.\<close>

definition decode_number_tok :: "string \<Rightarrow> token \<Rightarrow> (rst, jvalue option) prog" where
  "decode_number_tok doc tok =
     (let txt = text_to (tk_start tok) (tk_end tok)
      in case decodeNumber txt of
           Some v \<Rightarrow> ret_p (Some v)
         | None \<Rightarrow> then_p (addError doc (CHR 0x27 # txt @ CHR 0x27 # '' is not a number.'') tok None) (ret_p None))"

definition decode_string_tok :: "string \<Rightarrow> token \<Rightarrow> (rst, string option) prog" where
  "decode_string_tok doc tok = (case decodeString tok of
     Inr s \<Rightarrow> ret_p (Some s)
   | Inl (message, left) \<Rightarrow>
       then_p (addError doc message tok (Some (length doc - length (tk_end tok) - 1 - left))) (ret_p None))"

section \<open>Recursive descent\<close>

text \<open>
  \<open>readValue\<close>, \<open>readObject\<close> after its opening brace and \<open>readArray\<close> after the test for an empty array.
  The fuel bounds the recursion; twice the length of the text and a few units more are always enough.
\<close>

definition enter_value :: "json_features \<Rightarrow> (rst, unit) prog" where
  "enter_value fs = bind_p (gets_p rs_depth) (\<lambda>d.
     if stackLimit fs \<le> d then throw_p (Runtime_error ''Exceeded stackLimit in readValue().'')
     else mod_p (rs_depth_update (\<lambda>_. d + 1)))"

definition value_comments :: "bool \<Rightarrow> (rst, unit) prog" where
  "value_comments collect = bind_p (gets_p rs_before) (\<lambda>b.
     if collect \<and> b \<noteq> [] then then_p (setComment b) (mod_p (rs_before_update (\<lambda>_. []))) else ret_p ())"

definition leave_value :: "bool \<Rightarrow> 'a \<Rightarrow> (rst, 'a) prog" where
  "leave_value collect r = then_p
     (mod_p (\<lambda>s. if collect then s \<lparr> rs_last := Some (rs_rest s) \<rparr> else s))
     (then_p (mod_p (rs_depth_update (\<lambda>d. d - 1))) (ret_p r))"

text \<open>The values that need no reading of further tokens, with the success they report.\<close>

definition scalar_value :: "string \<Rightarrow> token \<Rightarrow> jvalue \<Rightarrow> (rst, bool \<times> jvalue) prog" where
  "scalar_value doc tok cur = (case tk_type tok of
     tokenNumber \<Rightarrow> bind_p (decode_number_tok doc tok) (\<lambda>r.
       ret_p (case r of Some v \<Rightarrow> (True, v) | None \<Rightarrow> (False, cur)))
   | tokenString \<Rightarrow> bind_p (decode_string_tok doc tok) (\<lambda>r.
       ret_p (case r of Some v \<Rightarrow> (True, JString v) | None \<Rightarrow> (False, cur)))
   | tokenTrue \<Rightarrow> ret_p (True, JBool True)
   | tokenFalse \<Rightarrow> ret_p (True, JBool False)
   | tokenNull \<Rightarrow> ret_p (True, JNull)
   | tokenNaN \<Rightarrow> ret_p (True, JReal (signed_bits False (nan_bits binary64)))
   | tokenPosInf \<Rightarrow> ret_p (True, JReal (signed_bits False (inf_mag binary64)))
   | tokenNegInf \<Rightarrow> ret_p (True, JReal (signed_bits True (inf_mag binary64)))
   | _ \<Rightarrow> ret_p (False, cur))"

definition is_scalar :: "token_type \<Rightarrow> bool" where
  "is_scalar ty \<longleftrightarrow> ty \<in> {tokenNumber, tokenString, tokenTrue, tokenFalse, tokenNull, tokenNaN, tokenPosInf, tokenNegInf}"

text \<open>The name of a member, or nothing once the error has been reported or the loop must be left.\<close>

datatype member_name = Name string | Name_error | No_name

definition read_name :: "json_features \<Rightarrow> string \<Rightarrow> token \<Rightarrow> (rst, member_name) prog" where
  "read_name fs doc tok =
     (if tk_type tok = tokenString then bind_p (decode_string_tok doc tok) (\<lambda>r.
        ret_p (case r of Some s \<Rightarrow> Name s | None \<Rightarrow> Name_error))
      else if tk_type tok = tokenNumber \<and> allowNumericKeys fs then bind_p (decode_number_tok doc tok) (\<lambda>r.
        case r of Some v \<Rightarrow> bind_p (lift_p (asString v)) (\<lambda>s. ret_p (Name s)) | None \<Rightarrow> ret_p Name_error)
      else ret_p No_name)"

definition key_limit :: nat where
  "key_limit = 2 ^ 30"

fun read_value :: "bool \<Rightarrow> json_features \<Rightarrow> string \<Rightarrow> nat \<Rightarrow> jvalue \<Rightarrow> (rst, bool \<times> jvalue) prog"
  and readObject :: "bool \<Rightarrow> json_features \<Rightarrow> string \<Rightarrow> nat \<Rightarrow> string \<Rightarrow> jvalue \<Rightarrow> (rst, bool \<times> jvalue) prog"
  and readArray :: "bool \<Rightarrow> json_features \<Rightarrow> string \<Rightarrow> nat \<Rightarrow> nat \<Rightarrow> jvalue \<Rightarrow> (rst, bool \<times> jvalue) prog" where
  "read_value collect fs doc 0 cur = undef_p ''fuel''"
| "read_value collect fs doc (Suc n) cur =
     then_p (enter_value fs)
     (bind_p (skipCommentTokens collect fs) (\<lambda>tok.
      then_p (value_comments collect)
       (if tk_type tok = tokenObjectBegin then
          bind_p (readObject collect fs doc n [] (JObject [])) (leave_value collect)
        else if tk_type tok = tokenArrayBegin then
          then_p (mod_p (rs_rest_update skipSpaces))
          (bind_p (gets_p rs_rest) (\<lambda>s.
             if peek s = CHR '']''
             then then_p (next_token collect fs) (leave_value collect (True, JArray []))
             else bind_p (readArray collect fs doc n 0 (JArray [])) (leave_value collect)))
        else if is_scalar (tk_type tok) then
          bind_p (scalar_value doc tok cur) (leave_value collect)
        else if tk_type tok \<in> {tokenArraySeparator, tokenObjectEnd, tokenArrayEnd} \<and> allowDroppedNullPlaceholders fs then
          then_p (mod_p (rs_rest_update (\<lambda>_. tk_start tok))) (leave_value collect (True, JNull))
        else then_p (addError doc ''Syntax error: value, object or array expected.'' tok None) (ret_p (False, cur)))))"
| "readObject collect fs doc 0 name cur = undef_p ''fuel''"
| "readObject collect fs doc (Suc n) name cur =
     bind_p (skip_comments collect fs) (\<lambda>tokenName.
       if tk_type tokenName = tokenObjectEnd \<and> name = [] then ret_p (True, cur)
       else bind_p (read_name fs doc tokenName) (\<lambda>r. case r of
          Name_error \<Rightarrow> bind_p (recoverFromError collect fs tokenObjectEnd) (\<lambda>ok. ret_p (ok, cur))
        | No_name \<Rightarrow> bind_p (addErrorAndRecover collect fs doc
              (''Missing '' @ CHR 0x27 # ''}'' @ CHR 0x27 # '' or object member name'') tokenName tokenObjectEnd)
            (\<lambda>ok. ret_p (ok, cur))
        | Name name' \<Rightarrow> bind_p (next_token collect fs) (\<lambda>colon.
            if tk_type colon \<noteq> tokenMemberSeparator then
              bind_p (addErrorAndRecover collect fs doc
                (''Missing '' @ CHR 0x27 # '':'' @ CHR 0x27 # '' after object member name'') colon tokenObjectEnd)
                (\<lambda>ok. ret_p (ok, cur))
            else if key_limit \<le> length name' then throw_p (Runtime_error ''keylength >= 2^30'')
            else bind_p (lift_p (isMember name' cur)) (\<lambda>dup.
              if rejectDupKeys fs \<and> dup then
                bind_p (addErrorAndRecover collect fs doc
                  (''Duplicate key: '' @ CHR 0x27 # name' @ [CHR 0x27]) tokenName tokenObjectEnd)
                  (\<lambda>ok. ret_p (ok, cur))
              else bind_p (lift_p (resolveReference name' cur)) (\<lambda>(_, old).
                bind_p (read_value collect fs doc n old) (\<lambda>(ok, v).
                bind_p (lift_p (member_set name' v cur)) (\<lambda>cur'.
                  if \<not> ok then bind_p (recoverFromError collect fs tokenObjectEnd) (\<lambda>ok. ret_p (ok, cur'))
                  else bind_p (next_token collect fs) (\<lambda>comma.
                    if tk_type comma \<notin> {tokenObjectEnd, tokenArraySeparator, tokenComment} then
                      bind_p (addErrorAndRecover collect fs doc
                        (''Missing '' @ CHR 0x27 # '','' @ CHR 0x27 # '' or '' @ CHR 0x27 # ''}'' @ CHR 0x27 #
                          '' in object declaration'') comma tokenObjectEnd)
                        (\<lambda>ok. ret_p (ok, cur'))
                    else bind_p (if tk_type comma = tokenComment then skip_comments collect fs else ret_p comma) (\<lambda>comma.
                      if tk_type comma = tokenObjectEnd then ret_p (True, cur')
                      else readObject collect fs doc n name' cur')))))))))"
| "readArray collect fs doc 0 index cur = undef_p ''fuel''"
| "readArray collect fs doc (Suc n) index cur =
     bind_p (lift_p (array_ref index cur)) (\<lambda>(_, old).
     bind_p (read_value collect fs doc n old) (\<lambda>(ok, v).
     bind_p (lift_p (array_set index v cur)) (\<lambda>cur'.
       if \<not> ok then bind_p (recoverFromError collect fs tokenArrayEnd) (\<lambda>ok. ret_p (ok, cur'))
       else bind_p (skip_comments collect fs) (\<lambda>tok.
         if tk_type tok \<noteq> tokenArraySeparator \<and> tk_type tok \<noteq> tokenArrayEnd then
           bind_p (addErrorAndRecover collect fs doc
             (''Missing '' @ CHR 0x27 # '','' @ CHR 0x27 # '' or '' @ CHR 0x27 # '']'' @ CHR 0x27 #
               '' in array declaration'') tok tokenArrayEnd)
             (\<lambda>ok. ret_p (ok, cur'))
         else if tk_type tok = tokenArrayEnd then ret_p (True, cur')
         else readArray collect fs doc n (index + 1) cur'))))"

section \<open>Whole documents\<close>

definition parse_fuel :: "string \<Rightarrow> nat" where
  "parse_fuel doc = 2 * length doc + 2"

definition initial_rst :: "string \<Rightarrow> rst" where
  "initial_rst doc = \<lparr> rs_rest = doc, rs_errors = [], rs_depth = 0, rs_before = [], rs_last = None \<rparr>"

definition parse_prog :: "json_features \<Rightarrow> bool \<Rightarrow> string \<Rightarrow> jvalue \<Rightarrow> (rst, bool \<times> jvalue) prog" where
  "parse_prog fs collectComments doc rootv =
     (let collect = (allowComments fs \<and> collectComments)
      in bind_p (read_value collect fs doc (parse_fuel doc) rootv) (\<lambda>(successful, value').
         bind_p (skipCommentTokens collect fs) (\<lambda>tok.
           if failIfExtra fs \<and> tk_type tok \<noteq> tokenError \<and> tk_type tok \<noteq> tokenEndOfStream then
             then_p (addError doc ''Extra non-whitespace after JSON value.'' tok None) (ret_p (False, value'))
           else then_p (bind_p (gets_p rs_before) (\<lambda>b. if collect \<and> b \<noteq> [] then setComment b else ret_p ()))
             (if strictRoot fs \<and> jtype_of value' \<noteq> arrayValue \<and> jtype_of value' \<noteq> objectValue then
                then_p (addError doc ''A valid JSON document must be either an array or an object value.''
                  \<lparr> tk_type = tokenError, tk_start = doc, tk_end = [] \<rparr> None) (ret_p (False, value'))
              else ret_p (successful, value')))))"

definition parse :: "json_features \<Rightarrow> bool \<Rightarrow> string \<Rightarrow> jvalue \<Rightarrow> (bool \<times> jvalue) res \<times> rst" where
  "parse fs collectComments doc rootv = parse_prog fs collectComments doc rootv (initial_rst doc)"

section \<open>The error report\<close>

text \<open>Line and column of an offset: the start of its line is found by walking the document.\<close>

fun line_start :: "string \<Rightarrow> nat \<Rightarrow> nat \<Rightarrow> nat \<Rightarrow> nat \<Rightarrow> nat \<times> nat" where
  "line_start [] current location lastLineStart line = (line, lastLineStart)"
| "line_start (c # t) current location lastLineStart line =
     (if location \<le> current then (line, lastLineStart)
      else if c = CHR 0x0D then
        (if peek t = CHR 0x0A then line_start (tl t) (current + 2) location (current + 2) (line + 1)
         else line_start t (current + 1) location (current + 1) (line + 1))
      else if c = CHR 0x0A then line_start t (current + 1) location (current + 1) (line + 1)
      else line_start t (current + 1) location lastLineStart line)"

definition getLocationLineAndColumn :: "string \<Rightarrow> nat \<Rightarrow> string" where
  "getLocationLineAndColumn doc location =
     (let (line, lastLineStart) = line_start doc 0 location 0 0
      in ''Line '' @ to_string (int line + 1) @ '', Column '' @ to_string (int location - int lastLineStart + 1))"

definition format_error :: "string \<Rightarrow> json_error_info \<Rightarrow> string" where
  "format_error doc e = ''* '' @ getLocationLineAndColumn doc (er_start e) @ [CHR 0x0A] @
     ''  '' @ er_message e @ [CHR 0x0A] @
     (case er_extra e of None \<Rightarrow> []
      | Some x \<Rightarrow> ''See '' @ getLocationLineAndColumn doc x @ '' for detail.'' @ [CHR 0x0A])"

definition getFormattedErrorMessages :: "string \<Rightarrow> json_error_info list \<Rightarrow> string" where
  "getFormattedErrorMessages doc errors = concat (map (format_error doc) errors)"

definition getStructuredErrors :: "json_error_info list \<Rightarrow> (nat \<times> nat \<times> string) list" where
  "getStructuredErrors errors = map (\<lambda>e. (er_start e, er_end e, er_message e)) errors"

section \<open>The builder and the stream operator\<close>

definition set_all :: "(string \<times> jvalue) list \<Rightarrow> jvalue \<Rightarrow> jvalue res" where
  "set_all kvs settings = fold_r (\<lambda>(k, v) w. member_set k v w) kvs settings"

definition setDefaults :: "jvalue \<Rightarrow> jvalue res" where
  "setDefaults settings = set_all
     [(''collectComments'', JBool True), (''allowComments'', JBool True), (''strictRoot'', JBool False),
      (''allowDroppedNullPlaceholders'', JBool False), (''allowNumericKeys'', JBool False),
      (''allowSingleQuotes'', JBool False), (''stackLimit'', JInt 1000), (''failIfExtra'', JBool False),
      (''rejectDupKeys'', JBool False), (''allowSpecialFloats'', JBool False)] settings"

definition strictMode :: "jvalue \<Rightarrow> jvalue res" where
  "strictMode settings = set_all
     [(''allowComments'', JBool False), (''strictRoot'', JBool True),
      (''allowDroppedNullPlaceholders'', JBool False), (''allowNumericKeys'', JBool False),
      (''allowSingleQuotes'', JBool False), (''stackLimit'', JInt 1000), (''failIfExtra'', JBool True),
      (''rejectDupKeys'', JBool True), (''allowSpecialFloats'', JBool False)] settings"

definition getValidReaderKeys :: "string set" where
  "getValidReaderKeys = {''collectComments'', ''allowComments'', ''strictRoot'',
     ''allowDroppedNullPlaceholders'', ''allowNumericKeys'', ''allowSingleQuotes'', ''stackLimit'',
     ''failIfExtra'', ''rejectDupKeys'', ''allowSpecialFloats''}"

text \<open>The unknown settings, added to \<open>invalid\<close>; the settings are valid when it stays empty.\<close>

definition validate :: "jvalue \<Rightarrow> jvalue \<Rightarrow> (bool \<times> jvalue) res" where
  "validate settings invalid = bind_r (getMemberNames settings) (\<lambda>keys.
     bind_r (fold_r (\<lambda>key inv. if key \<in> getValidReaderKeys then Ok inv
         else bind_r (member_get key settings) (\<lambda>v. member_set key v inv)) keys invalid) (\<lambda>inv.
     Ok (j_size inv = 0, inv)))"

definition get_bool :: "string \<Rightarrow> jvalue \<Rightarrow> bool res" where
  "get_bool key settings = bind_r (member_get key settings) asBool"

definition newCharReader :: "jvalue \<Rightarrow> (bool \<times> json_features) res" where
  "newCharReader settings =
     bind_r (get_bool ''collectComments'' settings) (\<lambda>collect.
     bind_r (get_bool ''allowComments'' settings) (\<lambda>comments.
     bind_r (get_bool ''strictRoot'' settings) (\<lambda>strict.
     bind_r (get_bool ''allowDroppedNullPlaceholders'' settings) (\<lambda>dropped.
     bind_r (get_bool ''allowNumericKeys'' settings) (\<lambda>numeric.
     bind_r (get_bool ''allowSingleQuotes'' settings) (\<lambda>quotes.
     bind_r (bind_r (member_get ''stackLimit'' settings) asInt) (\<lambda>limit.
     bind_r (get_bool ''failIfExtra'' settings) (\<lambda>extra.
     bind_r (get_bool ''rejectDupKeys'' settings) (\<lambda>dup.
     bind_r (get_bool ''allowSpecialFloats'' settings) (\<lambda>special.
     Ok (collect, \<lparr> allowComments = comments, strictRoot = strict, allowDroppedNullPlaceholders = dropped,
        allowNumericKeys = numeric, allowSingleQuotes = quotes, failIfExtra = extra, rejectDupKeys = dup,
        allowSpecialFloats = special, stackLimit = limit \<rparr>)))))))))))"

text \<open>\<open>parseFromStream\<close> with a builder's settings: the success, the root and the error report.\<close>

definition parseFromStream :: "jvalue \<Rightarrow> string \<Rightarrow> jvalue \<Rightarrow> (bool \<times> jvalue \<times> string) res" where
  "parseFromStream settings doc rootv = bind_r (newCharReader settings) (\<lambda>(collect, fs).
     let (r, s) = parse fs collect doc rootv
     in bind_r r (\<lambda>(ok, v). Ok (ok, v, getFormattedErrorMessages doc (rs_errors s))))"

definition read_stream :: "string \<Rightarrow> jvalue \<Rightarrow> jvalue res" where
  "read_stream doc rootv = bind_r (setDefaults JNull) (\<lambda>settings.
     bind_r (parseFromStream settings doc rootv) (\<lambda>(ok, v, errs).
       if ok then Ok v else json_error errs))"

end
