(* ===== verification/Json_Total.thy ===== *)
theory Json_Total
  imports Json_Reader
begin

text \<open>
  The JSON parser always returns: the fuel of \<^const>\<open>parse_fuel\<close> is enough for every document, no
  access is out of bounds, it reports success exactly when it has recorded no error, and the value
  it builds is well-formed. The argument is a weakest-precondition calculus for programs that must
  not be undefined, and one induction over the recursive descent.
\<close>

section \<open>A calculus for defined programs\<close>

definition wp :: "('s, 'a) prog \<Rightarrow> 's \<Rightarrow> ('a \<Rightarrow> 's \<Rightarrow> bool) \<Rightarrow> bool" where
  "wp m s Q = (case m s of (Ok a, s') \<Rightarrow> Q a s' | (Throw e, s') \<Rightarrow> True | (Undef u, s') \<Rightarrow> False)"

named_theorems wp_simps \<open>weakest preconditions of the combinators\<close>

lemma wp_prims [wp_simps]:
  "wp (ret_p x) s Q = Q x s" "wp (throw_p e) s Q = True" "wp (undef_p u) s Q = False"
  "wp (gets_p f) s Q = Q (f s) s" "wp (mod_p g) s Q' = Q' () (g s)"
  by (simp_all add: wp_def)

lemma wp_bind [wp_simps]: "wp (bind_p m f) s Q = wp m s (\<lambda>a s'. wp (f a) s' Q)"
  by (auto simp: wp_def bind_p_def split: prod.split res.split)

lemma wp_then [wp_simps]: "wp (then_p m n) s Q = wp m s (\<lambda>_ s'. wp n s' Q)"
  by (simp add: then_p_def wp_bind)

lemma wp_if [wp_simps]: "wp (if b then m else n) s Q = (if b then wp m s Q else wp n s Q)"
  by simp

lemma wp_lift: "(\<And>a. r = Ok a \<Longrightarrow> Q a s) \<Longrightarrow> (\<And>u. r \<noteq> Undef u) \<Longrightarrow> wp (lift_p r) s Q"
  by (cases r) (auto simp: wp_def)

lemma wp_mono: "wp m s Q \<Longrightarrow> (\<And>a s'. Q a s' \<Longrightarrow> R a s') \<Longrightarrow> wp m s R"
  by (auto simp: wp_def split: prod.splits res.splits)

lemma wp_for:
  assumes "I s" and "\<And>x s. x \<in> set xs \<Longrightarrow> I s \<Longrightarrow> wp (f x) s (\<lambda>_. I)"
  shows "wp (for_p xs f) s (\<lambda>_. I)"
  using assms
proof (induction xs arbitrary: s)
  case (Cons x xs)
  have "wp (f x) s (\<lambda>_. I)" using Cons.prems by simp
  then show ?case by (auto simp: wp_simps elim!: wp_mono intro!: Cons)
qed (simp add: wp_simps)

section \<open>Tokens\<close>

text \<open>Reading a token changes only the location and the comments.\<close>

definition quiet :: "rst \<Rightarrow> rst \<Rightarrow> bool" where
  "quiet s s' \<longleftrightarrow> rs_errors s' = rs_errors s \<and> rs_depth s' = rs_depth s"

lemma quiet_note: "wp (note_token c tok) s (\<lambda>_ s'. quiet s s' \<and> rs_rest s' = rs_rest s)"
  by (simp add: note_token_def addComment_def setComment_def wp_simps Let_def quiet_def)

lemma quiet_notes: "wp (for_p toks (note_token c)) s (\<lambda>_ s'. quiet s s')"
proof (rule wp_for)
  fix x s' assume q: "quiet s s'"
  show "wp (note_token c x) s' (\<lambda>_. quiet s)"
    by (rule wp_mono [OF quiet_note]) (use q in \<open>simp add: quiet_def\<close>)
qed (simp add: quiet_def)

lemma wp_next_token:
  "wp (next_token c fs) s (\<lambda>tok s'. tok = readToken fs (rs_rest s) \<and> rs_rest s' = tk_end tok \<and> quiet s s')"
  unfolding next_token_def Let_def wp_simps
  by (rule wp_mono [OF quiet_note]) (simp add: quiet_def)

lemma tk_start_readToken: "length (tk_start (readToken fs s)) \<le> length s"
  by (simp add: readToken_def Let_def case_prod_beta length_skipSpaces)

lemma tokens_until_last:
  "length (tk_end (last (tokens_until stop fs s))) \<le> length s \<and>
   length (tk_start (last (tokens_until stop fs s))) \<le> length s \<and>
   (tk_type (last (tokens_until stop fs s)) \<noteq> tokenEndOfStream \<longrightarrow>
      length (tk_end (last (tokens_until stop fs s))) < length s \<and> stop (tk_type (last (tokens_until stop fs s))))"
proof (induction stop fs s rule: tokens_until.induct)
  case (1 stop fs s)
  then show ?case using readToken_le [of fs s] readToken_less [of fs s] tk_start_readToken [of fs s]
    by (subst (1 2 3 4 5) tokens_until.simps) (auto simp: Let_def)
qed

text \<open>What is known of a token: it ends where reading goes on, and uses up text unless it is the end.\<close>

definition token_ok :: "rst \<Rightarrow> token \<Rightarrow> rst \<Rightarrow> bool" where
  "token_ok s tok s' \<longleftrightarrow> quiet s s' \<and> rs_rest s' = tk_end tok \<and> length (rs_rest s') \<le> length (rs_rest s) \<and>
     length (tk_start tok) \<le> length (rs_rest s) \<and>
     (tk_type tok \<noteq> tokenEndOfStream \<longrightarrow> length (rs_rest s') < length (rs_rest s))"

lemma token_next: "wp (next_token c fs) s (token_ok s)"
  by (rule wp_mono [OF wp_next_token]) (simp add: token_ok_def readToken_le readToken_less tk_start_readToken)

lemma token_until: "wp (read_until c fs stop) s (token_ok s)"
  unfolding read_until_def Let_def wp_simps
  by (rule wp_mono [OF quiet_notes])
    (use tokens_until_last [of stop fs "rs_rest s"] in \<open>simp add: token_ok_def quiet_def\<close>)

lemma token_skip: "wp (skip_comments c fs) s (token_ok s)" "wp (skipCommentTokens c fs) s (token_ok s)"
  by (simp_all add: skip_comments_def skipCommentTokens_def token_until token_next)

section \<open>Decoded values\<close>

lemma digit_val_le: "is_digit c \<Longrightarrow> digit_val c \<le> 9"
  by (auto simp: is_digit_def digit_val_def)

lemma num_loop_le:
  "num_loop limit cs value = Some v \<Longrightarrow> value \<le> limit \<Longrightarrow> v \<le> limit"
proof (induction limit cs "value" rule: num_loop.induct)
  case (2 limit c cs val)
  have "val * 10 + digit_val c \<le> limit" if "is_digit c"
      "\<not> (limit div 10 \<le> val \<and> (limit div 10 < val \<or> cs \<noteq> [] \<or> limit mod 10 < digit_val c))"
    using that digit_val_le [OF that(1)] div_mult_mod_eq [of limit 10]
    by (cases "limit div 10 \<le> val") auto
  with 2 show ?case by (auto split: if_splits)
qed simp

lemma i64_range: "minInt64 \<le> i64 x \<and> i64 x \<le> maxInt64"
  using signed_take_bit_int_less_exp [of 63 x] signed_take_bit_int_greater_eq_minus_exp [of 63 x]
  by (simp add: i64_def minInt64_def maxInt64_def)

lemma wf_decodeNumber: "decodeNumber txt = Some v \<Longrightarrow> wf_value v"
  using num_loop_le [of "nat maxUInt64" _ 0] i64_range
  by (auto simp: decodeNumber_def decodeDouble_def Let_def maxUInt64_def maxInt_def minInt64_def maxInt64_def
      split: option.splits if_splits list.splits prod.splits)

lemma asString_defined: "asString v \<noteq> Undef u"
  by (cases v) simp_all

text \<open>Errors are only added, and at least one when the outcome is a failure.\<close>

definition outcome :: "rst \<Rightarrow> bool \<times> jvalue \<Rightarrow> rst \<Rightarrow> bool" where
  "outcome s r s' \<longleftrightarrow> length (rs_rest s') \<le> length (rs_rest s) \<and> wf_value (snd r) \<and>
     (if fst r then rs_errors s' = rs_errors s else rs_errors s' \<noteq> [])"

lemma outcome_later:
  "outcome s' r s'' \<Longrightarrow> rs_errors s' = rs_errors s \<Longrightarrow> length (rs_rest s') \<le> length (rs_rest s) \<Longrightarrow> outcome s r s''"
  by (auto simp: outcome_def)

lemma wp_leave: "outcome s r s' \<Longrightarrow> wp (leave_value c r) s' (outcome s)"
  by (simp add: leave_value_def wp_simps outcome_def)

lemma wp_decode_number:
  "wp (decode_number_tok doc tok) s (\<lambda>r s'. rs_rest s' = rs_rest s \<and>
     (case r of Some v \<Rightarrow> wf_value v \<and> rs_errors s' = rs_errors s | None \<Rightarrow> rs_errors s' \<noteq> []))"
  by (auto simp: decode_number_tok_def addError_def wp_simps Let_def wf_decodeNumber split: option.split)

lemma wp_decode_string:
  "wp (decode_string_tok doc tok) s (\<lambda>r s'. rs_rest s' = rs_rest s \<and>
     (case r of Some v \<Rightarrow> rs_errors s' = rs_errors s | None \<Rightarrow> rs_errors s' \<noteq> []))"
  by (auto simp: decode_string_tok_def addError_def wp_simps split: sum.split)

lemma wp_scalar:
  assumes "is_scalar (tk_type tok)" and "wf_value cur"
  shows "wp (scalar_value doc tok cur) s (outcome s)"
  using assms
  by (auto simp: is_scalar_def scalar_value_def wp_simps outcome_def
      intro!: wp_mono [OF wp_decode_number] wp_mono [OF wp_decode_string] split: option.splits)

lemma wp_recover:
  assumes "rs_errors s' \<noteq> []" and "length (rs_rest s') \<le> length (rs_rest s)" and "wf_value cur"
  shows "wp (recoverFromError c fs ty) s' (\<lambda>ok s''. outcome s (ok, cur) s'')"
  unfolding recoverFromError_def wp_simps
  by (rule wp_mono [OF token_until]) (use assms in \<open>auto simp: token_ok_def quiet_def outcome_def\<close>)

lemma wp_error_recover:
  assumes "length (rs_rest s') \<le> length (rs_rest s)" and "wf_value cur"
  shows "wp (addErrorAndRecover c fs doc msg tok ty) s' (\<lambda>ok s''. outcome s (ok, cur) s'')"
  unfolding addErrorAndRecover_def addError_def wp_simps
  by (rule wp_recover) (use assms in simp_all)

lemma wp_read_name:
  "wp (read_name fs doc tok) s (\<lambda>r s'. rs_rest s' = rs_rest s \<and>
     (case r of Name _ \<Rightarrow> rs_errors s' = rs_errors s \<and> tk_type tok \<noteq> tokenEndOfStream | Name_error \<Rightarrow> rs_errors s' \<noteq> []
      | No_name \<Rightarrow> rs_errors s' = rs_errors s))"
  by (auto simp: read_name_def wp_simps asString_defined
      intro!: wp_mono [OF wp_decode_number] wp_mono [OF wp_decode_string] wp_lift split: option.splits)

section \<open>The recursive descent\<close>

definition fine :: "nat \<Rightarrow> (rst, bool \<times> jvalue) prog \<Rightarrow> rst \<Rightarrow> bool" where
  "fine n m s \<longleftrightarrow> (2 * length (rs_rest s) + 3 \<le> n \<longrightarrow> wp m s (outcome s))"

lemma fineD: "fine n m s' \<Longrightarrow> 2 * length (rs_rest s') + 3 \<le> n \<Longrightarrow> rs_errors s' = rs_errors s \<Longrightarrow>
    length (rs_rest s') \<le> length (rs_rest s) \<Longrightarrow> wp m s' (outcome s)"
  unfolding fine_def by (auto elim!: wp_mono outcome_later)

lemma wp_enter: "wp (enter_value fs) s (\<lambda>_ s'. rs_rest s' = rs_rest s \<and> rs_errors s' = rs_errors s)"
  by (simp add: enter_value_def wp_simps)

lemma wp_comments: "wp (value_comments c) s (\<lambda>_ s'. rs_rest s' = rs_rest s \<and> rs_errors s' = rs_errors s)"
  by (simp add: value_comments_def setComment_def wp_simps)

lemma wp_leave_after: "wp m s' (outcome s) \<Longrightarrow> wp (bind_p m (leave_value c)) s' (outcome s)"
  unfolding wp_simps by (erule wp_mono) (rule wp_leave)

lemma read_value_total:
  assumes obj: "\<And>name cur s. wf_value cur \<Longrightarrow> fine n (readObject c fs doc n name cur) s"
    and arr: "\<And>index cur s. wf_value cur \<Longrightarrow> fine n (readArray c fs doc n index cur) s"
    and len: "2 * length (rs_rest s) + 2 \<le> Suc n" and cur: "wf_value cur"
  shows "wp (read_value c fs doc (Suc n) cur) s (outcome s)"
  unfolding read_value.simps wp_then wp_bind
proof (rule wp_mono [OF wp_enter], rule wp_mono [OF token_skip(2)], rule wp_mono [OF wp_comments], elim conjE)
  fix s1 s2 s3 :: rst and tok
  assume s1: "rs_rest s1 = rs_rest s" "rs_errors s1 = rs_errors s" and tok: "token_ok s1 tok s2"
    and s3: "rs_rest s3 = rs_rest s2" "rs_errors s3 = rs_errors s2"
  have e: "rs_errors s3 = rs_errors s" and le: "length (rs_rest s3) \<le> length (rs_rest s)"
    and less: "tk_type tok \<noteq> tokenEndOfStream \<Longrightarrow> length (rs_rest s3) < length (rs_rest s)"
    using tok s1 s3 by (auto simp: token_ok_def quiet_def)
  have obj': "wp (bind_p (readObject c fs doc n [] (JObject [])) (leave_value c)) s3 (outcome s)"
    if "tk_type tok = tokenObjectBegin"
    by (intro wp_leave_after fineD [OF obj]) (use e less len that in \<open>simp_all add: amap_ok_Nil\<close>)
  have arr': "wp (bind_p (readArray c fs doc n 0 (JArray [])) (leave_value c)) (rs_rest_update skipSpaces s3) (outcome s)"
    if "tk_type tok = tokenArrayBegin"
    using length_skipSpaces [of "rs_rest s3"] less len e that
    by (intro wp_leave_after fineD [OF arr]) (simp_all add: amap_ok_Nil)
  have close: "wp (next_token c fs) (rs_rest_update skipSpaces s3) (\<lambda>_ s'. wp (leave_value c (True, JArray [])) s' (outcome s))"
    by (rule wp_mono [OF token_next], rule wp_leave)
      (use le e length_skipSpaces [of "rs_rest s3"] in \<open>auto simp: outcome_def token_ok_def quiet_def amap_ok_Nil\<close>)
  have scalar: "wp (bind_p (scalar_value doc tok cur) (leave_value c)) s3 (outcome s)" if "is_scalar (tk_type tok)"
    by (intro wp_leave_after wp_mono [OF wp_scalar [OF that cur]]) (rule outcome_later [OF _ e le])
  have "length (tk_start tok) \<le> length (rs_rest s)"
    using tok s1 by (simp add: token_ok_def)
  then have dropped: "wp (leave_value c (True, JNull)) (rs_rest_update (\<lambda>_. tk_start tok) s3) (outcome s)"
    by (intro wp_leave) (simp add: outcome_def e)
  have err: "wp (addError doc msg tok None) s3 (\<lambda>_. outcome s (False, cur))" for msg
    using le cur by (simp add: addError_def wp_simps outcome_def)
  let ?V = "if tk_type tok = tokenObjectBegin then bind_p (readObject c fs doc n [] (JObject [])) (leave_value c)
     else if tk_type tok = tokenArrayBegin then
       then_p (mod_p (rs_rest_update skipSpaces))
       (bind_p (gets_p rs_rest) (\<lambda>s. if peek s = CHR '']''
          then then_p (next_token c fs) (leave_value c (True, JArray []))
          else bind_p (readArray c fs doc n 0 (JArray [])) (leave_value c)))
     else if is_scalar (tk_type tok) then bind_p (scalar_value doc tok cur) (leave_value c)
     else if tk_type tok \<in> {tokenArraySeparator, tokenObjectEnd, tokenArrayEnd} \<and> allowDroppedNullPlaceholders fs then
       then_p (mod_p (rs_rest_update (\<lambda>_. tk_start tok))) (leave_value c (True, JNull))
     else then_p (addError doc ''Syntax error: value, object or array expected.'' tok None) (ret_p (False, cur))"
  show "wp ?V s3 (outcome s)"
    using obj' arr' close scalar dropped err by (simp only: wp_simps split: if_splits) blast
qed

lemma wp_recover_with:
  assumes "rs_errors s' \<noteq> []" and "length (rs_rest s') \<le> length (rs_rest s)" and "wf_value cur"
  shows "wp (bind_p (recoverFromError c fs ty) (\<lambda>ok. ret_p (ok, cur))) s' (outcome s)"
  unfolding wp_simps using assms by (rule wp_recover)

lemma wp_error_recover_with:
  assumes "length (rs_rest s') \<le> length (rs_rest s)" and "wf_value cur"
  shows "wp (bind_p (addErrorAndRecover c fs doc msg tok ty) (\<lambda>ok. ret_p (ok, cur))) s' (outcome s)"
  unfolding wp_simps using assms by (rule wp_error_recover)

lemma array_ref_wf: "array_ref i v = Ok (v', e) \<Longrightarrow> wf_value v \<Longrightarrow> wf_value v' \<and> wf_value e"
  by (cases v) (auto simp: array_ref_def amap_ok_Nil dest!: in_amap_put dest: amap_get_in split: option.splits)

lemma resolveReference_wf: "resolveReference key v = Ok (v', e) \<Longrightarrow> wf_value v \<Longrightarrow> wf_value v' \<and> wf_value e"
  by (cases v) (auto simp: resolveReference_def amap_ok_Nil dest!: in_amap_put dest: amap_get_in split: option.splits)

lemma access_defined:
  "array_ref i v \<noteq> Undef u" "array_set i e v \<noteq> Undef u" "resolveReference k v \<noteq> Undef u"
  "member_set k e v \<noteq> Undef u" "isMember k v \<noteq> Undef u"
  by (cases v; simp add: array_ref_def array_set_def resolveReference_def member_set_def isMember_def find_member_def
      split: option.split)+

lemma readArray_total:
  assumes val: "\<And>cur s. wf_value cur \<Longrightarrow> 2 * length (rs_rest s) + 2 \<le> n \<Longrightarrow> wp (read_value c fs doc n cur) s (outcome s)"
    and arr: "\<And>index cur s. wf_value cur \<Longrightarrow> fine n (readArray c fs doc n index cur) s"
    and len: "2 * length (rs_rest s) + 3 \<le> Suc n" and cur: "wf_value cur"
  shows "wp (readArray c fs doc (Suc n) index cur) s (outcome s)"
  unfolding readArray.simps wp_bind case_prod_beta
proof (rule wp_lift [OF _ access_defined(1)], rule wp_mono [OF val], goal_cases)
  case (1 r) then show ?case using array_ref_wf [of index cur "fst r" "snd r"] cur by simp
next
  case 2 then show ?case using len by simp
next
  case (3 r q s1)
  show ?case
  proof (rule wp_lift [OF _ access_defined(2)], goal_cases)
    case (1 cur')
    have w: "wf_value cur'" using wf_array_set [OF 1 cur] 3(2) by (simp add: outcome_def)
    show ?case
    proof (cases "fst q")
      case False
      then show ?thesis using wp_recover_with [of s1 s cur'] w 3(2) by (simp add: outcome_def)
    next
      case True
      then have s1: "rs_errors s1 = rs_errors s" "length (rs_rest s1) \<le> length (rs_rest s)"
        using 3(2) by (auto simp: outcome_def)
      from True have nf: "(\<not> fst q) = False" by simp
      show ?thesis
        unfolding nf if_False wp_bind
      proof (rule wp_mono [OF token_skip(1)], goal_cases)
        case (1 tok s2)
        then have s2: "rs_errors s2 = rs_errors s" "length (rs_rest s2) \<le> length (rs_rest s)"
          "tk_type tok \<noteq> tokenEndOfStream \<Longrightarrow> length (rs_rest s2) < length (rs_rest s)"
          using s1 by (auto simp: token_ok_def quiet_def)
        then show ?case
          using wp_error_recover_with [of s2 s cur'] w fineD [OF arr [OF w], of s2 s] len
          by (auto simp: wp_prims outcome_def)
      qed
    qed
  qed
qed

text \<open>What follows the value of a member.\<close>

lemma object_tail_total:
  assumes obj: "\<And>name cur s. wf_value cur \<Longrightarrow> fine n (readObject c fs doc n name cur) s"
    and w: "wf_value cur" and e: "rs_errors s1 = rs_errors s"
    and le: "length (rs_rest s1) \<le> length (rs_rest s)" and len: "2 * length (rs_rest s) + 3 \<le> Suc n"
  shows "wp (bind_p (next_token c fs) (\<lambda>comma.
      if tk_type comma \<notin> {tokenObjectEnd, tokenArraySeparator, tokenComment} then
        bind_p (addErrorAndRecover c fs doc msg comma tokenObjectEnd) (\<lambda>ok. ret_p (ok, cur))
      else bind_p (if tk_type comma = tokenComment then skip_comments c fs else ret_p comma) (\<lambda>comma.
        if tk_type comma = tokenObjectEnd then ret_p (True, cur) else readObject c fs doc n name cur))) s1 (outcome s)"
  unfolding wp_bind
proof (rule wp_mono [OF token_next], goal_cases)
  case (1 comma s2)
  then have s2: "rs_errors s2 = rs_errors s" "length (rs_rest s2) \<le> length (rs_rest s)"
    "tk_type comma \<noteq> tokenEndOfStream \<Longrightarrow> length (rs_rest s2) < length (rs_rest s)"
    using e le by (auto simp: token_ok_def quiet_def)
  have rest: "wp (if tk_type tok = tokenObjectEnd then ret_p (True, cur) else readObject c fs doc n name cur) s3 (outcome s)"
    if "rs_errors s3 = rs_errors s" "length (rs_rest s3) < length (rs_rest s)" for tok s3
    using that fineD [OF obj [OF w], of s3 s] w len by (simp add: wp_prims outcome_def)
  have skip: "wp (skip_comments c fs) s2 (\<lambda>tok s3. wp (if tk_type tok = tokenObjectEnd then ret_p (True, cur)
      else readObject c fs doc n name cur) s3 (outcome s))" if "tk_type comma = tokenComment"
    by (rule wp_mono [OF token_skip(1)], rule rest) (use s2 that in \<open>auto simp: token_ok_def quiet_def\<close>)
  show ?case
    using wp_error_recover_with [OF s2(2) w] rest [of s2 comma] skip s2
    by (auto simp add: wp_prims wp_bind simp del: if_weak_cong)
qed

text \<open>A member from its colon on.\<close>

lemma object_member_total:
  assumes val: "\<And>cur s. wf_value cur \<Longrightarrow> 2 * length (rs_rest s) + 2 \<le> n \<Longrightarrow> wp (read_value c fs doc n cur) s (outcome s)"
    and obj: "\<And>name cur s. wf_value cur \<Longrightarrow> fine n (readObject c fs doc n name cur) s"
    and w: "wf_value cur" and e: "rs_errors s1 = rs_errors s"
    and less: "length (rs_rest s1) < length (rs_rest s)" and len: "2 * length (rs_rest s) + 3 \<le> Suc n"
  shows "wp (bind_p (lift_p (isMember name cur)) (\<lambda>dup.
      if rejectDupKeys fs \<and> dup then
        bind_p (addErrorAndRecover c fs doc msg tok tokenObjectEnd) (\<lambda>ok. ret_p (ok, cur))
      else bind_p (lift_p (resolveReference name cur)) (\<lambda>(_, old).
        bind_p (read_value c fs doc n old) (\<lambda>(ok, v).
        bind_p (lift_p (member_set name v cur)) (\<lambda>cur'.
          if \<not> ok then bind_p (recoverFromError c fs tokenObjectEnd) (\<lambda>ok. ret_p (ok, cur'))
          else bind_p (next_token c fs) (\<lambda>comma.
            if tk_type comma \<notin> {tokenObjectEnd, tokenArraySeparator, tokenComment} then
              bind_p (addErrorAndRecover c fs doc msg' comma tokenObjectEnd) (\<lambda>ok. ret_p (ok, cur'))
            else bind_p (if tk_type comma = tokenComment then skip_comments c fs else ret_p comma) (\<lambda>comma.
              if tk_type comma = tokenObjectEnd then ret_p (True, cur')
              else readObject c fs doc n name cur'))))))) s1 (outcome s)"
proof -
  have value': "wp (bind_p (lift_p (resolveReference name cur)) (\<lambda>(_, old).
        bind_p (read_value c fs doc n old) (\<lambda>(ok, v).
        bind_p (lift_p (member_set name v cur)) (\<lambda>cur'. k ok cur')))) s1 (outcome s)"
    if k: "\<And>ok cur' s2. wf_value cur' \<Longrightarrow> (if ok then rs_errors s2 = rs_errors s else rs_errors s2 \<noteq> []) \<Longrightarrow>
      length (rs_rest s2) \<le> length (rs_rest s) \<Longrightarrow> wp (k ok cur') s2 (outcome s)" for k
    unfolding wp_bind case_prod_beta
  proof (rule wp_lift [OF _ access_defined(3)], rule wp_mono [OF val], goal_cases)
    case (1 r) then show ?case using resolveReference_wf [of name cur "fst r" "snd r"] w by simp
  next
    case 2 then show ?case using less len by simp
  next
    case (3 r q s2)
    show ?case
      by (rule wp_lift [OF _ access_defined(4)], rule k)
        (use 3(2) e less wf_member_set [OF _ w] in \<open>auto simp: outcome_def split: if_splits\<close>)
  qed
  show ?thesis
    unfolding wp_bind [of "lift_p (isMember name cur)"]
  proof (rule wp_lift [OF _ access_defined(5)])
    fix dup
    show "wp (if rejectDupKeys fs \<and> dup then
        bind_p (addErrorAndRecover c fs doc msg tok tokenObjectEnd) (\<lambda>ok. ret_p (ok, cur))
      else bind_p (lift_p (resolveReference name cur)) (\<lambda>(_, old).
        bind_p (read_value c fs doc n old) (\<lambda>(ok, v).
        bind_p (lift_p (member_set name v cur)) (\<lambda>cur'.
          if \<not> ok then bind_p (recoverFromError c fs tokenObjectEnd) (\<lambda>ok. ret_p (ok, cur'))
          else bind_p (next_token c fs) (\<lambda>comma.
            if tk_type comma \<notin> {tokenObjectEnd, tokenArraySeparator, tokenComment} then
              bind_p (addErrorAndRecover c fs doc msg' comma tokenObjectEnd) (\<lambda>ok. ret_p (ok, cur'))
            else bind_p (if tk_type comma = tokenComment then skip_comments c fs else ret_p comma) (\<lambda>comma.
              if tk_type comma = tokenObjectEnd then ret_p (True, cur')
              else readObject c fs doc n name cur')))))) s1 (outcome s)"
    proof (cases "rejectDupKeys fs \<and> dup")
      case True
      then show ?thesis using wp_error_recover_with [of s1 s cur] less w by simp
    next
      case False
      show ?thesis
        unfolding if_not_P [OF False]
      proof (rule value', goal_cases)
        case (1 ok cur' s2)
        then show ?case
          using object_tail_total [OF obj, of cur' s2 s] wp_recover_with [of s2 s cur'] len
          by (cases ok) simp_all
      qed
    qed
  qed
qed

lemma readObject_total:
  assumes val: "\<And>cur s. wf_value cur \<Longrightarrow> 2 * length (rs_rest s) + 2 \<le> n \<Longrightarrow> wp (read_value c fs doc n cur) s (outcome s)"
    and obj: "\<And>name cur s. wf_value cur \<Longrightarrow> fine n (readObject c fs doc n name cur) s"
    and len: "2 * length (rs_rest s) + 3 \<le> Suc n" and w: "wf_value cur"
  shows "wp (readObject c fs doc (Suc n) name cur) s (outcome s)"
  unfolding readObject.simps wp_bind [of "skip_comments c fs"]
proof (rule wp_mono [OF token_skip(1)], goal_cases)
  case (1 tok s1)
  then have s1: "rs_errors s1 = rs_errors s" "length (rs_rest s1) \<le> length (rs_rest s)"
    and less: "tk_type tok \<noteq> tokenEndOfStream \<Longrightarrow> length (rs_rest s1) < length (rs_rest s)"
    by (auto simp: token_ok_def quiet_def)
  have stop: "wp (ret_p (True, cur)) s1 (outcome s)"
    using s1 w by (simp add: wp_prims outcome_def)
  show ?case
    unfolding wp_if wp_bind [of "read_name fs doc tok"]
  proof (intro if_bothI [where P = "\<lambda>b. b"] stop wp_mono [OF wp_read_name], goal_cases)
    case (1 r s2)
    then have s2: "length (rs_rest s2) \<le> length (rs_rest s)" using s1 by simp
    show ?case
    proof (cases r)
      case (Name name')
      have some: "tk_type tok \<noteq> tokenEndOfStream" using 1 Name by simp
      show ?thesis
        unfolding Name member_name.case wp_bind [of "next_token c fs"]
      proof (rule wp_mono [OF token_next], goal_cases)
        case (1 colon s3)
        then have s3: "rs_errors s3 = rs_errors s" "length (rs_rest s3) < length (rs_rest s)"
          using s1 \<open>rs_rest s2 = rs_rest s1 \<and> _\<close> less [OF some] Name by (auto simp: token_ok_def quiet_def)
        show ?case
          unfolding wp_if wp_prims
          using wp_error_recover_with [of s3 s cur] s3 w object_member_total [OF val obj w s3 len]
          by auto
      qed
    next
      case Name_error
      then show ?thesis using wp_recover_with [of s2 s cur] 1 s2 w by simp
    next
      case No_name
      then show ?thesis using wp_error_recover_with [of s2 s cur] s2 w by simp
    qed
  qed
qed

theorem read_total:
  "(\<forall>s cur. wf_value cur \<longrightarrow> 2 * length (rs_rest s) + 2 \<le> n \<longrightarrow> wp (read_value c fs doc n cur) s (outcome s)) \<and>
   (\<forall>s name cur. wf_value cur \<longrightarrow> fine n (readObject c fs doc n name cur) s) \<and>
   (\<forall>s index cur. wf_value cur \<longrightarrow> fine n (readArray c fs doc n index cur) s)"
proof (induction n)
  case (Suc n)
  have val: "wp (read_value c fs doc n cur) s (outcome s)" if "wf_value cur" "2 * length (rs_rest s) + 2 \<le> n" for cur s
    using Suc.IH that by blast
  have obj: "fine n (readObject c fs doc n name cur) s" and arr: "fine n (readArray c fs doc n index cur) s"
    if "wf_value cur" for name index cur s
    using Suc.IH that by blast+
  show ?case
    using read_value_total [OF obj arr] readObject_total [OF val obj] readArray_total [OF val arr]
    by (simp add: fine_def del: read_value.simps readObject.simps readArray.simps)
qed (simp add: fine_def)

section \<open>Whole documents\<close>

lemma wp_parse:
  assumes "wf_value rootv"
  shows "wp (parse_prog fs collect doc rootv) (initial_rst doc)
     (\<lambda>(ok, v) s'. wf_value v \<and> (ok \<longrightarrow> rs_errors s' = []) \<and> (\<not> ok \<longrightarrow> rs_errors s' \<noteq> []))"
  unfolding parse_prog_def Let_def wp_bind case_prod_beta
proof (rule wp_mono, rule read_total [THEN conjunct1, rule_format, OF assms], goal_cases)
  case 1
  then show ?case by (simp add: initial_rst_def parse_fuel_def)
next
  case (2 r s1)
  then show ?case
    by (intro wp_mono [OF token_skip(2)])
      (auto simp: wp_simps outcome_def token_ok_def quiet_def addError_def setComment_def initial_rst_def split: if_splits)
qed



end
