(* ===== verification/Config.thy ===== *)
theory Config
  imports Json_Total System
begin

text \<open>
  \<open>Server::parse_configfile\<close> (\<open>server/server.cpp\<close>) and the constructor that calls it: the JSON
  configuration becomes the address and port of the server and its map of devices. The build's
  options \<open>USE_STXXL\<close> and \<open>USE_DEVICE_APCAPE\<close> are parameters. The log file the function opens and the
  disk it gives to STXXL have no part in the server's state, but reading their settings can fail.

  Accesses through a mutable reference create missing members as null. Such a member reads as the
  missing one did, so the document is kept as it was parsed.
\<close>

section \<open>Reading the document\<close>

definition ref_get :: "string \<Rightarrow> jvalue \<Rightarrow> jvalue res" where
  "ref_get key v = bind_r (resolveReference key v) (\<lambda>(_, e). Ok e)"

text \<open>The members an access creates do not change what later accesses read.\<close>

lemma ref_get_stable:
  assumes "resolveReference key v = Ok (v', e)"
  shows "ref_get k v' = ref_get k v"
  using assms by (cases v) (auto simp: ref_get_def resolveReference_def split: option.splits)

section \<open>Configuration\<close>

record build =
  use_stxxl :: bool
  use_apcape :: bool

record cfg =
  cf_server :: server
  cf_computers :: "(string, computer) amap"

definition config_computer :: "jvalue \<Rightarrow> string \<Rightarrow> (cfg, unit) prog" where
  "config_computer conf c = (\<lambda>s.
     case bind_r (ref_get ''computers'' conf) (\<lambda>cs. bind_r (ref_get c cs) (\<lambda>v. bind_r (ref_get ''ip'' v) asString)) of
       Ok ip \<Rightarrow> (Ok (), s\<lparr>cf_computers := amap_put c \<lparr>comp_name = c, comp_ip = ip\<rparr> (cf_computers s)\<rparr>)
     | Throw e \<Rightarrow> (Throw e, s)
     | Undef u \<Rightarrow> (Undef u, s))"

text \<open>
  The computer of a device or of a line. When it is not \<open>needed\<close>, a missing or unknown one is the
  default; otherwise \<open>operator[]\<close> adds an unknown one to the map.
\<close>

definition pick_computer ::
  "bool \<Rightarrow> jvalue \<Rightarrow> (string, computer) amap \<Rightarrow> (computer \<times> (string, computer) amap) res" where
  "pick_computer needed v computers =
     (if needed \<and> isNull v then Ok (Computer_default, computers)
      else bind_r (asString v) (\<lambda>name. case amap_get computers name of
          Some c \<Rightarrow> Ok (c, computers)
        | None \<Rightarrow> Ok (Computer_default, if needed then computers else amap_put name Computer_default computers)))"

text \<open>The line numbers of a device: each of \<open>0 .. n - 1\<close>, once.\<close>

definition check_number :: "string \<Rightarrow> int \<Rightarrow> bool list \<Rightarrow> bool list res" where
  "check_number dn number check_lines =
     (if 0 \<le> number \<and> number < int (length check_lines) \<and> \<not> check_lines ! nat number
      then Ok (check_lines[nat number := True])
      else if 0 \<le> number \<and> number < int (length check_lines) \<and> check_lines ! nat number
      then Throw (Runtime_error (''Error: Line number '' @ to_string number @ '' of device '' @ dn @
        '' is defined more than once!''))
      else Throw (Runtime_error (''Error: Line number '' @ to_string number @ '' of device '' @ dn @
        '' should be between 0 and '' @ to_string (int (length check_lines) - 1) @ ''!'')))"

type_synonym line_state = "bool list \<times> (string, computer) amap \<times> device"

definition config_line :: "string \<Rightarrow> jvalue \<Rightarrow> string \<Rightarrow> line_state \<Rightarrow> line_state res" where
  "config_line dn lines lname st = (case st of (check_lines, computers, dev) \<Rightarrow>
     bind_r (ref_get lname lines) (\<lambda>l.
     bind_r (bind_r (ref_get ''number'' l) asInt) (\<lambda>number.
     bind_r (check_number dn number check_lines) (\<lambda>check_lines'.
     bind_r (bind_r (ref_get ''computer'' l) (\<lambda>v. pick_computer (d_pdu dev) v computers)) (\<lambda>(c, computers').
     bind_r (bind_r (ref_get ''description'' l) asString) (\<lambda>description.
     bind_r (bind_r (get_default ''metric'' (JString ''default'') l) asString) (\<lambda>metric.
     bind_r (bind_r (ref_get ''voltage'' l) asFloat) (\<lambda>voltage.
     bind_r (bind_r (get_default ''offset'' (JReal d_zero) l) asFloat) (\<lambda>offset.
     bind_r (bind_r (get_default ''slope'' (JReal d_zero) l) asFloat) (\<lambda>slope.
     Ok (check_lines', computers', register_line lname description metric number c voltage offset slope dev)))))))))))"

definition config_device ::
  "build \<Rightarrow> jvalue \<Rightarrow> string \<Rightarrow> (string, computer) amap \<Rightarrow> (device \<times> (string, computer) amap) res" where
  "config_device b conf dn computers =
     bind_r (bind_r (ref_get ''devices'' conf) (ref_get dn)) (\<lambda>d.
     bind_r (bind_r (ref_get ''type'' d) asString) (\<lambda>ty.
     bind_r (bind_r (ref_get ''url'' d) asString) (\<lambda>url.
     bind_r (ref_get ''lines'' d) (\<lambda>lines.
     case create_device (use_apcape b) ty dn url of
       None \<Rightarrow> Throw (Runtime_error (''Error: Module of type '' @ ty @ '' for device '' @ dn @
         '' is not currently supported!''))
     | Some dev \<Rightarrow>
         if isNull lines then Throw (Runtime_error (''Error: Device '' @ dn @ '' has no lines defined!''))
         else bind_r (getMemberNames lines) (\<lambda>names.
           if int (length names) \<noteq> d_n_lines dev
           then Throw (Runtime_error (''Error: Device '' @ dn @ '' requires exactly '' @ to_string (d_n_lines dev) @
             '' lines, but '' @ to_string (int (length names)) @ '' are defined!''))
           else bind_r (bind_r (ref_get ''computer'' d) (\<lambda>v. pick_computer (\<not> d_pdu dev) v computers)) (\<lambda>(c, computers').
             bind_r (fold_r (config_line dn lines) names
               (replicate (length names) False, computers', dev\<lparr>d_computer := c\<rparr>)) (\<lambda>(_, computers'', dev').
             Ok (dev', computers''))))))))"

definition add_device :: "build \<Rightarrow> jvalue \<Rightarrow> string \<Rightarrow> (cfg, unit) prog" where
  "add_device b conf dn = (\<lambda>s. case config_device b conf dn (cf_computers s) of
       Ok (dev, computers) \<Rightarrow> (Ok (), s\<lparr>cf_computers := computers,
          cf_server := (cf_server s)\<lparr>sv_devices := amap_put dn dev (sv_devices (cf_server s))\<rparr>\<rparr>)
     | Throw e \<Rightarrow> (Throw e, s)
     | Undef u \<Rightarrow> (Undef u, s))"

text \<open>The port is an \<open>int\<close> stored in a \<open>short\<close>.\<close>

definition to_short :: "int \<Rightarrow> int" where
  "to_short p = signed_take_bit 15 p"

definition member_names :: "string \<Rightarrow> jvalue \<Rightarrow> string list res" where
  "member_names key conf = bind_r (ref_get key conf) getMemberNames"

text \<open>
  The settings of the STXXL disk: its name, its size in bytes, computed with \<open>int\<close>s, and its properties.
\<close>

definition stxxl_disk :: "jvalue \<Rightarrow> (string \<times> int \<times> string) res" where
  "stxxl_disk conf =
     bind_r (bind_r (get_default ''stxxl_disk_name'' (JString ''data.tmp'') conf) asString) (\<lambda>name.
     bind_r (bind_r (get_default ''stxxl_disk_mb_size'' (JInt 1024) conf) asInt) (\<lambda>mb.
     bind_r (if is_i32 (mb * 1024) \<and> is_i32 (mb * 1024 * 1024) then Ok (mb * 1024 * 1024) else Undef ''int overflow'') (\<lambda>size.
     bind_r (bind_r (get_default ''stxxl_disk_properties'' (JString ''syscall delete autogrow direct=try'') conf) asString) (\<lambda>props.
     Ok (name, size, props)))))"

definition config_body :: "build \<Rightarrow> string \<Rightarrow> (cfg, unit) prog" where
  "config_body b doc =
     bind_p (lift_p (read_stream doc JNull)) (\<lambda>conf.
     then_p (if use_stxxl b then bind_p (lift_p (stxxl_disk conf)) (\<lambda>disk. ret_p ()) else ret_p ())
     (bind_p (lift_p (bind_r (get_default ''server_ip'' (JString ''0.0.0.0'') conf) asString)) (\<lambda>ip.
     then_p (mod_p (\<lambda>s. s\<lparr>cf_server := (cf_server s)\<lparr>sv_IP := ip\<rparr>\<rparr>))
     (bind_p (lift_p (bind_r (get_default ''server_port'' (JInt 6526) conf) asInt)) (\<lambda>port.
     then_p (mod_p (\<lambda>s. s\<lparr>cf_server := (cf_server s)\<lparr>sv_port := to_short port\<rparr>\<rparr>))
     (bind_p (lift_p (bind_r (get_default ''server_logfile'' (JString ''pmlib_%N.log'') conf) asString)) (\<lambda>logfile.
     bind_p (lift_p (member_names ''computers'' conf)) (\<lambda>computers.
     then_p (for_p computers (config_computer conf))
     (bind_p (lift_p (member_names ''devices'' conf)) (\<lambda>devices.
     then_p (for_p devices (add_device b conf))
     (bind_p (gets_p (\<lambda>s. sv_devices (cf_server s))) (\<lambda>device_map.
       if device_map = [] then throw_p (Runtime_error ''Error: PMLib server could not start, no devices found!'')
       else ret_p ())))))))))))) "

definition parse_configfile :: "build \<Rightarrow> string \<Rightarrow> (cfg, unit) prog" where
  "parse_configfile b doc = catch_p (config_body b doc) (\<lambda>e. ret_p ())"

text \<open>The constructor: what the members not set by the initialisers hold is arbitrary.\<close>

definition server_new :: "build \<Rightarrow> int \<Rightarrow> bool \<Rightarrow> string \<Rightarrow> server" where
  "server_new b port0 daemonize doc =
     cf_server (snd (parse_configfile b doc
       \<lparr>cf_server = \<lparr>sv_IP = [], sv_port = port0, sv_daemonize = daemonize, sv_devices = [], sv_nextid = 0\<rparr>,
        cf_computers = []\<rparr>))"

section \<open>Configured devices\<close>

text \<open>A device no counter has touched, with ordered lines.\<close>

definition untouched :: "device \<Rightarrow> bool" where
  "untouched d \<longleftrightarrow> amap_ok (d_lines d) \<and> (\<forall>(_, w) \<in> set (d_lines d). l_enabled w = 0 \<and> l_active w = 0) \<and>
     d_counter_map d = [] \<and> 0 < d_max_frequency d"

lemma amap_put_subset: "set (amap_put k v m) \<subseteq> insert (k, v) (set m)"
  by (induction k v m rule: amap_put.induct) auto

lemma fold_put_subset: "set (fold (\<lambda>(k, v). amap_put k v) kvs m) \<subseteq> set kvs \<union> set m"
proof (induction kvs arbitrary: m)
  case (Cons kv kvs)
  obtain k v where kv: "kv = (k, v)" by (cases kv)
  show ?case using Cons [of "amap_put k v m"] amap_put_subset [of k v m] by (auto simp: kv)
qed simp

lemma create_device_untouched:
  assumes "create_device a ty name url = Some d"
  shows "untouched d \<and> d_lines d = []"
proof -
  obtain f where f: "amap_get (device_register a) ty = Some f" "d = f name url"
    using assms by (auto simp: create_device_def)
  have "(ty, f) \<in> set (device_register a)" using f(1) by (rule amap_get_in)
  then show ?thesis
    using fold_put_subset unfolding device_register_def f(2)
    by (fastforce simp: untouched_def Device_new_def split: if_splits)
qed

lemma check_number_Ok:
  assumes "check_number dn number check = Ok check'"
  shows "0 \<le> number" "nat number < length check" "\<not> check ! nat number" "check' = check[nat number := True]"
  using assms by (auto simp: check_number_def split: if_splits)

text \<open>After \<open>k\<close> lines: as many numbers are taken, and the lines are those with the numbers taken.\<close>

definition line_inv :: "nat \<Rightarrow> nat \<Rightarrow> line_state \<Rightarrow> bool" where
  "line_inv n k st = (case st of (check, _, d) \<Rightarrow> length check = n \<and> card {i. i < n \<and> check ! i} = k \<and>
     d_n_lines d = int n \<and> untouched d \<and> set (map fst (d_lines d)) = int ` {i. i < n \<and> check ! i})"

lemma line_inv_step:
  assumes "line_inv n k st" and "config_line dn lines lname st = Ok st'"
  shows "line_inv n (Suc k) st'"
proof -
  obtain check comps d where st: "st = (check, comps, d)" by (cases st)
  from assms(2) obtain number check' comps' nm ds m c v off sl where
    n: "check_number dn number check = Ok check'" and
    st': "st' = (check', comps', register_line lname ds m number c v off sl d)"
    unfolding st config_line_def by (fastforce simp: bind_r_Ok_iff)
  let ?T = "{i. i < n \<and> check ! i}" and ?T' = "{i. i < n \<and> check' ! i}"
  note num = check_number_Ok [OF n]
  have inv: "length check = n" "card ?T = k" "d_n_lines d = int n" "untouched d"
    "set (map fst (d_lines d)) = int ` ?T"
    using assms(1) by (simp_all add: line_inv_def st)
  have T': "?T' = insert (nat number) ?T" and fresh: "nat number \<notin> ?T"
    using num inv(1) by (auto simp: nth_list_update)
  have "card ?T' = Suc k" unfolding T' using fresh inv(2) by simp
  moreover have "untouched (register_line lname ds m number c v off sl d)"
    using inv(4) amap_put_subset [of number _ "d_lines d"]
    by (fastforce simp: untouched_def register_line_def Let_def Line_new_def)
  moreover have "set (map fst (amap_put number w (d_lines d))) = int ` ?T'" for w
    using amap.keys_put [of "d_lines d" number w] inv(4,5) num(1) unfolding T'
    by (simp add: untouched_def amap_keys_def)
  ultimately show ?thesis
    using inv num by (simp add: line_inv_def st' register_line_def Let_def)
qed

lemma line_inv_fold:
  assumes "fold_r (config_line dn lines) names st = Ok st'" and "line_inv n k st"
  shows "line_inv n (k + length names) st'"
  using assms
proof (induction names arbitrary: k st)
  case (Cons x names)
  then obtain st1 where "config_line dn lines x st = Ok st1" "fold_r (config_line dn lines) names st1 = Ok st'"
    by (auto simp: bind_r_Ok_iff)
  then show ?case using Cons.IH [of st1 "Suc k"] line_inv_step [OF Cons.prems(2)] by simp
qed simp

text \<open>A device that is configured has exactly the lines \<open>0 .. n - 1\<close>, none enabled.\<close>

lemma config_device_ok:
  assumes "config_device b conf dn computers = Ok (d, computers')"
  shows "dev_ok d \<and> untouched d"
proof -
  from assms obtain dev ty url names c lines check comps comps' where
    dev: "create_device (use_apcape b) ty dn url = Some dev" and names: "int (length names) = d_n_lines dev"
    and fold: "fold_r (config_line dn lines) names
      (replicate (length names) False, comps, dev\<lparr>d_computer := c\<rparr>) = Ok (check, comps', d)"
    unfolding config_device_def by (fastforce simp: bind_r_Ok_iff split: option.splits if_splits)
  let ?n = "length names"
  have "line_inv ?n 0 (replicate ?n False, comps, dev\<lparr>d_computer := c\<rparr>)"
    using create_device_untouched [OF dev] names by (auto simp: line_inv_def untouched_def)
  from line_inv_fold [OF fold this] have inv: "length check = ?n" "card {i. i < ?n \<and> check ! i} = ?n"
    "d_n_lines d = int ?n" "untouched d" "set (map fst (d_lines d)) = int ` {i. i < ?n \<and> check ! i}"
    by (auto simp: line_inv_def)
  have "{i. i < ?n \<and> check ! i} = {..<?n}"
    using inv(2) by (intro card_subset_eq) auto
  then have "set (map fst (d_lines d)) = set (map int [0..<?n])" using inv(5) by (auto simp: lessThan_def)
  moreover have "sorted_wrt (<) (map fst (d_lines d))" "sorted_wrt (<) (map int [0..<?n])"
    using inv(4) by (simp_all add: untouched_def amap_ok_def sorted_wrt_map)
  ultimately have "map fst (d_lines d) = map int [0..<?n]"
    by (metis strict_sorted_equal)
  then show ?thesis using inv(3,4) by (simp add: dev_ok_def untouched_def)
qed

section \<open>The configured server\<close>

lemma for_p_throws:
  "for_p xs f s = (Ok (), s1) \<Longrightarrow> f y s1 = (Throw e, s2) \<Longrightarrow> for_p (xs @ y # zs) f s = (Throw e, s2)"
  by (induction xs arbitrary: s) (auto simp: then_p_def bind_p_def split: prod.splits res.splits)

definition configured :: "cfg \<Rightarrow> bool" where
  "configured s \<longleftrightarrow> (\<forall>n d. amap_get (sv_devices (cf_server s)) n = Some d \<longrightarrow> dev_ok d \<and> untouched d) \<and>
     amap_ok (sv_devices (cf_server s))"

lemma configured_idle: "configured s \<Longrightarrow> idle (sv_devices (cf_server s))"
  by (fastforce simp: configured_def idle_def devs_ok_def untouched_def dest: amap_get_in)

abbreviation keeps_configured :: "(cfg, 'a) prog \<Rightarrow> bool" where
  "keeps_configured m \<equiv> triple configured m (\<lambda>_. configured) configured"

lemma keeps_lift: "keeps_configured (lift_p r)"
  by (rule tripleI) (auto simp: lift_p_def)

lemma configured_for: "(\<And>x. keeps_configured (f x)) \<Longrightarrow> keeps_configured (for_p xs f)"
  by (induction xs) (auto intro: triple_then tripleI)

lemma keeps_ret: "keeps_configured (ret_p x)" "keeps_configured (throw_p e)" "keeps_configured (gets_p g)"
  by (rule tripleI; simp)+

lemma configured_mod: "(\<And>s. sv_devices (cf_server (f s)) = sv_devices (cf_server s)) \<Longrightarrow> keeps_configured (mod_p f)"
  by (rule tripleI) (auto simp: configured_def)

lemma keeps_add_device: "keeps_configured (add_device b conf dn)"
  by (rule tripleI)
    (auto simp: add_device_def configured_def dest!: config_device_ok split: res.splits prod.splits if_splits)

lemma keeps_config_computer: "keeps_configured (config_computer conf c)"
  by (rule tripleI) (auto simp: config_computer_def configured_def split: res.splits)

lemma configured_bind: "keeps_configured m \<Longrightarrow> (\<And>a. keeps_configured (f a)) \<Longrightarrow> keeps_configured (bind_p m f)"
  by (rule triple_bind)

lemma configured_then: "keeps_configured m \<Longrightarrow> keeps_configured n \<Longrightarrow> keeps_configured (then_p m n)"
  by (rule triple_then)

lemma keeps_config_body: "keeps_configured (config_body b doc)"
  unfolding config_body_def
  by (intro configured_bind configured_then keeps_lift configured_for keeps_add_device keeps_config_computer keeps_ret
      configured_mod if_bothI [where P = keeps_configured]) simp_all

lemma keeps_parse: "keeps_configured (parse_configfile b doc)"
  unfolding parse_configfile_def
  by (rule triple_catch [OF keeps_config_body]) (rule keeps_ret)

end
