(* ===== verification/Json_Writer.thy ===== *)
theory Json_Writer
  imports Json_Total
begin

text \<open>
  \<open>Json::FastWriter\<close> (\<open>server/utils/jsoncpp.cpp\<close>): a value as one line of text, with the quoting of
  strings that all the writers share. A string value without characters of its own is not told
  apart from an empty one.
\<close>

section \<open>Quoted strings\<close>

definition isControlCharacter :: "char \<Rightarrow> bool" where
  "isControlCharacter c \<longleftrightarrow> 0 < (of_char c :: nat) \<and> (of_char c :: nat) \<le> 0x1F"

definition containsControlCharacter0 :: "string \<Rightarrow> bool" where
  "containsControlCharacter0 s \<longleftrightarrow> list_ex (\<lambda>c. isControlCharacter c \<or> c = CHR 0x00) s"

definition escaped_specials :: string where
  "escaped_specials = [CHR 0x22, CHR 0x5C, CHR 0x08, CHR 0x0C, CHR 0x0A, CHR 0x0D, CHR 0x09]"

definition strnpbrk :: "string \<Rightarrow> string \<Rightarrow> bool" where
  "strnpbrk s accept = list_ex (\<lambda>c. c \<in> set accept) s"

definition hex_upper :: "nat \<Rightarrow> char" where
  "hex_upper n = (if n < 10 then char_of (48 + n) else char_of (55 + n))"

definition escape_char :: "char \<Rightarrow> string" where
  "escape_char c =
     (if c = CHR 0x22 then [CHR 0x5C, CHR 0x22]
      else if c = CHR 0x5C then [CHR 0x5C, CHR 0x5C]
      else if c = CHR 0x08 then [CHR 0x5C, CHR ''b'']
      else if c = CHR 0x0C then [CHR 0x5C, CHR ''f'']
      else if c = CHR 0x0A then [CHR 0x5C, CHR ''n'']
      else if c = CHR 0x0D then [CHR 0x5C, CHR ''r'']
      else if c = CHR 0x09 then [CHR 0x5C, CHR ''t'']
      else if isControlCharacter c \<or> c = CHR 0x00
      then [CHR 0x5C, CHR ''u'', CHR ''0'', CHR ''0'', hex_upper (of_char c div 16), hex_upper (of_char c mod 16)]
      else [c])"

definition valueToQuotedStringN :: "string \<Rightarrow> string" where
  "valueToQuotedStringN s =
     (if \<not> strnpbrk s escaped_specials \<and> \<not> containsControlCharacter0 s
      then [CHR 0x22] @ s @ [CHR 0x22]
      else [CHR 0x22] @ concat (map escape_char s) @ [CHR 0x22])"

section \<open>FastWriter\<close>

record fast_writer =
  yamlCompatiblityEnabled :: bool
  dropNullPlaceholders :: bool
  omitEndingLineFeed :: bool

definition FastWriter_new :: fast_writer where
  "FastWriter_new = \<lparr> yamlCompatiblityEnabled = False, dropNullPlaceholders = False, omitEndingLineFeed = False \<rparr>"

text \<open>Items separated by commas.\<close>

fun commas :: "string list \<Rightarrow> string" where
  "commas [] = []"
| "commas [x] = x"
| "commas (x # y # xs) = x @ CHR '','' # commas (y # xs)"

lemma size_elem: "(k, e) \<in> set xs \<Longrightarrow> size e < Suc (size_list (size_prod (\<lambda>_. 0) size) xs)"
  by (induction xs) auto

function writeValue :: "fast_writer \<Rightarrow> jvalue \<Rightarrow> string" where
  "writeValue w v = (case v of
     JNull \<Rightarrow> (if dropNullPlaceholders w then [] else ''null'')
   | JInt i \<Rightarrow> int_to_string i
   | JUInt u \<Rightarrow> uintToString (nat u) []
   | JReal d \<Rightarrow> double_to_string d False 17
   | JString s \<Rightarrow> valueToQuotedStringN s
   | JBool b \<Rightarrow> bool_to_string b
   | JArray xs \<Rightarrow> ''['' @ commas (map (\<lambda>i. case amap_get xs i of
         Some e \<Rightarrow> writeValue w e | None \<Rightarrow> (if dropNullPlaceholders w then [] else ''null'')) [0..<j_size v]) @ '']''
   | JObject xs \<Rightarrow> ''{'' @ commas (map (\<lambda>(k, e).
         valueToQuotedStringN k @ (if yamlCompatiblityEnabled w then '': '' else '':'') @ writeValue w e) xs) @ ''}'')"
  by pat_completeness auto
termination
  by (relation "measure (\<lambda>(_, v). size v)") (auto dest!: amap_get_in size_elem)

declare writeValue.simps [simp del]

definition fast_write :: "fast_writer \<Rightarrow> jvalue \<Rightarrow> string" where
  "fast_write w v = writeValue w v @ (if omitEndingLineFeed w then [] else [CHR 0x0A])"

end
