(* ===== verification/Json_Roundtrip.thy ===== *)
theory Json_Roundtrip
  imports Json_Writer
begin

text \<open>
  What the reader makes of what \<^const>\<open>writeValue\<close> has written: the value itself, its numbers in
  their canonical kinds and the holes of its arrays filled with nulls.
\<close>

section \<open>Numbers\<close>

lemma uintToString_digits: "uintToString n acc = dec_digits n @ acc"
proof (induction n acc rule: uintToString.induct)
  case (1 n acc)
  show ?case
  proof (cases "n < 10")
    case True
    then show ?thesis by (subst uintToString.simps, subst dec_digits.simps) (simp add: Let_def add.commute)
  next
    case False
    then have "n div 10 \<noteq> 0" by simp
    with 1 show ?thesis
      by (subst uintToString.simps, subst dec_digits.simps) (use False in \<open>simp add: Let_def add.commute\<close>)
  qed
qed

lemma digits_val_ge: "a * 10 ^ length ds \<le> digits_val 10 a digit_val ds"
proof (induction ds arbitrary: a)
  case (Cons d ds)
  have "a * 10 ^ length (d # ds) \<le> (a * 10 + digit_val d) * 10 ^ length ds" by simp
  also have "\<dots> \<le> digits_val 10 (a * 10 + digit_val d) digit_val ds" by (rule Cons)
  finally show ?case by (simp add: digits_val_def)
qed (simp add: digits_val_def)

lemma num_loop_digits:
  assumes "\<forall>c \<in> set ds. is_digit c" and "digits_val 10 v digit_val ds \<le> limit" and "10 \<le> limit"
  shows "num_loop limit ds v = Some (digits_val 10 v digit_val ds)"
  using assms
proof (induction ds arbitrary: v)
  case (Cons d ds)
  let ?w = "v * 10 + digit_val d"
  have w: "digits_val 10 v digit_val (d # ds) = digits_val 10 ?w digit_val ds"
    by (simp add: digits_val_def)
  have le: "?w * 10 ^ length ds \<le> limit"
    using digits_val_ge [of ?w ds] Cons.prems(2) unfolding w by (rule le_trans)
  have "\<not> (limit div 10 \<le> v \<and> (limit div 10 < v \<or> ds \<noteq> [] \<or> limit mod 10 < digit_val d))"
  proof (cases "ds = []")
    case True
    then have "?w \<le> limit" using le by simp
    moreover have "limit mod 10 < 10" by simp
    ultimately show ?thesis using True div_mult_mod_eq [of limit 10] by (intro notI) (elim conjE disjE, linarith+)
  next
    case False
    then have "?w * 10 ^ 1 \<le> ?w * 10 ^ length ds"
      by (intro mult_le_mono2 power_increasing) (simp_all add: Suc_leI)
    with le have "v * 100 + digit_val d * 10 \<le> limit" by (simp add: algebra_simps)
    moreover have "limit mod 10 < 10" by simp
    ultimately have "\<not> limit div 10 \<le> v"
      using Cons.prems(3) div_mult_mod_eq [of limit 10] by (cases "v = 0") (intro notI, linarith)+
    then show ?thesis by simp
  qed
  then show ?case using Cons by (simp add: w)
qed (simp add: digits_val_def)

lemma peek_digits: "peek (dec_digits n) \<noteq> CHR ''-''"
  using dec_digits_nonempty [of n] dec_digits_are_digits [of n] digit_not_special
  by (cases "dec_digits n") (auto simp: peek_def)

lemma decodeNumber_nat:
  "int n \<le> maxUInt64 \<Longrightarrow> decodeNumber (dec_digits n) = Some (if int n \<le> maxInt then JInt (int n) else JUInt (int n))"
  using num_loop_digits [OF dec_digits_are_digits [of n], of 0 "nat maxUInt64"] peek_digits [of n]
  by (simp add: decodeNumber_def Let_def digits_val_dec_digits maxUInt64_def)

lemma decodeNumber_neg:
  assumes "int n \<le> - minInt64"
  shows "decodeNumber (CHR ''-'' # dec_digits n) = Some (JInt (- int n))"
proof -
  have "i64 (- i64 (int n)) = - int n"
  proof (cases "int n = 9223372036854775808")
    case True
    show ?thesis unfolding True i64_def by simp
  next
    case False
    then show ?thesis using assms by (simp add: i64_def minInt64_def signed_take_bit_int_eq_self)
  qed
  then show ?thesis
    using num_loop_digits [OF dec_digits_are_digits [of n], of 0 "nat (- minInt64)"] assms
    by (simp add: decodeNumber_def Let_def digits_val_dec_digits minInt64_def peek_def)
qed

section \<open>Strings\<close>

lemma quoted_escape: "valueToQuotedStringN s = CHR 0x22 # concat (map escape_char s) @ [CHR 0x22]"
proof (cases "strnpbrk s escaped_specials \<or> containsControlCharacter0 s")
  case False
  then have "\<forall>c \<in> set s. escape_char c = [c]"
    by (auto simp: strnpbrk_def escaped_specials_def containsControlCharacter0_def list_ex_iff escape_char_def)
  then have "concat (map escape_char s) = s" by (induction s) auto
  with False show ?thesis by (simp add: valueToQuotedStringN_def)
qed (auto simp: valueToQuotedStringN_def)

lemma hex_upper_facts:
  assumes "n < 16"
  shows "is_hex (hex_upper n)" "hex_val (hex_upper n) = n" "hex_upper n \<noteq> CHR 0x22" "hex_upper n \<noteq> CHR 0x5C"
proof -
  have "of_char (hex_upper n) = (if n < 10 then 48 + n else 55 + n)"
    using assms by (simp add: hex_upper_def)
  then show "is_hex (hex_upper n)" "hex_val (hex_upper n) = n" "hex_upper n \<noteq> CHR 0x22" "hex_upper n \<noteq> CHR 0x5C"
    using assms by (auto simp: is_hex_def is_digit_def hex_val_def Let_def split: if_splits)
qed

lemma read_quoted_escape: "read_quoted (CHR 0x22) (escape_char c @ t) = read_quoted (CHR 0x22) t"
proof -
  have "read_quoted (CHR 0x22) (CHR 0x5C # CHR ''u'' # CHR ''0'' # CHR ''0'' # hex_upper (n div 16) # hex_upper (n mod 16) # t) =
      read_quoted (CHR 0x22) t" if "n < 256" for n
    using that hex_upper_facts(3,4) [of "n div 16"] hex_upper_facts(3,4) [of "n mod 16"] by simp
  from this [of "of_char c"] show ?thesis by (simp add: escape_char_def)
qed

lemma read_quoted_string:
  "read_quoted (CHR 0x22) (concat (map escape_char s) @ CHR 0x22 # rest) = (True, rest)"
  by (induction s) (simp_all add: read_quoted_escape)

lemma hex_digits_4:
  assumes "is_hex a" "is_hex b" "is_hex c" "is_hex d"
  shows "decodeUnicodeEscapeSequence (a # b # c # d # t) =
    Inr (((hex_val a * 16 + hex_val b) * 16 + hex_val c) * 16 + hex_val d, t)"
  using assms by (simp add: decodeUnicodeEscapeSequence_def numeral_eq_Suc)

lemma hex_zero: "is_hex (CHR ''0'')" "hex_val (CHR ''0'') = 0"
  by (simp_all add: is_hex_def is_digit_def hex_val_def)

lemma decode_unicode_escape:
  assumes "n < 256"
  shows "decodeUnicodeCodePoint (CHR ''0'' # CHR ''0'' # hex_upper (n div 16) # hex_upper (n mod 16) # t) = Inr (n, t)"
  using assms hex_upper_facts(1,2) [of "n div 16"] hex_upper_facts(1,2) [of "n mod 16"]
  by (simp add: decodeUnicodeCodePoint_def hex_digits_4 hex_zero)

lemma decode_simple_escape:
  "simple_escape e = Some c \<Longrightarrow> decode_chars (CHR 0x5C # e # t) acc = decode_chars t (acc @ [c])"
  by simp

lemma simple_escapes:
  "simple_escape (CHR 0x22) = Some (CHR 0x22)" "simple_escape (CHR 0x5C) = Some (CHR 0x5C)"
  "simple_escape (CHR ''b'') = Some (CHR 0x08)" "simple_escape (CHR ''f'') = Some (CHR 0x0C)"
  "simple_escape (CHR ''n'') = Some (CHR 0x0A)" "simple_escape (CHR ''r'') = Some (CHR 0x0D)"
  "simple_escape (CHR ''t'') = Some (CHR 0x09)" "simple_escape (CHR ''u'') = None"
  by (simp_all add: simple_escape_def)

lemma decode_unicode_char:
  "of_char c < (32 :: nat) \<Longrightarrow>
    decode_chars (CHR 0x5C # CHR ''u'' # CHR ''0'' # CHR ''0'' # hex_upper (of_char c div 16) # hex_upper (of_char c mod 16) # t) acc =
      decode_chars t (acc @ [c])"
  by (simp add: simple_escapes decode_unicode_escape codePointToUTF8_def)

lemma decode_plain: "c \<noteq> CHR 0x22 \<Longrightarrow> c \<noteq> CHR 0x5C \<Longrightarrow> decode_chars (c # t) acc = decode_chars t (acc @ [c])"
  by simp

lemma decode_escape: "decode_chars (escape_char c @ t) acc = decode_chars t (acc @ [c])"
proof -
  have u: "decode_chars ([CHR 0x5C, CHR ''u'', CHR ''0'', CHR ''0'', hex_upper (of_char c div 16), hex_upper (of_char c mod 16)] @ t) acc =
      decode_chars t (acc @ [c])" if "isControlCharacter c \<or> c = CHR 0x00"
  proof -
    have "of_char c < (32 :: nat)" using that by (auto simp: isControlCharacter_def)
    then show ?thesis using decode_unicode_char by simp
  qed
  have e: "decode_chars ([CHR 0x5C, e] @ t) acc = decode_chars t (acc @ [c])" if "simple_escape e = Some c" for e
    using decode_simple_escape [OF that] by simp
  have p: "decode_chars ([c] @ t) acc = decode_chars t (acc @ [c])" if "c \<noteq> CHR 0x22" "c \<noteq> CHR 0x5C"
    using decode_plain [OF that] by simp
  note split = if_split [where P = "\<lambda>x. decode_chars (x @ t) acc = decode_chars t (acc @ [c])", THEN iffD2]
  show ?thesis
    unfolding escape_char_def
    by (intro split conjI impI) (use u p e simple_escapes in \<open>simp_all only: not_False_eq_True\<close>)
qed

lemma decode_string: "decode_chars (concat (map escape_char s)) acc = Inr (acc @ s)"
  by (induction s arbitrary: acc) (simp_all add: decode_escape)

section \<open>What is read back\<close>

definition canon_int :: "int \<Rightarrow> jvalue" where
  "canon_int i = (if i \<le> maxInt then JInt i else JUInt i)"

definition items_of :: "(nat \<times> jvalue) list \<Rightarrow> jvalue list" where
  "items_of xs = map (\<lambda>i. case amap_get xs i of Some e \<Rightarrow> e | None \<Rightarrow> JNull) [0..<j_size (JArray xs)]"

function canon :: "jvalue \<Rightarrow> jvalue" where
  "canon v = (case v of
     JInt i \<Rightarrow> canon_int i
   | JUInt u \<Rightarrow> canon_int u
   | JArray xs \<Rightarrow> JArray (map (\<lambda>i. (i, case amap_get xs i of Some e \<Rightarrow> canon e | None \<Rightarrow> JNull)) [0..<j_size v])
   | JObject xs \<Rightarrow> JObject (map (\<lambda>(k, e). (k, canon e)) xs)
   | _ \<Rightarrow> v)"
  by pat_completeness auto
termination
  by (relation "measure size") (auto dest!: amap_get_in size_elem)

declare canon.simps [simp del]

text \<open>The nesting of a value, and the values the text of \<open>FastWriter\<close> keeps: no reals, no huge keys.\<close>

fun jdepth :: "jvalue \<Rightarrow> nat" where
  "jdepth (JArray xs) = Suc (Max (set (0 # map (\<lambda>(_, e). jdepth e) xs)))"
| "jdepth (JObject xs) = Suc (Max (set (0 # map (\<lambda>(_, e). jdepth e) xs)))"
| "jdepth _ = 1"

fun textual :: "jvalue \<Rightarrow> bool" where
  "textual (JReal _) = False"
| "textual (JArray xs) = (\<forall>(_, e) \<in> set xs. textual e)"
| "textual (JObject xs) = (\<forall>(k, e) \<in> set xs. length k < key_limit \<and> textual e)"
| "textual _ = True"

lemma canon_simps:
  "canon JNull = JNull" "canon (JInt i) = canon_int i" "canon (JUInt i) = canon_int i"
  "canon (JReal d) = JReal d" "canon (JString str) = JString str" "canon (JBool b) = JBool b"
  "canon (JObject ys) = JObject (map (\<lambda>(k, e). (k, canon e)) ys)"
  by (subst canon.simps; simp)+

lemma canon_array: "canon (JArray xs) = JArray (zip [0..<length (items_of xs)] (map canon (items_of xs)))"
proof -
  have "map (\<lambda>i. (i, case amap_get xs i of Some e \<Rightarrow> canon e | None \<Rightarrow> JNull)) [0..<n] =
      zip [0..<n] (map canon (map (\<lambda>i. case amap_get xs i of Some e \<Rightarrow> e | None \<Rightarrow> JNull) [0..<n]))" for n
    by (rule nth_equalityI) (auto simp: canon_simps split: option.split)
  then show ?thesis by (subst canon.simps) (simp add: items_of_def)
qed

text \<open>Texts as the writer of the default settings makes them.\<close>

abbreviation wr :: "jvalue \<Rightarrow> string" where
  "wr \<equiv> writeValue FastWriter_new"

definition member_text :: "string \<times> jvalue \<Rightarrow> string" where
  "member_text m = valueToQuotedStringN (fst m) @ CHR '':'' # wr (snd m)"

lemma FastWriter_flags [simp]:
  "\<not> yamlCompatiblityEnabled FastWriter_new" "\<not> dropNullPlaceholders FastWriter_new"
  "\<not> omitEndingLineFeed FastWriter_new"
  by (simp_all add: FastWriter_new_def)

lemma wr_scalars:
  "wr JNull = ''null''" "wr (JInt i) = int_to_string i" "wr (JUInt u) = dec_digits (nat u)"
  "wr (JString str) = valueToQuotedStringN str" "wr (JBool b) = bool_to_string b"
  by (simp_all add: writeValue.simps [of FastWriter_new JNull] writeValue.simps [of FastWriter_new "JInt i"]
      writeValue.simps [of FastWriter_new "JUInt u"] writeValue.simps [of FastWriter_new "JString str"]
      writeValue.simps [of FastWriter_new "JBool b"] uintToString_digits)

lemma wr_object: "wr (JObject ys) = CHR ''{'' # commas (map member_text ys) @ ''}''"
proof -
  have m: "(\<lambda>(k, e). valueToQuotedStringN k @ CHR '':'' # wr e) = member_text"
    by (rule ext) (simp add: member_text_def case_prod_beta)
  show ?thesis by (simp add: writeValue.simps [of FastWriter_new "JObject ys"] m)
qed

lemmas wr_simps = wr_scalars wr_object

lemma wr_array: "wr (JArray xs) = CHR ''['' # commas (map wr (items_of xs)) @ '']''"
proof -
  have "(case amap_get xs i of None \<Rightarrow> ''null'' | Some e \<Rightarrow> wr e) =
      wr (case amap_get xs i of None \<Rightarrow> JNull | Some e \<Rightarrow> e)" for i
    by (simp add: wr_simps split: option.split)
  then show ?thesis
    by (simp add: writeValue.simps [of FastWriter_new "JArray xs"] items_of_def comp_def cong: option.case_cong)
qed

section \<open>Tokens of the written text\<close>

definition terminated :: "string \<Rightarrow> bool" where
  "terminated rest \<longleftrightarrow> rest = [] \<or> hd rest \<in> {CHR '','', CHR '']'', CHR ''}'', CHR 0x0A, CHR 0x20, CHR 0x09, CHR 0x0D}"

lemma readToken_char:
  "\<not> is_json_space c \<Longrightarrow> readToken fs (c # t) =
     \<lparr>tk_type = fst (token_from fs c t), tk_start = c # t, tk_end = snd (token_from fs c t)\<rparr>"
  by (simp add: readToken_def skipSpaces_def getNextChar_def Let_def case_prod_beta)

lemma readNumber_digits:
  assumes "\<forall>c \<in> set ds. is_digit c" and "terminated rest"
  shows "snd (readNumber False (ds @ rest)) = rest" "readNumber True (ds @ rest) = (True, rest)"
proof -
  have r: "rest = [] \<or> \<not> is_digit (hd rest)" using assms(2) by (auto simp: terminated_def is_digit_def)
  have f: "frac_part rest = rest" "exp_part rest = rest"
    using assms(2) by (cases rest; auto simp: frac_part_def exp_part_def terminated_def)+
  have i: "\<not> (ds @ rest \<noteq> [] \<and> hd (ds @ rest) = CHR ''I'')"
    using assms by (cases ds) (auto simp: terminated_def is_digit_def)
  show "snd (readNumber False (ds @ rest)) = rest" "readNumber True (ds @ rest) = (True, rest)"
    using takeWhile_digits [OF assms(1) r] f i by (simp_all add: readNumber_def)
qed

lemma digit_neq: "is_digit c \<Longrightarrow> \<not> is_digit d \<Longrightarrow> c \<noteq> d"
  by auto

lemma nondigits:
  "\<not> is_digit (CHR ''{'')" "\<not> is_digit (CHR ''}'')" "\<not> is_digit (CHR ''['')" "\<not> is_digit (CHR '']'')"
  "\<not> is_digit (CHR 0x22)" "\<not> is_digit (CHR 0x27)" "\<not> is_digit (CHR ''/'')" "\<not> is_digit (CHR '' '')"
  "\<not> is_digit (CHR 0x09)" "\<not> is_digit (CHR 0x0D)" "\<not> is_digit (CHR 0x0A)"
  by (simp_all add: is_digit_def)

lemma token_from_digit: "is_digit c \<Longrightarrow> token_from fs c t = (tokenNumber, snd (readNumber False t))"
  using nondigits [THEN digit_neq [of c, rotated]] by (simp add: token_from_def)

lemma digit_not_space: "is_digit c \<Longrightarrow> \<not> is_json_space c"
  using nondigits [THEN digit_neq [of c, rotated]] by (simp add: is_json_space_def)

lemma token_number:
  assumes "terminated rest"
  shows "readToken fs (dec_digits n @ rest) =
      \<lparr>tk_type = tokenNumber, tk_start = dec_digits n @ rest, tk_end = rest\<rparr>"
    and "readToken fs (CHR ''-'' # dec_digits n @ rest) =
      \<lparr>tk_type = tokenNumber, tk_start = CHR ''-'' # dec_digits n @ rest, tk_end = rest\<rparr>"
proof -
  obtain d ds where d: "dec_digits n = d # ds" using dec_digits_nonempty by (cases "dec_digits n") auto
  have dig: "is_digit d" "\<forall>c \<in> set ds. is_digit c" "\<forall>c \<in> set (d # ds). is_digit c"
    using dec_digits_are_digits [of n] d by simp_all
  show "readToken fs (dec_digits n @ rest) =
      \<lparr>tk_type = tokenNumber, tk_start = dec_digits n @ rest, tk_end = rest\<rparr>"
    using readNumber_digits(1) [OF dig(2) assms] dig(1)
    by (simp add: d readToken_char digit_not_space token_from_digit)
  show "readToken fs (CHR ''-'' # dec_digits n @ rest) =
      \<lparr>tk_type = tokenNumber, tk_start = CHR ''-'' # dec_digits n @ rest, tk_end = rest\<rparr>"
    using readNumber_digits(2) [OF dig(3) assms]
    by (simp add: d readToken_char is_json_space_def token_from_def is_digit_def)
qed

lemma token_string: "readToken fs (valueToQuotedStringN str @ rest) =
    \<lparr>tk_type = tokenString, tk_start = valueToQuotedStringN str @ rest, tk_end = rest\<rparr>"
  by (simp add: quoted_escape readToken_char is_json_space_def token_from_def readString_def read_quoted_string)

lemma token_word:
  "readToken fs (''null'' @ rest) = \<lparr>tk_type = tokenNull, tk_start = ''null'' @ rest, tk_end = rest\<rparr>"
  "readToken fs (''true'' @ rest) = \<lparr>tk_type = tokenTrue, tk_start = ''true'' @ rest, tk_end = rest\<rparr>"
  "readToken fs (''false'' @ rest) = \<lparr>tk_type = tokenFalse, tk_start = ''false'' @ rest, tk_end = rest\<rparr>"
  by (simp_all add: readToken_char is_json_space_def token_from_def is_digit_def match_def)

lemma token_punctuation:
  "readToken fs (CHR ''{'' # t) = \<lparr>tk_type = tokenObjectBegin, tk_start = CHR ''{'' # t, tk_end = t\<rparr>"
  "readToken fs (CHR ''}'' # t) = \<lparr>tk_type = tokenObjectEnd, tk_start = CHR ''}'' # t, tk_end = t\<rparr>"
  "readToken fs (CHR ''['' # t) = \<lparr>tk_type = tokenArrayBegin, tk_start = CHR ''['' # t, tk_end = t\<rparr>"
  "readToken fs (CHR '']'' # t) = \<lparr>tk_type = tokenArrayEnd, tk_start = CHR '']'' # t, tk_end = t\<rparr>"
  "readToken fs (CHR '','' # t) = \<lparr>tk_type = tokenArraySeparator, tk_start = CHR '','' # t, tk_end = t\<rparr>"
  "readToken fs (CHR '':'' # t) = \<lparr>tk_type = tokenMemberSeparator, tk_start = CHR '':'' # t, tk_end = t\<rparr>"
  by (simp_all add: readToken_char is_json_space_def token_from_def is_digit_def)

lemma decodeString_quoted:
  "decodeString \<lparr>tk_type = ty, tk_start = valueToQuotedStringN str @ rest, tk_end = rest\<rparr> = Inr str"
  by (simp add: decodeString_def text_to_def quoted_escape butlast_append decode_string)

end
