(* ===== verification/Json_Reads.thy ===== *)
theory Json_Reads
  imports Json_Roundtrip
begin

text \<open>
  The reader run on written text, with any white space between its tokens: one lemma per kind of value, the loops
  over members and items by induction, and the round trip by induction on how the value is spelled.
\<close>

section \<open>White space\<close>

text \<open>White space before a token makes no difference to it.\<close>

definition spaces :: "string \<Rightarrow> bool" where
  "spaces a \<longleftrightarrow> (\<forall>c \<in> set a. is_json_space c)"

lemma spaces_simps [simp]: "spaces []" "spaces (c # a) \<longleftrightarrow> is_json_space c \<and> spaces a" "spaces (a @ b) \<longleftrightarrow> spaces a \<and> spaces b"
  by (auto simp: spaces_def)

lemma skipSpaces_pad: "spaces a \<Longrightarrow> skipSpaces (a @ t) = skipSpaces t"
  by (induction a) (auto simp: skipSpaces_def)

lemma readToken_pad: "spaces a \<Longrightarrow> readToken fs (a @ t) = readToken fs t"
  by (simp add: readToken_def skipSpaces_pad)

lemma readToken_spaces: "spaces a \<Longrightarrow> readToken fs a = readToken fs []"
  using readToken_pad [of a fs "[]"] by simp

lemma terminated_pad: "spaces b \<Longrightarrow> terminated t \<Longrightarrow> terminated (b @ t)"
  by (cases b) (auto simp: terminated_def is_json_space_def)

section \<open>Steps of the reader\<close>

lemma run_next:
  assumes "readToken fs (rs_rest s) = tok" and "tk_type tok \<noteq> tokenComment"
  shows "next_token c fs s = (Ok tok, s\<lparr>rs_rest := tk_end tok\<rparr>)"
  using assms by (simp add: next_token_def bind_p_def then_p_def note_token_def Let_def)

lemma run_skip:
  assumes "readToken fs (rs_rest s) = tok" and "tk_type tok \<noteq> tokenComment"
  shows "skip_comments c fs s = (Ok tok, s\<lparr>rs_rest := tk_end tok\<rparr>)"
    and "skipCommentTokens c fs s = (Ok tok, s\<lparr>rs_rest := tk_end tok\<rparr>)"
proof -
  have "tokens_until (\<lambda>ty. ty \<noteq> tokenComment) fs (rs_rest s) = [tok]"
    using assms by (subst tokens_until.simps) (simp add: Let_def)
  then show "skip_comments c fs s = (Ok tok, s\<lparr>rs_rest := tk_end tok\<rparr>)"
    using assms(2) by (simp add: skip_comments_def read_until_def bind_p_def then_p_def note_token_def Let_def)
  then show "skipCommentTokens c fs s = (Ok tok, s\<lparr>rs_rest := tk_end tok\<rparr>)"
    using run_next [OF assms] by (simp add: skipCommentTokens_def)
qed

text \<open>The state after a value: the text goes on at \<open>rest\<close>, and nothing but the comment position has changed.\<close>

definition read_to :: "rst \<Rightarrow> string \<Rightarrow> rst \<Rightarrow> bool" where
  "read_to s rest s' \<longleftrightarrow> (\<exists>l. s' = s\<lparr>rs_rest := rest, rs_last := l\<rparr>)"

lemma read_toI: "read_to s rest (s\<lparr>rs_rest := rest, rs_last := l\<rparr>)"
  by (auto simp: read_to_def)

lemma read_to_trans: "read_to s r s' \<Longrightarrow> read_to s' r' s'' \<Longrightarrow> read_to s r' s''"
  by (auto simp: read_to_def)

lemma read_to_rest: "read_to s rest s' \<Longrightarrow> rs_rest s' = rest"
  and read_to_before: "read_to s rest s' \<Longrightarrow> rs_before s' = rs_before s"
  and read_to_depth: "read_to s rest s' \<Longrightarrow> rs_depth s' = rs_depth s"
  by (auto simp: read_to_def)

lemmas read_to_fields = read_to_rest read_to_before read_to_depth

lemma read_to_next: "read_to s r s' \<Longrightarrow> read_to s r' (s'\<lparr>rs_rest := r'\<rparr>)"
  unfolding read_to_def by (elim exE, rule_tac x = l in exI) (cases s, simp)

lemma read_to_skip: "read_to s r (s\<lparr>rs_rest := r\<rparr>)"
  unfolding read_to_def by (rule exI [of _ "rs_last s"]) simp

lemma read_to_self: "read_to (s\<lparr>rs_depth := d, rs_rest := r\<rparr>) r (s\<lparr>rs_depth := d, rs_rest := r\<rparr>)"
  unfolding read_to_def by (rule exI [of _ "rs_last s"]) simp

definition yields :: "(rst, bool \<times> jvalue) prog \<Rightarrow> rst \<Rightarrow> jvalue \<Rightarrow> string \<Rightarrow> bool" where
  "yields m s v rest \<longleftrightarrow> (\<exists>s'. m s = (Ok (True, v), s') \<and> read_to s rest s')"

lemma yieldsI: "m s = (Ok (True, v), s') \<Longrightarrow> read_to s rest s' \<Longrightarrow> yields m s v rest"
  by (auto simp: yields_def)

definition starts :: "json_features \<Rightarrow> rst \<Rightarrow> bool" where
  "starts fs s \<longleftrightarrow> rs_before s = [] \<and> rs_depth s < stackLimit fs"

lemma run_enter:
  assumes "starts fs s" and "readToken fs (rs_rest s) = tok" and "tk_type tok \<noteq> tokenComment"
  shows "read_value c fs doc (Suc n) cur s =
    (if tk_type tok = tokenObjectBegin then bind_p (readObject c fs doc n [] (JObject [])) (leave_value c)
     else if tk_type tok = tokenArrayBegin then
       then_p (mod_p (rs_rest_update skipSpaces))
       (bind_p (gets_p rs_rest) (\<lambda>s. if peek s = CHR '']''
          then then_p (next_token c fs) (leave_value c (True, JArray []))
          else bind_p (readArray c fs doc n 0 (JArray [])) (leave_value c)))
     else if is_scalar (tk_type tok) then bind_p (scalar_value doc tok cur) (leave_value c)
     else if tk_type tok \<in> {tokenArraySeparator, tokenObjectEnd, tokenArrayEnd} \<and> allowDroppedNullPlaceholders fs then
       then_p (mod_p (rs_rest_update (\<lambda>_. tk_start tok))) (leave_value c (True, JNull))
     else then_p (addError doc ''Syntax error: value, object or array expected.'' tok None) (ret_p (False, cur)))
    (s\<lparr>rs_depth := rs_depth s + 1, rs_rest := tk_end tok\<rparr>)"
proof -
  let ?s1 = "s\<lparr>rs_depth := rs_depth s + 1\<rparr>"
  have e: "enter_value fs s = (Ok (), ?s1)"
    using assms(1) by (simp add: enter_value_def bind_p_def starts_def)
  have k: "skipCommentTokens c fs ?s1 = (Ok tok, ?s1\<lparr>rs_rest := tk_end tok\<rparr>)"
    using run_skip(2) [of fs ?s1 tok c] assms(2,3) by simp
  have v: "value_comments c (?s1\<lparr>rs_rest := tk_end tok\<rparr>) = (Ok (), ?s1\<lparr>rs_rest := tk_end tok\<rparr>)"
    using assms(1) by (simp add: value_comments_def bind_p_def starts_def)
  show ?thesis
    unfolding read_value.simps then_p_def bind_p_def [of "enter_value fs"] e
    by (simp only: prod.case res.case bind_p_def [of "skipCommentTokens c fs"] k bind_p_def [of "value_comments c"] v)
qed

lemma run_leave:
  assumes "m (s\<lparr>rs_depth := rs_depth s + 1, rs_rest := t\<rparr>) = (Ok (True, v), s')"
    and "read_to (s\<lparr>rs_depth := rs_depth s + 1, rs_rest := t\<rparr>) rest s'"
  shows "\<exists>s''. bind_p m (leave_value c) (s\<lparr>rs_depth := rs_depth s + 1, rs_rest := t\<rparr>) = (Ok (True, v), s'') \<and>
    read_to s rest s''"
proof -
  obtain l where l: "s' = s\<lparr>rs_depth := rs_depth s + 1, rs_rest := rest, rs_last := l\<rparr>"
    using assms(2) by (auto simp: read_to_def)
  show ?thesis
    unfolding bind_p_def [of m] assms(1) l
    by (cases s; cases c) (auto simp: leave_value_def then_p_def bind_p_def read_to_def)
qed

section \<open>Scalars\<close>

lemma yields_scalar:
  assumes "starts fs s" and "readToken fs (rs_rest s) = tok" and "is_scalar (tk_type tok)" and "0 < n"
    and "\<And>s'. scalar_value doc tok cur s' = (Ok (True, v), s')"
  shows "yields (read_value c fs doc n cur) s v (tk_end tok)"
proof -
  obtain k where n: "n = Suc k" using assms(4) by (cases n) auto
  have ty: "tk_type tok \<noteq> tokenComment" "tk_type tok \<noteq> tokenObjectBegin" "tk_type tok \<noteq> tokenArrayBegin"
    using assms(3) by (auto simp: is_scalar_def)
  obtain s'' where "bind_p (scalar_value doc tok cur) (leave_value c) (s\<lparr>rs_depth := rs_depth s + 1, rs_rest := tk_end tok\<rparr>) =
      (Ok (True, v), s'')" "read_to s (tk_end tok) s''"
    using run_leave [where m = "scalar_value doc tok cur" and s = s and t = "tk_end tok", OF assms(5) read_to_self] by blast
  then show ?thesis
    using run_enter [OF assms(1,2) ty(1), of c doc k cur] ty(2,3) assms(3) by (auto simp: yields_def n)
qed

lemma scalar_number:
  "decodeNumber txt = Some v \<Longrightarrow>
    scalar_value doc \<lparr>tk_type = tokenNumber, tk_start = txt @ rest, tk_end = rest\<rparr> cur s = (Ok (True, v), s)"
  by (simp add: scalar_value_def decode_number_tok_def text_to_def bind_p_def)

lemma scalar_string:
  "scalar_value doc \<lparr>tk_type = tokenString, tk_start = valueToQuotedStringN str @ rest, tk_end = rest\<rparr> cur s =
    (Ok (True, JString str), s)"
  by (simp add: scalar_value_def decode_string_tok_def decodeString_quoted bind_p_def)

definition scalar :: "jvalue \<Rightarrow> bool" where
  "scalar v \<longleftrightarrow> jtype_of v \<notin> {realValue, arrayValue, objectValue}"

lemma yields_number:
  assumes "starts fs s" and "terminated rest" and "0 < n"
  shows "readToken fs (rs_rest s) = readToken fs (dec_digits k @ rest) \<Longrightarrow> int k \<le> maxUInt64 \<Longrightarrow>
      yields (read_value c fs doc n cur) s (canon_int (int k)) rest"
    and "readToken fs (rs_rest s) = readToken fs (CHR ''-'' # dec_digits k @ rest) \<Longrightarrow> int k \<le> - minInt64 \<Longrightarrow>
      yields (read_value c fs doc n cur) s (JInt (- int k)) rest"
proof -
  assume r: "readToken fs (rs_rest s) = readToken fs (dec_digits k @ rest)" and k: "int k \<le> maxUInt64"
  show "yields (read_value c fs doc n cur) s (canon_int (int k)) rest"
    using yields_scalar [OF assms(1) _ _ assms(3), of "\<lparr>tk_type = tokenNumber, tk_start = dec_digits k @ rest, tk_end = rest\<rparr>"]
      scalar_number [OF decodeNumber_nat [OF k]] token_number(1) [OF assms(2)] r
    by (simp add: is_scalar_def canon_int_def)
next
  assume r: "readToken fs (rs_rest s) = readToken fs (CHR ''-'' # dec_digits k @ rest)" and k: "int k \<le> - minInt64"
  show "yields (read_value c fs doc n cur) s (JInt (- int k)) rest"
    using yields_scalar [OF assms(1) _ _ assms(3),
        of "\<lparr>tk_type = tokenNumber, tk_start = CHR ''-'' # dec_digits k @ rest, tk_end = rest\<rparr>"]
      scalar_number [OF decodeNumber_neg [OF k]] token_number(2) [OF assms(2)] r
    by (simp add: is_scalar_def)
qed

lemma int_to_string_cases:
  assumes "minInt64 \<le> i"
  shows "int_to_string i = (if i < 0 then CHR ''-'' # dec_digits (nat (- i)) else dec_digits (nat i))"
  using assms by (auto simp: int_to_string_def uintToString_digits minInt64_def maxInt64_def)

lemma yields_scalar_text:
  assumes "scalar v" and "wf_value v" and "starts fs s" and "readToken fs (rs_rest s) = readToken fs (wr v @ rest)"
    and "terminated rest" and "0 < n"
  shows "yields (read_value c fs doc n cur) s (canon v) rest"
proof (cases v)
  case (JInt i)
  then have i: "minInt64 \<le> i" "i \<le> maxInt64" using assms(2) by simp_all
  show ?thesis
  proof (cases "i < 0")
    case True
    then show ?thesis
      using yields_number(2) [OF assms(3,5,6), of "nat (- i)"] assms(4) i
      by (simp add: JInt wr_scalars int_to_string_cases canon_simps canon_int_def maxInt_def)
  next
    case False
    then show ?thesis
      using yields_number(1) [OF assms(3,5,6), of "nat i"] assms(4) i
      by (simp add: JInt wr_scalars int_to_string_cases canon_simps maxInt64_def maxUInt64_def)
  qed
next
  case (JUInt u)
  then show ?thesis
    using yields_number(1) [OF assms(3,5,6), of "nat u"] assms(2,4) by (simp add: wr_scalars canon_simps)
next
  case (JString str)
  then show ?thesis
    using yields_scalar [OF assms(3) _ _ assms(6),
        of "\<lparr>tk_type = tokenString, tk_start = valueToQuotedStringN str @ rest, tk_end = rest\<rparr>"]
      assms(4) token_string scalar_string by (simp add: wr_scalars canon_simps is_scalar_def)
next
  case JNull
  then show ?thesis
    using yields_scalar [OF assms(3) _ _ assms(6), of "\<lparr>tk_type = tokenNull, tk_start = ''null'' @ rest, tk_end = rest\<rparr>"]
      assms(4) token_word(1) [of fs rest] by (simp add: wr_scalars canon_simps is_scalar_def scalar_value_def)
next
  case (JBool b)
  show ?thesis
  proof (cases b)
    case True
    then show ?thesis
      using yields_scalar [OF assms(3) _ _ assms(6), of "\<lparr>tk_type = tokenTrue, tk_start = ''true'' @ rest, tk_end = rest\<rparr>"]
        assms(4) token_word(2) [of fs rest] JBool
      by (simp add: wr_scalars canon_simps is_scalar_def scalar_value_def bool_to_string_def)
  next
    case False
    then show ?thesis
      using yields_scalar [OF assms(3) _ _ assms(6), of "\<lparr>tk_type = tokenFalse, tk_start = ''false'' @ rest, tk_end = rest\<rparr>"]
        assms(4) token_word(3) [of fs rest] JBool
      by (simp add: wr_scalars canon_simps is_scalar_def scalar_value_def bool_to_string_def)
  qed
qed (use assms(1) in \<open>simp_all add: scalar_def\<close>)

section \<open>Arrays\<close>

text \<open>The text \<open>t\<close>, wherever it stands and whatever white space precedes it, is read as the value \<open>e\<close>.\<close>

definition reads :: "bool \<Rightarrow> json_features \<Rightarrow> string \<Rightarrow> jvalue \<Rightarrow> string \<Rightarrow> bool" where
  "reads c fs doc e t \<longleftrightarrow> (\<forall>s a rest n cur. rs_rest s = a @ t @ rest \<longrightarrow> spaces a \<longrightarrow> terminated rest \<longrightarrow> rs_before s = [] \<longrightarrow>
     rs_depth s + int (jdepth e) \<le> stackLimit fs \<longrightarrow> 2 * length (rs_rest s) + 2 \<le> n \<longrightarrow>
     yields (read_value c fs doc n cur) s (canon e) rest)"

lemma readsD:
  assumes "reads c fs doc e t" and "rs_rest s = a @ t @ rest" and "spaces a" and "terminated rest" and "rs_before s = []"
    and "rs_depth s + int (jdepth e) \<le> stackLimit fs" and "2 * length (rs_rest s) + 2 \<le> n"
  obtains s' where "read_value c fs doc n cur s = (Ok (True, canon e), s')" "read_to s rest s'"
  using assms unfolding reads_def yields_def by blast

definition enum :: "'a list \<Rightarrow> (nat \<times> 'a) list" where
  "enum vs = zip [0..<length vs] vs"

lemma enum_snoc: "enum (vs @ [v]) = enum vs @ [(length vs, v)]"
  by (simp add: enum_def)

lemma enum_Nil [simp]: "enum [] = []"
  by (simp add: enum_def)

lemma amap_put_last: "\<forall>k' \<in> set (map fst m). k' < k \<Longrightarrow> amap_put k v m = m @ [(k, v)]"
  by (induction k v m rule: amap_put.induct) auto

lemma amap_put_over_last: "\<forall>k' \<in> set (map fst m). k' < k \<Longrightarrow> amap_put k v (m @ [(k, u)]) = m @ [(k, v)]"
  by (induction k v m rule: amap_put.induct) auto

lemma amap_get_last:
  fixes k :: "'k::linorder"
  shows "\<forall>k' \<in> set (map fst m). k' < k \<Longrightarrow> amap_get m k = None"
  unfolding amap_get_None_iff by blast

lemma enum_keys: "\<forall>k \<in> set (map fst (enum vs)). k < length vs"
  by (auto simp: enum_def set_zip)

lemma array_extend:
  "array_ref (length vs) (JArray (enum vs)) = Ok (JArray (enum (vs @ [JNull])), JNull)"
  "array_set (length vs) v (JArray (enum vs)) = Ok (JArray (enum (vs @ [v])))"
proof -
  note g = amap_get_last [OF enum_keys, of vs] and p = amap_put_last [OF enum_keys, of vs]
  show "array_ref (length vs) (JArray (enum vs)) = Ok (JArray (enum (vs @ [JNull])), JNull)"
    by (simp add: array_ref_def g p enum_snoc)
  have "amap_put (length vs) v (enum vs @ [(length vs, JNull)]) = enum vs @ [(length vs, v)]"
    using enum_keys by (rule amap_put_over_last)
  then show "array_set (length vs) v (JArray (enum vs)) = Ok (JArray (enum (vs @ [v])))"
    by (simp add: array_set_def array_ref_def g p enum_snoc)
qed

lemma readArray_step:
  assumes "array_ref i cur = Ok (x, old)" and "read_value c fs doc n old s = (Ok (True, v), s1)"
    and "array_set i v cur = Ok cur'" and "readToken fs (rs_rest s1) = tok"
    and "tk_type tok \<in> {tokenArraySeparator, tokenArrayEnd}"
  shows "readArray c fs doc (Suc n) i cur s =
    (if tk_type tok = tokenArrayEnd then (Ok (True, cur'), s1\<lparr>rs_rest := tk_end tok\<rparr>)
     else readArray c fs doc n (i + 1) cur' (s1\<lparr>rs_rest := tk_end tok\<rparr>))"
proof -
  have k: "skip_comments c fs s1 = (Ok tok, s1\<lparr>rs_rest := tk_end tok\<rparr>)"
    using run_skip(1) [OF assms(4)] assms(5) by auto
  show ?thesis
    using assms(1-3,5) k by (auto simp: bind_p_def)
qed

lemma terminated_comma: "terminated (CHR '','' # t)" "terminated (CHR '']'' # t)" "terminated (CHR ''}'' # t)"
  by (simp_all add: terminated_def)

lemma wr_head:
  assumes "wf_value e" and "textual e"
  obtains ch t where "wr e = ch # t" "\<not> is_json_space ch" "ch \<noteq> CHR '']''"
proof -
  have d: "\<exists>ch t. dec_digits n = ch # t \<and> \<not> is_json_space ch \<and> ch \<noteq> CHR '']''" for n
  proof -
    obtain ch t where "dec_digits n = ch # t" using dec_digits_nonempty by (cases "dec_digits n") auto
    moreover have "is_digit ch" using dec_digits_are_digits [of n] calculation by simp
    ultimately show ?thesis using digit_not_space nondigits(4) by blast
  qed
  have "\<exists>ch t. wr e = ch # t \<and> \<not> is_json_space ch \<and> ch \<noteq> CHR '']''"
  proof (cases e)
    case (JInt i)
    then show ?thesis using d [of "nat i"] assms(1)
      by (simp add: wr_scalars int_to_string_cases is_json_space_def)
  next
    case (JUInt u)
    then show ?thesis using d [of "nat u"] by (simp add: wr_scalars)
  next
    case (JBool b)
    then show ?thesis by (cases b) (simp_all add: wr_scalars bool_to_string_def is_json_space_def)
  qed (use assms(2) in \<open>simp_all add: wr_simps wr_array quoted_escape is_json_space_def\<close>)
  then show thesis using that by blast
qed

text \<open>The items of an array, from the one at index \<open>length vs\<close> on, with white space around them.\<close>

definition padded :: "(string \<Rightarrow> bool) \<Rightarrow> string \<Rightarrow> bool" where
  "padded P t \<longleftrightarrow> (\<exists>a u b. t = a @ u @ b \<and> spaces a \<and> spaces b \<and> P u)"

lemma padded_mono [mono]: "(\<And>u. P u \<longrightarrow> Q u) \<Longrightarrow> padded P t \<longrightarrow> padded Q t"
  by (auto simp: padded_def)

lemma yields_items:
  assumes "list_all2 (\<lambda>e. padded (reads c fs doc e)) es ts" and "es \<noteq> []"
    and "\<forall>e \<in> set es. rs_depth s + int (jdepth e) \<le> stackLimit fs"
    and "rs_rest s = commas ts @ CHR '']'' # rest" and "rs_before s = []"
    and "2 * length (rs_rest s) + 3 \<le> n"
  shows "yields (readArray c fs doc n (length vs) (JArray (enum vs))) s (JArray (enum (vs @ map canon es))) rest"
  using assms
proof (induction es ts arbitrary: s vs n rule: list_all2_induct)
  case (Cons e es t ts)
  obtain a u b where t: "t = a @ u @ b" "spaces a" "spaces b" "reads c fs doc e u" using Cons.hyps(1) by (auto simp: padded_def)
  have nil: "es = [] \<longleftrightarrow> ts = []" using list_all2_lengthD [OF Cons.hyps(2)] by auto
  obtain m where n: "n = Suc m" using Cons.prems(5) by (cases n) auto
  define tail where "tail = (if es = [] then CHR '']'' # rest else CHR '','' # commas ts @ CHR '']'' # rest)"
  have tx: "rs_rest s = a @ u @ b @ tail"
    using Cons.prems(3) nil by (cases ts) (simp_all add: tail_def t(1))
  have rd: "rs_depth s + int (jdepth e) \<le> stackLimit fs" using Cons.prems(2) by simp
  have tt: "terminated (b @ tail)" using t(3) by (intro terminated_pad) (simp_all add: tail_def terminated_def)
  have fu: "2 * length (rs_rest s) + 2 \<le> m" using Cons.prems(5) n by simp
  obtain s1 where s1: "read_value c fs doc m JNull s = (Ok (True, canon e), s1)" "read_to s (b @ tail) s1"
    by (rule readsD [OF t(4) tx t(2) tt Cons.prems(4) rd fu])
  note f = read_to_fields [OF s1(2)]
  show ?case
  proof (cases "es = []")
    case True
    have tok: "readToken fs (rs_rest s1) = \<lparr>tk_type = tokenArrayEnd, tk_start = CHR '']'' # rest, tk_end = rest\<rparr>"
      using True f(1) t(3) by (simp add: tail_def token_punctuation readToken_pad)
    show ?thesis
      using readArray_step [OF array_extend(1) s1(1) array_extend(2) tok] read_to_next [OF s1(2)] True
      by (auto intro!: yieldsI simp: n)
  next
    case False
    let ?t = "commas ts @ CHR '']'' # rest"
    have tok: "readToken fs (rs_rest s1) = \<lparr>tk_type = tokenArraySeparator, tk_start = CHR '','' # ?t, tk_end = ?t\<rparr>"
      using False f(1) t(3) by (simp add: tail_def token_punctuation readToken_pad)
    let ?s2 = "s1\<lparr>rs_rest := ?t\<rparr>"
    have "yields (readArray c fs doc m (length (vs @ [canon e])) (JArray (enum (vs @ [canon e])))) ?s2
        (JArray (enum ((vs @ [canon e]) @ map canon es))) rest"
      using Cons.prems(2,4,5) f tx False n by (intro Cons.IH) (auto simp: tail_def)
    then show ?thesis
      using readArray_step [OF array_extend(1) s1(1) array_extend(2) tok] read_to_trans [OF read_to_next [OF s1(2)]]
      by (auto simp: yields_def n)
  qed
qed simp

section \<open>Objects\<close>

lemma member_extend:
  assumes "\<forall>k' \<in> set (map fst xs). k' < k"
  shows "isMember k (JObject xs) = Ok False"
    "resolveReference k (JObject xs) = Ok (JObject (xs @ [(k, JNull)]), JNull)"
    "member_set k v (JObject xs) = Ok (JObject (xs @ [(k, v)]))"
  using amap_get_last [OF assms] amap_put_last [OF assms] amap_put_over_last [OF assms]
  by (simp_all add: isMember_def find_member_def resolveReference_def member_set_def)

lemma run_pure:
    "bind_p (lift_p (Ok a)) f s = f a s" "bind_p (ret_p a) f s = f a s"
    "then_p (mod_p g) m s = m (g s)" "bind_p (gets_p h) f s = f (h s) s"
  by (simp_all add: then_p_def bind_p_def)

lemma readObject_step:
  assumes tx: "rs_rest s = a @ valueToQuotedStringN k @ b @ CHR '':'' # t" and sp: "spaces a" "spaces b"
    and key: "length k < key_limit" and xs: "\<forall>k' \<in> set (map fst xs). k' < k"
    and val: "read_value c fs doc n JNull (s\<lparr>rs_rest := t\<rparr>) = (Ok (True, v), s1)"
    and tok: "readToken fs (rs_rest s1) = tok" "tk_type tok \<in> {tokenArraySeparator, tokenObjectEnd}"
  shows "readObject c fs doc (Suc n) name (JObject xs) s =
    (if tk_type tok = tokenObjectEnd then (Ok (True, JObject (xs @ [(k, v)])), s1\<lparr>rs_rest := tk_end tok\<rparr>)
     else readObject c fs doc n k (JObject (xs @ [(k, v)])) (s1\<lparr>rs_rest := tk_end tok\<rparr>))"
proof -
  let ?t = "b @ CHR '':'' # t"
  let ?name = "\<lparr>tk_type = tokenString, tk_start = valueToQuotedStringN k @ ?t, tk_end = ?t\<rparr>"
  let ?colon = "\<lparr>tk_type = tokenMemberSeparator, tk_start = CHR '':'' # t, tk_end = t\<rparr>"
  let ?s0 = "s\<lparr>rs_rest := ?t\<rparr>"
  have a: "skip_comments c fs s = (Ok ?name, ?s0)"
    using run_skip(1) [of fs s ?name c] tx token_string sp by (simp add: readToken_pad)
  have b: "read_name fs doc ?name ?s0 = (Ok (Name k), ?s0)"
    by (simp add: read_name_def decode_string_tok_def decodeString_quoted bind_p_def)
  have d: "next_token c fs ?s0 = (Ok ?colon, s\<lparr>rs_rest := t\<rparr>)"
    using run_next [of fs ?s0 ?colon c] token_punctuation(6) sp by (simp add: readToken_pad)
  have e: "next_token c fs s1 = (Ok tok, s1\<lparr>rs_rest := tk_end tok\<rparr>)"
    using run_next [OF tok(1)] tok(2) by auto
  note steps = bind_p_apply(1) [where m = "skip_comments c fs", OF a] bind_p_apply(1) [where m = "read_name fs doc ?name", OF b]
    bind_p_apply(1) [where m = "next_token c fs", OF d] bind_p_apply(1) [where m = "read_value c fs doc n JNull", OF val]
    bind_p_apply(1) [where m = "next_token c fs", OF e]
  show ?thesis
    using key tok(2) by (auto simp: steps member_extend [OF xs] run_pure)
qed

lemma readObject_empty: "rs_rest s = a @ CHR ''}'' # rest \<Longrightarrow> spaces a \<Longrightarrow>
    readObject c fs doc (Suc n) [] (JObject []) s = (Ok (True, JObject []), s\<lparr>rs_rest := rest\<rparr>)"
  using run_skip(1) [of fs s "\<lparr>tk_type = tokenObjectEnd, tk_start = CHR ''}'' # rest, tk_end = rest\<rparr>" c]
  by (simp add: token_punctuation readToken_pad bind_p_def)

definition canon_member :: "string \<times> jvalue \<Rightarrow> string \<times> jvalue" where
  "canon_member m = (fst m, canon (snd m))"

text \<open>A member: its name, a colon and its value, with white space around them.\<close>

definition member_spelled :: "string \<Rightarrow> (string \<Rightarrow> bool) \<Rightarrow> string \<Rightarrow> bool" where
  "member_spelled k P t \<longleftrightarrow> (\<exists>a b u. t = a @ valueToQuotedStringN k @ b @ CHR '':'' # u \<and> spaces a \<and> spaces b \<and> padded P u)"

lemma member_spelled_mono [mono]: "(\<And>u. P u \<longrightarrow> Q u) \<Longrightarrow> member_spelled k P t \<longrightarrow> member_spelled k Q t"
  unfolding member_spelled_def using padded_mono [of P Q] by blast

lemma yields_members:
  assumes "list_all2 (\<lambda>m. member_spelled (fst m) (reads c fs doc (snd m))) ms ts" and "ms \<noteq> []"
    and "sorted_wrt (<) (map fst (xs @ ms))"
    and "\<forall>(k, e) \<in> set ms. length k < key_limit \<and> rs_depth s + int (jdepth e) \<le> stackLimit fs"
    and "rs_rest s = commas ts @ CHR ''}'' # rest" and "rs_before s = []"
    and "2 * length (rs_rest s) + 3 \<le> n"
  shows "yields (readObject c fs doc n name (JObject xs)) s (JObject (xs @ map canon_member ms)) rest"
  using assms
proof (induction ms ts arbitrary: s xs n name rule: list_all2_induct)
  case (Cons m ms t ts)
  obtain k e where m: "m = (k, e)" by (cases m)
  obtain a b p u q where t: "t = a @ valueToQuotedStringN k @ b @ CHR '':'' # p @ u @ q" "spaces a" "spaces b" "spaces p" "spaces q"
      "reads c fs doc e u"
    using Cons.hyps(1) by (auto simp: member_spelled_def padded_def m)
  have nil: "ms = [] \<longleftrightarrow> ts = []" using list_all2_lengthD [OF Cons.hyps(2)] by auto
  obtain j where n: "n = Suc j" using Cons.prems(6) by (cases n) auto
  define tail where "tail = (if ms = [] then CHR ''}'' # rest else CHR '','' # commas ts @ CHR ''}'' # rest)"
  let ?v = "p @ u @ q @ tail"
  have tx: "rs_rest s = a @ valueToQuotedStringN k @ b @ CHR '':'' # ?v"
    using Cons.prems(4) nil by (cases ts) (simp_all add: tail_def t(1))
  have rd: "length k < key_limit" "rs_depth s + int (jdepth e) \<le> stackLimit fs" using Cons.prems(3) by (simp_all add: m)
  have xs: "\<forall>k' \<in> set (map fst xs). k' < k" using Cons.prems(2) by (auto simp: m sorted_wrt_append)
  have tt: "terminated (q @ tail)" using t(5) by (intro terminated_pad) (simp_all add: tail_def terminated_def)
  let ?s0 = "s\<lparr>rs_rest := ?v\<rparr>"
  obtain s1 where s1: "read_value c fs doc j JNull ?s0 = (Ok (True, canon e), s1)" "read_to ?s0 (q @ tail) s1"
  proof (rule readsD [OF t(6) _ t(4) tt, of ?s0 j JNull])
    show "2 * length (rs_rest ?s0) + 2 \<le> j" using Cons.prems(6) n tx by simp
  qed (use rd(2) Cons.prems(5) in simp_all)
  have s1': "read_to s (q @ tail) s1" using read_to_trans [OF read_to_skip s1(2)] .
  note f = read_to_fields [OF s1']
  show ?case
  proof (cases "ms = []")
    case True
    have tok: "readToken fs (rs_rest s1) = \<lparr>tk_type = tokenObjectEnd, tk_start = CHR ''}'' # rest, tk_end = rest\<rparr>"
      using True f(1) t(5) by (simp add: tail_def token_punctuation readToken_pad)
    show ?thesis
      using readObject_step [OF tx t(2,3) rd(1) xs s1(1) tok] read_to_next [OF s1'] True
      by (auto intro!: yieldsI simp: n m canon_member_def)
  next
    case False
    let ?t = "commas ts @ CHR ''}'' # rest"
    have tok: "readToken fs (rs_rest s1) = \<lparr>tk_type = tokenArraySeparator, tk_start = CHR '','' # ?t, tk_end = ?t\<rparr>"
      using False f(1) t(5) by (simp add: tail_def token_punctuation readToken_pad)
    have "yields (readObject c fs doc j k (JObject (xs @ [(k, canon e)]))) (s1\<lparr>rs_rest := ?t\<rparr>)
        (JObject ((xs @ [(k, canon e)]) @ map canon_member ms)) rest"
      using Cons.prems(2,3,5,6) f tx False n by (intro Cons.IH) (auto simp: tail_def m sorted_wrt_append)
    then show ?thesis
      using readObject_step [OF tx t(2,3) rd(1) xs s1(1) tok] read_to_trans [OF read_to_next [OF s1']]
      by (auto simp: yields_def n m canon_member_def)
  qed
qed simp

section \<open>Texts of a value\<close>

text \<open>
  The texts that denote a value: scalars as the writers print them, and any white space around items, names and
  values.
\<close>

inductive spelled :: "jvalue \<Rightarrow> string \<Rightarrow> bool" where
  scalar: "scalar v \<Longrightarrow> spelled v (wr v)"
| no_items: "items_of xs = [] \<Longrightarrow> spaces a \<Longrightarrow> spelled (JArray xs) (CHR ''['' # a @ '']'')"
| items: "list_all2 (\<lambda>e. padded (spelled e)) (items_of xs) ts \<Longrightarrow> ts \<noteq> [] \<Longrightarrow> spelled (JArray xs) (CHR ''['' # commas ts @ '']'')"
| no_members: "spaces a \<Longrightarrow> spelled (JObject []) (CHR ''{'' # a @ ''}'')"
| members: "list_all2 (\<lambda>m. member_spelled (fst m) (spelled (snd m))) ms ts \<Longrightarrow> ts \<noteq> [] \<Longrightarrow>
    spelled (JObject ms) (CHR ''{'' # commas ts @ ''}'')"

inductive_cases spelled_ArrayE: "spelled (JArray xs) t"
inductive_cases spelled_ObjectE: "spelled (JObject ms) t"

lemma jdepth_elem: "(k, e) \<in> set xs \<Longrightarrow> jdepth e < jdepth (JArray xs)"
  by (force simp: less_Suc_eq_le intro!: Max_ge)

lemma jdepth_member: "(k, e) \<in> set xs \<Longrightarrow> jdepth e < jdepth (JObject xs)"
  by (force simp: less_Suc_eq_le intro!: Max_ge)

lemma jdepth_pos: "0 < jdepth e"
  by (cases e) simp_all

lemma items_of_set: "e \<in> set (items_of xs) \<Longrightarrow> e = JNull \<or> (\<exists>k. (k, e) \<in> set xs)"
  by (auto simp: items_of_def dest!: amap_get_in split: option.splits)

lemma item_depth:
  assumes "e \<in> set (items_of xs)"
  shows "jdepth e < jdepth (JArray xs)"
  using items_of_set [OF assms]
proof
  assume e: "e = JNull"
  have "items_of xs \<noteq> []" using assms by auto
  then have "xs \<noteq> []" by (auto simp: items_of_def)
  then obtain k u where "(k, u) \<in> set xs" by (cases xs) auto
  then show ?thesis
    using e jdepth_elem jdepth_pos [of u] by (metis jdepth.simps(3) less_trans_Suc One_nat_def Suc_leI le_less_trans)
qed (use jdepth_elem in blast)

lemma item_fine:
  assumes "e \<in> set (items_of xs)" and "wf_value (JArray xs)" and "textual (JArray xs)"
  shows "wf_value e \<and> textual e"
  using items_of_set [OF assms(1)] assms(2,3) by auto

lemma spelled_head:
  assumes "spelled v t" and "wf_value v"
  shows "\<exists>ch u. t = ch # u \<and> \<not> is_json_space ch \<and> ch \<noteq> CHR '']''"
  using assms
proof cases
  case scalar
  moreover have "textual v" using calculation(2) by (cases v) (auto simp: scalar_def)
  ultimately show ?thesis using wr_head [OF assms(2)] by metis
qed (simp_all add: is_json_space_def)

section \<open>The round trip\<close>

lemma reads_scalar:
  assumes v: "scalar v" "wf_value v"
  shows "reads c fs doc v (wr v)"
  unfolding reads_def
proof (intro allI impI)
  fix s :: rst and a rest n cur
  assume s: "rs_rest s = a @ wr v @ rest" "spaces a" "terminated rest" "rs_before s = []"
    "rs_depth s + int (jdepth v) \<le> stackLimit fs" "2 * length (rs_rest s) + 2 \<le> n"
  have "jdepth v = 1" using v(1) by (cases v) (simp_all add: scalar_def)
  then show "yields (read_value c fs doc n cur) s (canon v) rest"
    using yields_scalar_text [OF v _ _ s(3)] s by (simp add: starts_def readToken_pad)
qed

lemma run_object:
  assumes "rs_rest s = a @ CHR ''{'' # t" and "spaces a" and "starts fs s"
    and "yields (readObject c fs doc m [] (JObject [])) (s\<lparr>rs_depth := rs_depth s + 1, rs_rest := t\<rparr>) v rest"
  shows "yields (read_value c fs doc (Suc m) cur) s v rest"
proof -
  let ?tok = "\<lparr>tk_type = tokenObjectBegin, tk_start = CHR ''{'' # t, tk_end = t\<rparr>"
  obtain s' where "readObject c fs doc m [] (JObject []) (s\<lparr>rs_depth := rs_depth s + 1, rs_rest := t\<rparr>) = (Ok (True, v), s')"
    "read_to (s\<lparr>rs_depth := rs_depth s + 1, rs_rest := t\<rparr>) rest s'" using assms(4) by (auto simp: yields_def)
  from run_leave [where m = "readObject c fs doc m [] (JObject [])", OF this, of c]
  show ?thesis
    using run_enter [OF assms(3), of ?tok c doc m cur] token_punctuation(1) [of fs t] assms(1,2)
    by (auto simp: yields_def readToken_pad)
qed

lemma canon_object: "canon (JObject ms) = JObject (map canon_member ms)"
proof -
  have "canon_member = (\<lambda>(k, e). (k, canon e))" by (rule ext) (simp add: canon_member_def case_prod_beta)
  then show ?thesis by (simp add: canon_simps)
qed

lemma reads_object:
  assumes "list_all2 (\<lambda>m. member_spelled (fst m) (reads c fs doc (snd m))) ms ts" and "ts \<noteq> []"
    and "amap_ok ms" and "\<forall>(k, e) \<in> set ms. length k < key_limit"
  shows "reads c fs doc (JObject ms) (CHR ''{'' # commas ts @ ''}'')"
  unfolding reads_def
proof (intro allI impI)
  fix s :: rst and a rest n cur
  assume s: "rs_rest s = a @ (CHR ''{'' # commas ts @ ''}'') @ rest" "spaces a" "terminated rest" "rs_before s = []"
    "rs_depth s + int (jdepth (JObject ms)) \<le> stackLimit fs" "2 * length (rs_rest s) + 2 \<le> n"
  obtain m where n: "n = Suc m" using s(6) by (cases n) auto
  have ne: "ms \<noteq> []" using assms(1,2) by auto
  let ?t = "commas ts @ CHR ''}'' # rest"
  let ?s1 = "s\<lparr>rs_depth := rs_depth s + 1, rs_rest := ?t\<rparr>"
  have st: "starts fs s" using s(4,5) by (simp add: starts_def)
  have d: "\<forall>(k, e) \<in> set ms. length k < key_limit \<and> rs_depth ?s1 + int (jdepth e) \<le> stackLimit fs"
  proof clarify
    fix k e assume "(k, e) \<in> set ms"
    with jdepth_member [OF this] s(5) assms(4)
    show "length k < key_limit \<and> rs_depth ?s1 + int (jdepth e) \<le> stackLimit fs" by auto
  qed
  have "yields (readObject c fs doc m [] (JObject [])) ?s1 (JObject (map canon_member ms)) rest"
    using yields_members [OF assms(1) ne _ d, of "[]" rest m] assms(3) s(1,4,6) n by (simp add: amap_ok_def)
  then show "yields (read_value c fs doc n cur) s (canon (JObject ms)) rest"
    using run_object [OF _ s(2) st, of ?t c doc m] s(1) by (simp add: n canon_object del: readObject.simps read_value.simps)
qed

lemma reads_no_members:
  assumes "spaces b"
  shows "reads c fs doc (JObject []) (CHR ''{'' # b @ ''}'')"
  unfolding reads_def
proof (intro allI impI)
  fix s :: rst and a rest n cur
  assume s: "rs_rest s = a @ (CHR ''{'' # b @ ''}'') @ rest" "spaces a" "terminated rest" "rs_before s = []"
    "rs_depth s + int (jdepth (JObject [])) \<le> stackLimit fs" "2 * length (rs_rest s) + 2 \<le> n"
  obtain m where n: "n = Suc (Suc m)" using s(1,6) by (cases n; cases "n - 1") auto
  let ?t = "b @ CHR ''}'' # rest"
  let ?s1 = "s\<lparr>rs_depth := rs_depth s + 1, rs_rest := ?t\<rparr>"
  have st: "starts fs s" using s(4,5) by (simp add: starts_def)
  have e: "rs_rest ?s1 = b @ CHR ''}'' # rest" by simp
  have "yields (readObject c fs doc (Suc m) [] (JObject [])) ?s1 (JObject []) rest"
    by (rule yieldsI [where s' = "?s1\<lparr>rs_rest := rest\<rparr>"], rule readObject_empty [OF e assms], rule read_to_skip)
  then show "yields (read_value c fs doc n cur) s (canon (JObject [])) rest"
    using run_object [OF _ s(2) st, of ?t c doc "Suc m"] s(1) by (simp add: n canon_simps del: readObject.simps read_value.simps)
qed

text \<open>The beginning of an array.\<close>

lemma run_array:
  assumes "rs_rest s = a @ CHR ''['' # t" and "spaces a" and "starts fs s"
  shows "read_value c fs doc (Suc m) cur s =
    (if peek (skipSpaces t) = CHR '']'' then then_p (next_token c fs) (leave_value c (True, JArray []))
     else bind_p (readArray c fs doc m 0 (JArray [])) (leave_value c))
    (s\<lparr>rs_depth := rs_depth s + 1, rs_rest := skipSpaces t\<rparr>)"
  using run_enter [OF assms(3), of "\<lparr>tk_type = tokenArrayBegin, tk_start = CHR ''['' # t, tk_end = t\<rparr>" c doc m cur]
    token_punctuation(3) [of fs t] assms(1,2)
  by (simp add: readToken_pad run_pure comp_def del: read_value.simps)

lemma reads_no_items:
  assumes "items_of xs = []" and "spaces b"
  shows "reads c fs doc (JArray xs) (CHR ''['' # b @ '']'')"
  unfolding reads_def
proof (intro allI impI)
  fix s :: rst and a rest n cur
  assume s: "rs_rest s = a @ (CHR ''['' # b @ '']'') @ rest" "spaces a" "terminated rest" "rs_before s = []"
    "rs_depth s + int (jdepth (JArray xs)) \<le> stackLimit fs" "2 * length (rs_rest s) + 2 \<le> n"
  obtain m where n: "n = Suc m" using s(6) by (cases n) auto
  have st: "starts fs s" using s(4,5) by (simp add: starts_def)
  let ?close = "\<lparr>tk_type = tokenArrayEnd, tk_start = CHR '']'' # rest, tk_end = rest\<rparr>" and ?t = "b @ CHR '']'' # rest"
  let ?s1 = "s\<lparr>rs_depth := rs_depth s + 1, rs_rest := CHR '']'' # rest\<rparr>"
  have sp: "skipSpaces ?t = CHR '']'' # rest"
    using skipSpaces_pad [OF assms(2), of "CHR '']'' # rest"] by (simp add: skipSpaces_def is_json_space_def)
  have k: "next_token c fs ?s1 = (Ok ?close, ?s1\<lparr>rs_rest := rest\<rparr>)"
    using run_next [of fs ?s1 ?close c] token_punctuation(4) by simp
  have "then_p (next_token c fs) (ret_p (True, JArray [])) ?s1 = (Ok (True, JArray []), ?s1\<lparr>rs_rest := rest\<rparr>)"
    using k by (simp add: then_p_def bind_p_def)
  from run_leave [where s = s and m = "then_p (next_token c fs) (ret_p (True, JArray []))", OF this read_to_skip, of c]
  show "yields (read_value c fs doc n cur) s (canon (JArray xs)) rest"
    using run_array [OF _ s(2) st, of ?t c doc m cur] s(1) k assms(1) unfolding yields_def n
    by (auto simp: sp peek_def then_p_def bind_p_def canon_array simp del: read_value.simps)
qed

lemma commas_pad: "commas ((a @ x) # xs) = a @ commas (x # xs)"
  by (cases xs) simp_all

lemma reads_array:
  assumes "list_all2 (\<lambda>e. padded (reads c fs doc e)) (items_of xs) ts" and "ts \<noteq> []"
    and "\<exists>a u b. hd ts = a @ u @ b \<and> spaces a \<and> spaces b \<and> reads c fs doc (hd (items_of xs)) u \<and>
      (\<exists>ch u'. u = ch # u' \<and> \<not> is_json_space ch \<and> ch \<noteq> CHR '']'')"
  shows "reads c fs doc (JArray xs) (CHR ''['' # commas ts @ '']'')"
  unfolding reads_def
proof (intro allI impI)
  fix s :: rst and a rest n cur
  let ?es = "items_of xs"
  assume s: "rs_rest s = a @ (CHR ''['' # commas ts @ '']'') @ rest" "spaces a" "terminated rest" "rs_before s = []"
    "rs_depth s + int (jdepth (JArray xs)) \<le> stackLimit fs" "2 * length (rs_rest s) + 2 \<le> n"
  obtain m where n: "n = Suc m" using s(6) by (cases n) auto
  have st: "starts fs s" using s(4,5) by (simp add: starts_def)
  obtain t ts' where ts: "ts = t # ts'" using assms(2) by (cases ts) auto
  obtain e es where es: "?es = e # es" using assms(1) ts by (cases ?es) auto
  obtain p u q ch u' where t: "t = p @ u @ q" "spaces p" "spaces q" "reads c fs doc e u"
      "u = ch # u'" "\<not> is_json_space ch" "ch \<noteq> CHR '']''"
    using assms(3) ts es by auto
  let ?r = "commas ((u @ q) # ts') @ CHR '']'' # rest"
  have pu: "padded (reads c fs doc e) (u @ q)"
    unfolding padded_def using t(3,4) by (intro exI [of _ "[]"] exI [of _ u] exI [of _ q]) simp
  have all: "list_all2 (\<lambda>e. padded (reads c fs doc e)) ?es ((u @ q) # ts')"
    using assms(1) ts es pu by simp
  obtain r where r: "?r = ch # r" using t(5) by (cases ts') auto
  have sk: "skipSpaces (commas ts @ CHR '']'' # rest) = ?r"
    using skipSpaces_pad [OF t(2), of ?r] r t(6) by (simp add: ts t(1) commas_pad skipSpaces_def)
  have pk: "peek ?r \<noteq> CHR '']''" unfolding r using t(7) by (simp add: peek_def)
  let ?s1 = "s\<lparr>rs_depth := rs_depth s + 1, rs_rest := ?r\<rparr>"
  have len: "length ?r \<le> length (commas ts @ CHR '']'' # rest)" by (simp add: ts t(1) commas_pad)
  have "yields (readArray c fs doc m (length ([] :: jvalue list)) (JArray (enum []))) ?s1
      (JArray (enum ([] @ map canon ?es))) rest"
  proof (rule yields_items [OF all])
    show "\<forall>e \<in> set ?es. rs_depth ?s1 + int (jdepth e) \<le> stackLimit fs"
      using item_depth [of _ xs] s(5) by fastforce
    show "2 * length (rs_rest ?s1) + 3 \<le> m" using s(1,6) n len by simp
  qed (use s(4) es in simp_all)
  then obtain s' where "readArray c fs doc m 0 (JArray []) ?s1 = (Ok (True, JArray (enum (map canon ?es))), s')"
    "read_to ?s1 rest s'" by (auto simp: yields_def)
  from run_leave [where m = "readArray c fs doc m 0 (JArray [])", OF this, of c]
  show "yields (read_value c fs doc n cur) s (canon (JArray xs)) rest"
    using run_array [OF _ s(2) st, of "commas ts @ CHR '']'' # rest" c doc m cur] s(1) pk unfolding yields_def n sk
    by (simp add: canon_array enum_def del: read_value.simps)
qed

text \<open>Every spelling of a value is read as that value.\<close>

lemma reads_spelled: "spelled v t \<Longrightarrow> wf_value v \<Longrightarrow> textual v \<Longrightarrow> reads c fs doc v t"
proof (induction rule: spelled.induct)
  case (scalar v)
  then show ?case by (intro reads_scalar)
next
  case (no_items xs a)
  then show ?case by (intro reads_no_items)
next
  case (no_members a)
  then show ?case by (intro reads_no_members)
next
  case (items xs ts)
  have f: "wf_value e \<and> textual e" if "e \<in> set (items_of xs)" for e using item_fine [OF that items.prems] .
  have all: "list_all2 (\<lambda>e. padded (reads c fs doc e)) (items_of xs) ts"
  proof (rule list.rel_mono_strong [OF items.IH(1)])
    fix e t assume "e \<in> set (items_of xs)" and "padded (\<lambda>u. spelled e u \<and> (wf_value e \<longrightarrow> textual e \<longrightarrow> reads c fs doc e u)) t"
    then show "padded (reads c fs doc e) t" using f [of e] by (auto simp: padded_def)
  qed
  obtain e es t ts' where e: "items_of xs = e # es" "ts = t # ts'"
    using items.hyps(1) list_all2_lengthD [OF all] by (cases "items_of xs"; cases ts) auto
  obtain a u b where u: "t = a @ u @ b" "spaces a" "spaces b" "spelled e u" "wf_value e \<longrightarrow> textual e \<longrightarrow> reads c fs doc e u"
    using items.IH(1) unfolding e by (auto simp: padded_def)
  show ?case
  proof (rule reads_array [OF all items.hyps(1)])
    show "\<exists>a u b. hd ts = a @ u @ b \<and> spaces a \<and> spaces b \<and> reads c fs doc (hd (items_of xs)) u \<and>
        (\<exists>ch u'. u = ch # u' \<and> \<not> is_json_space ch \<and> ch \<noteq> CHR '']'')"
      unfolding e list.sel using u f [of e] spelled_head [OF u(4)] e(1) by (metis list.set_intros(1))
  qed
next
  case (members ms ts)
  have all: "list_all2 (\<lambda>m. member_spelled (fst m) (reads c fs doc (snd m))) ms ts"
  proof (rule list.rel_mono_strong [OF members.IH(1)])
    fix m t assume "m \<in> set ms" and "member_spelled (fst m)
      (\<lambda>u. spelled (snd m) u \<and> (wf_value (snd m) \<longrightarrow> textual (snd m) \<longrightarrow> reads c fs doc (snd m) u)) t"
    moreover have "wf_value (snd m) \<and> textual (snd m)" using members.prems calculation(1) by (cases m) auto
    ultimately show "member_spelled (fst m) (reads c fs doc (snd m)) t"
      using member_spelled_mono [where Q = "reads c fs doc (snd m)" and k = "fst m" and t = t
        and P = "\<lambda>u. spelled (snd m) u \<and> (wf_value (snd m) \<longrightarrow> textual (snd m) \<longrightarrow> reads c fs doc (snd m) u)"] by blast
  qed
  show ?case by (rule reads_object [OF all members.hyps(1)]) (use members.prems in auto)
qed

text \<open>\<open>FastWriter\<close> writes a spelling without white space.\<close>

lemma padded_self: "P t \<Longrightarrow> padded P t"
  unfolding padded_def by (rule exI [of _ "[]"], rule exI [of _ t], rule exI [of _ "[]"]) simp

lemma spelled_wr: "textual v \<Longrightarrow> spelled v (wr v)"
proof (induction v)
  case (JArray xs)
  have it: "spelled e (wr e)" if "e \<in> set (items_of xs)" for e
    using items_of_set [OF that]
  proof
    assume "\<exists>k. (k, e) \<in> set xs"
    then obtain k where k: "(k, e) \<in> set xs" by blast
    have "e \<in> Basic_BNFs.snds (k, e)" using snds.intros [of "(k, e)"] by simp
    then show ?thesis using JArray.IH [OF k] JArray.prems k by auto
  qed (simp add: spelled.scalar scalar_def)
  show ?case
  proof (cases "items_of xs = []")
    case True
    then show ?thesis using spelled.no_items [of xs "[]"] by (simp add: wr_array)
  next
    case False
    then show ?thesis using it unfolding wr_array
      by (intro spelled.items) (auto simp: list_all2_map2 list_all2_same intro!: padded_self)
  qed
next
  case (JObject ms)
  have it: "member_spelled (fst m) (spelled (snd m)) (member_text m)" if "m \<in> set ms" for m
  proof -
    obtain k e where m: "m = (k, e)" by (cases m)
    have "e \<in> Basic_BNFs.snds (k, e)" using snds.intros [of "(k, e)"] by simp
    then have "spelled e (wr e)" using JObject.IH [of m e] JObject.prems that m by auto
    then show ?thesis unfolding member_spelled_def member_text_def m
      by (intro exI [of _ "[]"] exI [of _ "wr e"]) (simp add: padded_self)
  qed
  show ?case
  proof (cases "ms = []")
    case True
    then show ?thesis using spelled.no_members [of "[]"] by (simp add: wr_object)
  next
    case False
    then show ?thesis using it unfolding wr_object
      by (intro spelled.members) (auto simp: list_all2_map2 list_all2_same)
  qed
qed (auto intro: spelled.scalar simp: scalar_def)

text \<open>A whole document: a spelling of a value, with white space around it.\<close>

definition container :: "jvalue \<Rightarrow> bool" where
  "container v \<longleftrightarrow> jtype_of v = arrayValue \<or> jtype_of v = objectValue"

lemma container_canon: "container (canon v) = container v"
  by (cases v) (simp_all add: container_def canon_simps canon_array canon_int_def)

lemma readToken_end: "spaces b \<Longrightarrow> readToken fs b = \<lparr>tk_type = tokenEndOfStream, tk_start = [], tk_end = []\<rparr>"
  by (simp only: readToken_spaces [of b]) (simp add: readToken_def skipSpaces_def getNextChar_def token_from_def is_digit_def)

lemma parse_spelled:
  assumes "spelled v t" and "doc = a @ t @ b" and "spaces a" and "spaces b"
    and "wf_value v" and "textual v" and "int (jdepth v) \<le> stackLimit fs" and "strictRoot fs \<longrightarrow> container v"
  shows "fst (parse fs collect doc rootv) = Ok (True, canon v)"
proof -
  have rd: "reads c fs doc v t" for c using assms(1,5,6) by (rule reads_spelled)
  have tt: "terminated b" using terminated_pad [OF assms(4), of "[]"] by (simp add: terminated_def)
  let ?s = "initial_rst doc" and ?c = "allowComments fs \<and> collect"
  obtain s' where s': "read_value ?c fs doc (parse_fuel doc) rootv ?s = (Ok (True, canon v), s')"
    "read_to ?s b s'"
  proof (rule readsD [OF rd _ assms(3) tt, of ?s "parse_fuel doc" ?c rootv])
    show "rs_rest ?s = a @ t @ b" by (simp add: initial_rst_def assms(2))
    show "2 * length (rs_rest ?s) + 2 \<le> parse_fuel doc" by (simp add: initial_rst_def parse_fuel_def)
  qed (use assms(7) in \<open>simp_all add: initial_rst_def\<close>)
  let ?tok = "\<lparr>tk_type = tokenEndOfStream, tk_start = [], tk_end = []\<rparr>"
  have k: "skipCommentTokens ?c fs s' = (Ok ?tok, s'\<lparr>rs_rest := []\<rparr>)"
    using run_skip(2) [of fs s' ?tok ?c] read_to_rest [OF s'(2)] readToken_end [OF assms(4)] by simp
  have b: "rs_before s' = []" using read_to_before [OF s'(2)] by (simp add: initial_rst_def)
  have str: "\<not> (strictRoot fs \<and> jtype_of (canon v) \<noteq> arrayValue \<and> jtype_of (canon v) \<noteq> objectValue)"
    using assms(8) container_canon [of v] by (auto simp: container_def)
  show ?thesis
    unfolding parse_def parse_prog_def Let_def
    using s'(1) k b str by (auto simp: bind_p_def then_p_def)
qed

text \<open>Through the stream operator, with the settings every builder starts from.\<close>

definition default_features :: json_features where
  "default_features = \<lparr> allowComments = True, strictRoot = False, allowDroppedNullPlaceholders = False,
     allowNumericKeys = False, allowSingleQuotes = False, failIfExtra = False, rejectDupKeys = False,
     allowSpecialFloats = False, stackLimit = 1000 \<rparr>"

lemma default_settings:
  "bind_r (setDefaults JNull) newCharReader = Ok (True, default_features)"
  by code_simp

lemma read_stream_parse:
  "read_stream doc rootv = bind_r (fst (parse default_features True doc rootv)) (\<lambda>(ok, v).
     if ok then Ok v else json_error (getFormattedErrorMessages doc (rs_errors (snd (parse default_features True doc rootv)))))"
proof -
  obtain settings where s: "setDefaults JNull = Ok settings" "newCharReader settings = Ok (True, default_features)"
    using default_settings by (auto simp: bind_r_Ok_iff)
  obtain r t where p: "parse default_features True doc rootv = (r, t)" by (cases "parse default_features True doc rootv")
  show ?thesis
    by (cases r) (auto simp: read_stream_def parseFromStream_def s p)
qed

lemma read_stream_spelled:
  assumes "spelled v t" and "spaces a" and "spaces b" and "wf_value v" and "textual v" and "jdepth v \<le> 1000"
  shows "read_stream (a @ t @ b) rootv = Ok (canon v)"
  using parse_spelled [OF assms(1) HOL.refl assms(2-5), of default_features True rootv] assms(6)
  by (simp add: read_stream_parse default_features_def)

lemma read_stream_written:
  assumes "wf_value v" and "textual v" and "jdepth v \<le> 1000"
  shows "read_stream (fast_write FastWriter_new v) rootv = Ok (canon v)"
  using read_stream_spelled [OF spelled_wr [OF assms(2)], of "[]" "[CHR 0x0A]", OF _ _ assms]
  by (simp add: fast_write_def is_json_space_def)

text \<open>What is read back writes the same text.\<close>

lemma amap_get_zip: "i < length ys \<Longrightarrow> amap_get (zip [0..<length ys] ys) i = Some (ys ! i)"
proof -
  assume "i < length ys"
  then have "(i, ys ! i) \<in> set (zip [0..<length ys] ys)" by (force simp: set_zip)
  moreover have "amap_ok (zip [0..<length ys] ys)" by (simp add: amap_ok_def)
  ultimately show ?thesis by (rule amap_get_of_in [rotated])
qed

lemma items_of_zip: "items_of (zip [0..<length ys] ys) = ys"
proof -
  have "j_size (JArray (zip [0..<length ys] ys)) = length ys"
    by (cases ys rule: rev_cases) (simp_all add: last_zip)
  then show ?thesis unfolding items_of_def by (intro nth_equalityI) (simp_all add: amap_get_zip)
qed

lemma wr_canon_int: "minInt64 \<le> i \<Longrightarrow> i \<le> maxUInt64 \<Longrightarrow> wr (canon_int i) = (if i < 0 then wr (JInt i) else dec_digits (nat i))"
  by (auto simp: canon_int_def wr_scalars int_to_string_def maxInt_def minInt64_def uintToString_digits)

lemma wr_canon: "wf_value v \<Longrightarrow> wr (canon v) = wr v"
proof (induction v)
  case (JArray xs)
  have m: "map wr (map canon (items_of xs)) = map wr (items_of xs)"
    unfolding map_map
  proof (rule map_cong [OF refl])
    fix e assume "e \<in> set (items_of xs)"
    from items_of_set [OF this] show "(wr \<circ> canon) e = wr e"
    proof
      assume "\<exists>k. (k, e) \<in> set xs"
      then obtain k where k: "(k, e) \<in> set xs" by blast
      have "e \<in> Basic_BNFs.snds (k, e)" using snds.intros [of "(k, e)"] by simp
      then show ?thesis using JArray.IH [OF k] JArray.prems k by auto
    qed (simp add: canon_simps)
  qed
  show ?case unfolding canon_array wr_array items_of_zip [of "map canon (items_of xs)", unfolded length_map] m ..
next
  case (JObject ms)
  have m: "map member_text (map (\<lambda>(k, e). (k, canon e)) ms) = map member_text ms"
    unfolding map_map
  proof (rule map_cong [OF refl])
    fix m assume m: "m \<in> set ms"
    obtain k e where ke: "m = (k, e)" by (cases m)
    have "e \<in> Basic_BNFs.snds (k, e)" using snds.intros [of "(k, e)"] by simp
    then have "wr (canon e) = wr e" using JObject.IH [of m e] JObject.prems m ke by auto
    then show "(member_text \<circ> (\<lambda>(k, e). (k, canon e))) m = member_text m" by (simp add: ke member_text_def)
  qed
  show ?case unfolding canon_simps wr_object m ..
qed (auto simp: canon_simps wr_canon_int wr_scalars int_to_string_def minInt64_def maxInt64_def maxUInt64_def uintToString_digits)

end
