(* ===== verification/Demo_Config.thy ===== *)
theory Demo_Config
  imports Demo Config Json_Reads
begin

text \<open>
  A configuration document for the server of \<open>Demo\<close>, and the proof that reading it gives that server.
\<close>

definition demo_line_conf :: jvalue where
  "demo_line_conf = JObject [(''description'', JString ''outlet''), (''metric'', JString ''power''),
     (''number'', JInt 0), (''voltage'', JInt 0)]"

definition demo_device_conf :: jvalue where
  "demo_device_conf = JObject [(''lines'', JObject [(''l0'', demo_line_conf)]),
     (''type'', JString ''WattsUp''), (''url'', JString ''/dev/ttyUSB0'')]"

definition demo_conf :: jvalue where
  "demo_conf = JObject [(''computers'', JObject []), (''devices'', JObject [(''W'', demo_device_conf)])]"

lemmas demo_conf_defs = demo_conf_def demo_device_conf_def demo_line_conf_def

definition demo_text :: string where
  "demo_text = fast_write FastWriter_new demo_conf"

lemma demo_conf_ok: "wf_value demo_conf" "textual demo_conf" "jdepth demo_conf \<le> 1000" "canon demo_conf = demo_conf"
  by (simp_all add: demo_conf_defs canon_simps canon_int_def maxInt_def minInt64_def maxInt64_def key_limit_def
      amap_ok_def less_char_def)

lemma demo_read: "read_stream demo_text JNull = Ok demo_conf"
  using read_stream_written [OF demo_conf_ok(1-3), of JNull] by (simp add: demo_text_def demo_conf_ok(4))

definition demo_build :: build where
  "demo_build = \<lparr>use_stxxl = False, use_apcape = False\<rparr>"

definition cfg_start :: "int \<Rightarrow> bool \<Rightarrow> cfg" where
  "cfg_start port0 daemonize =
     \<lparr>cf_server = \<lparr>sv_IP = [], sv_port = port0, sv_daemonize = daemonize, sv_devices = [], sv_nextid = 0\<rparr>,
      cf_computers = []\<rparr>"

lemma demo_create_device: "create_device False ''WattsUp'' n u = Some (Device_new n u 1 1 False WattsUp)"
  by (simp add: create_device_def device_register_def)

lemma demo_zeros: "f_of_d d_zero = 0" "f_of_int 0 = 0"
proof -
  show "f_of_d d_zero = 0"
    by (simp add: f_of_d_def d_zero_def d_val_def f_enc_def unpack_def encode_def scaled_def fp_frac_def
        round_mag_def pack_def binary64_def sign_bit_def Let_def)
  show "f_of_int 0 = 0" by code_simp
qed

lemmas demo_reads = ref_get_def resolveReference_def get_default_def find_member_def member_get_def

lemma demo_config_line:
  "config_line ''W'' (JObject [(''l0'', demo_line_conf)]) ''l0'' ([False], [], Device_new ''W'' ''/dev/ttyUSB0'' 1 1 False WattsUp) =
     Ok ([True], [([], Computer_default)], demo_device)"
  by (simp add: config_line_def demo_reads demo_line_conf_def check_number_def pick_computer_def demo_zeros
      register_line_def avail_metrics_def Let_def demo_device_def demo_line_def Device_new_def minInt_def maxInt_def)

lemma demo_config_device:
  "config_device demo_build demo_conf ''W'' [] = Ok (demo_device, [([], Computer_default)])"
proof -
  let ?d = "Device_new ''W'' ''/dev/ttyUSB0'' 1 1 False WattsUp"
  have d: "d_pdu ?d = False" "d_n_lines ?d = 1" "?d\<lparr>d_computer := Computer_default\<rparr> = ?d"
    by (simp_all add: Device_new_def)
  show ?thesis
    by (simp add: config_device_def demo_reads demo_conf_def demo_device_conf_def demo_build_def demo_create_device
        getMemberNames_def amap_keys_def isNull_def demo_config_line pick_computer_def d)
qed

text \<open>The server that reads the document is the server of \<open>Demo\<close>.\<close>

lemma demo_port: "to_short 6526 = 6526"
  by (simp add: to_short_def signed_take_bit_int_eq_self)

lemma demo_configured:
  "parse_configfile demo_build demo_text (cfg_start port0 False) =
     (Ok (), \<lparr>cf_server = demo_server, cf_computers = [([], Computer_default)]\<rparr>)"
proof -
  have "config_body demo_build demo_text (cfg_start port0 False) =
      (Ok (), \<lparr>cf_server = demo_server, cf_computers = [([], Computer_default)]\<rparr>)"
    using demo_config_device
    by (simp add: config_body_def bind_p_def then_p_def lift_p_def demo_read cfg_start_def member_names_def
        demo_conf_def demo_reads getMemberNames_def amap_keys_def add_device_def demo_server_def demo_port
        demo_build_def maxInt_def minInt_def)
  then show ?thesis by (simp add: parse_configfile_def catch_p_def)
qed

section \<open>A document with an error\<close>

text \<open>The same with a second device, of an unknown type.\<close>

definition demo_conf2 :: jvalue where
  "demo_conf2 = JObject [(''computers'', JObject []), (''devices'', JObject [(''W'', demo_device_conf),
     (''X'', JObject [(''type'', JString ''?'')])])]"

definition demo_text2 :: string where
  "demo_text2 = fast_write FastWriter_new demo_conf2"

lemma demo_read2: "read_stream demo_text2 JNull = Ok demo_conf2"
proof -
  have "wf_value demo_conf2" "textual demo_conf2" "jdepth demo_conf2 \<le> 1000" "canon demo_conf2 = demo_conf2"
    by (simp_all add: demo_conf2_def demo_conf_defs canon_simps canon_int_def maxInt_def minInt64_def maxInt64_def
        key_limit_def amap_ok_def less_char_def)
  then show ?thesis using read_stream_written [of demo_conf2 JNull] by (simp add: demo_text2_def)
qed

lemma demo_reads2:
  "bind_r (get_default ''server_ip'' (JString ''0.0.0.0'') demo_conf2) asString = Ok ''0.0.0.0''"
  "bind_r (get_default ''server_port'' (JInt 6526) demo_conf2) asInt = Ok 6526"
  "bind_r (get_default ''server_logfile'' (JString ''pmlib_%N.log'') demo_conf2) asString = Ok ''pmlib_%N.log''"
  "member_names ''computers'' demo_conf2 = Ok []"
  "member_names ''devices'' demo_conf2 = Ok ([''W''] @ ''X'' # [])"
  by (simp_all add: demo_conf2_def demo_reads member_names_def getMemberNames_def amap_keys_def maxInt_def minInt_def)

lemma demo_config_device2:
  "config_device demo_build demo_conf2 ''W'' [] = Ok (demo_device, [([], Computer_default)])"
  using demo_config_device
  by (simp add: config_device_def demo_conf2_def demo_conf_def demo_reads)

lemma demo_reads2_first:
  "for_p [''W''] (add_device demo_build demo_conf2)
     ((cfg_start port0 False)\<lparr>cf_server := (cf_server (cfg_start port0 False))\<lparr>sv_IP := ''0.0.0.0'', sv_port := to_short 6526\<rparr>\<rparr>) =
     (Ok (), \<lparr>cf_server = demo_server, cf_computers = [([], Computer_default)]\<rparr>)"
  by (simp add: then_p_def bind_p_def add_device_def demo_config_device2 cfg_start_def demo_port demo_server_def)

lemma demo_reads2_fail:
  "config_device demo_build demo_conf2 ''X'' computers =
     Throw (Runtime_error (''Error: Module of type ? for device X is not currently supported!''))"
  by (simp add: config_device_def demo_conf2_def demo_reads demo_build_def create_device_def device_register_def)

end
