(* ===== verification/Client_Lines.thy ===== *)
theory Client_Lines
  imports Drivers Counter_Facts
begin

unbundle bit_operations_syntax

text \<open>
  The client's sets of lines: the bit mask \<open>line_t\<close> and its macros (\<open>client/line.h\<close>, \<open>client/pmlib.h\<close>), and
  the parser of line lists such as \<open>0-3,5\<close> (\<open>client/pm_set_lines.c\<close>). The C arrays on the stack are lists
  with the bounds written out: writing past the end is undefined behaviour.
\<close>

section \<open>The mask\<close>

type_synonym line_t = "byte list"

definition LINE_SETSIZE :: nat where "LINE_SETSIZE = 16"
definition NLINEBITS :: nat where "NLINEBITS = 128"

definition LINELT :: "nat \<Rightarrow> nat" where
  "LINELT l = l div 8"

definition LINEMASK :: "nat \<Rightarrow> byte" where
  "LINEMASK l = push_bit (l mod 8) 1"

text \<open>The argument is converted to \<open>size_t\<close>: a negative one is out of range.\<close>

definition in_set_range :: "int \<Rightarrow> bool" where
  "in_set_range l \<longleftrightarrow> 0 \<le> l \<and> nat l < 8 * LINE_SETSIZE"

definition LINE_SET :: "int \<Rightarrow> line_t \<Rightarrow> line_t" where
  "LINE_SET l p = (if in_set_range l then p[LINELT (nat l) := p ! LINELT (nat l) OR LINEMASK (nat l)] else p)"

definition LINE_CLR :: "int \<Rightarrow> line_t \<Rightarrow> line_t" where
  "LINE_CLR l p = (if in_set_range l then p[LINELT (nat l) := p ! LINELT (nat l) AND NOT (LINEMASK (nat l))] else p)"

definition LINE_ISSET :: "int \<Rightarrow> line_t \<Rightarrow> bool" where
  "LINE_ISSET l p \<longleftrightarrow> in_set_range l \<and> p ! LINELT (nat l) AND LINEMASK (nat l) \<noteq> 0"

definition LINE_CLR_ALL :: line_t where
  "LINE_CLR_ALL = replicate LINE_SETSIZE 0x00"

definition LINE_SET_ALL :: line_t where
  "LINE_SET_ALL = replicate LINE_SETSIZE 0xFF"

definition LINE_AND :: "line_t \<Rightarrow> line_t \<Rightarrow> line_t" where
  "LINE_AND p q = map2 (AND) p q"

definition line_ok :: "line_t \<Rightarrow> bool" where
  "line_ok p \<longleftrightarrow> length p = LINE_SETSIZE"

text \<open>What the users of a mask rely on: it is a finite set of small numbers.\<close>

locale small_set =
  fixes member :: "int \<Rightarrow> 'm \<Rightarrow> bool"
    and add :: "int \<Rightarrow> 'm \<Rightarrow> 'm"
    and remove :: "int \<Rightarrow> 'm \<Rightarrow> 'm"
    and empty :: 'm
    and meet :: "'m \<Rightarrow> 'm \<Rightarrow> 'm"
    and universe :: "int set"
    and ok :: "'m \<Rightarrow> bool"
  assumes member_add: "ok m \<Longrightarrow> member i (add j m) \<longleftrightarrow> member i m \<or> (i = j \<and> j \<in> universe)"
    and member_remove: "ok m \<Longrightarrow> member i (remove j m) \<longleftrightarrow> member i m \<and> i \<noteq> j"
    and member_empty: "\<not> member i empty"
    and member_meet: "ok m \<Longrightarrow> ok n \<Longrightarrow> member i (meet m n) \<longleftrightarrow> member i m \<and> member i n"
    and ok_empty: "ok empty"
    and ok_add: "ok m \<Longrightarrow> ok (add j m)"
begin

lemma fold_add: "ok m \<Longrightarrow> ok (fold add js m) \<and> (member i (fold add js m) \<longleftrightarrow> member i m \<or> (i \<in> set js \<and> i \<in> universe))"
  by (induction js arbitrary: m) (auto simp: member_add ok_add)

lemma member_of_list: "member i (fold add js empty) \<longleftrightarrow> i \<in> set js \<and> i \<in> universe"
  using fold_add [OF ok_empty] by (simp add: member_empty)

lemma remove_add: "ok m \<Longrightarrow> member i (remove j (add j m)) \<longleftrightarrow> member i m \<and> i \<noteq> j"
  by (auto simp: member_remove [OF ok_add] member_add)

end

lemma mask_bit: "(b AND LINEMASK l \<noteq> 0) = bit b (l mod 8)"
proof -
  have "b AND LINEMASK l = (if bit b (l mod 8) then push_bit (l mod 8) 1 else 0)"
    by (rule bit_word_eqI) (auto simp: LINEMASK_def bit_simps)
  moreover have "bit (push_bit (l mod 8) 1 :: byte) (l mod 8)" by (simp add: bit_simps)
  then have "push_bit (l mod 8) 1 \<noteq> (0 :: byte)" by (auto simp del: push_bit_of_1)
  ultimately show ?thesis by simp
qed

lemma LINE_ISSET_bit: "LINE_ISSET l p \<longleftrightarrow> 0 \<le> l \<and> l < 128 \<and> bit (p ! (nat l div 8)) (nat l mod 8)"
  by (auto simp: LINE_ISSET_def mask_bit in_set_range_def LINELT_def LINE_SETSIZE_def)

lemma LINEMASK_bit: "bit (LINEMASK l) k \<longleftrightarrow> k = l mod 8"
  by (auto simp: LINEMASK_def bit_simps)

lemma same_place: "(nat i div 8 = nat j div 8 \<and> nat i mod 8 = nat j mod 8) \<longleftrightarrow> nat i = nat j"
  by (metis div_mult_mod_eq)

lemma LINE_SET_member:
  assumes "line_ok p"
  shows "LINE_ISSET i (LINE_SET j p) \<longleftrightarrow> LINE_ISSET i p \<or> (i = j \<and> j \<in> {0..<128})"
proof (cases "0 \<le> j \<and> j < 128")
  case True
  then have "nat j div 8 < length p" using assms by (auto simp: line_ok_def LINE_SETSIZE_def)
  then show ?thesis using True same_place [of i j]
    by (cases "nat i div 8 = nat j div 8")
      (auto simp: LINE_ISSET_bit LINE_SET_def in_set_range_def LINE_SETSIZE_def LINELT_def bit_simps LINEMASK_bit)
qed (auto simp: LINE_SET_def in_set_range_def LINE_SETSIZE_def)

lemma LINE_CLR_member:
  assumes "line_ok p"
  shows "LINE_ISSET i (LINE_CLR j p) \<longleftrightarrow> LINE_ISSET i p \<and> i \<noteq> j"
proof (cases "0 \<le> j \<and> j < 128")
  case True
  then have "nat j div 8 < length p" using assms by (auto simp: line_ok_def LINE_SETSIZE_def)
  then show ?thesis using True same_place [of i j]
    by (cases "nat i div 8 = nat j div 8")
      (auto simp: LINE_ISSET_bit LINE_CLR_def in_set_range_def LINE_SETSIZE_def LINELT_def bit_simps LINEMASK_bit)
qed (auto simp: LINE_CLR_def LINE_ISSET_bit in_set_range_def LINE_SETSIZE_def)

lemma LINE_AND_member:
  assumes "line_ok p" and "line_ok q"
  shows "LINE_ISSET i (LINE_AND p q) \<longleftrightarrow> LINE_ISSET i p \<and> LINE_ISSET i q"
proof (cases "0 \<le> i \<and> i < 128")
  case True
  then have "nat i div 8 < length p" "nat i div 8 < length q"
    using assms by (auto simp: line_ok_def LINE_SETSIZE_def)
  then show ?thesis using True by (auto simp: LINE_ISSET_bit LINE_AND_def bit_simps)
qed (auto simp: LINE_ISSET_bit)

interpretation line_set: small_set LINE_ISSET LINE_SET LINE_CLR LINE_CLR_ALL LINE_AND "{0..<128}" line_ok
proof unfold_locales
  show "\<not> LINE_ISSET i LINE_CLR_ALL" for i
  proof (cases "0 \<le> i \<and> i < 128")
    case True
    then have "nat i div 8 < 16" by auto
    then show ?thesis by (simp add: LINE_ISSET_bit LINE_CLR_ALL_def LINE_SETSIZE_def)
  qed (auto simp: LINE_ISSET_bit)
qed (simp_all add: LINE_SET_member LINE_CLR_member LINE_AND_member,
  simp_all add: line_ok_def LINE_CLR_ALL_def LINE_SET_def)

section \<open>Parsing a list of lines\<close>

text \<open>
  A number at the front of the text: one digit or two. A third one is written, with a line feed and a
  terminator, into the four bytes of \<open>cad\<close>.
\<close>

definition is_sep :: "char \<Rightarrow> bool" where
  "is_sep c \<longleftrightarrow> c = CHR ''-'' \<or> c = CHR '',''"

fun number_at :: "string \<Rightarrow> (int \<times> string) res" where
  "number_at [] = Undef ''end of text''"
| "number_at [c] = Ok (int (digit_val c), [])"
| "number_at [c, c1] = (if is_sep c1 then Ok (int (digit_val c), [c1])
     else Ok (int (10 * digit_val c + digit_val c1), []))"
| "number_at (c # c1 # c2 # p) =
     (if is_sep c1 then Ok (int (digit_val c), c1 # c2 # p)
      else if is_sep c2 then Ok (int (10 * digit_val c + digit_val c1), c2 # p)
      else Undef ''cad overflow'')"

lemma number_at_length: "number_at p = Ok (n, q) \<Longrightarrow> length q < length p"
  by (induction p rule: number_at.induct) (auto split: if_splits)

text \<open>The array \<open>lineas\<close> holds 128 entries; \<open>l\<close> has no value before the first number.\<close>

definition add_lineas :: "int list \<Rightarrow> int list \<Rightarrow> int list res" where
  "add_lineas new acc = (if length acc + length new \<le> 128 then Ok (acc @ new) else Undef ''lineas overflow'')"

definition value_of :: "int option \<Rightarrow> int res" where
  "value_of l = (case l of None \<Rightarrow> Undef ''uninitialised'' | Some n \<Rightarrow> Ok n)"

text \<open>\<open>dash\<close>: the last separator was a dash. The result is nothing when the text is malformed.\<close>

function lines_loop :: "string \<Rightarrow> int option \<Rightarrow> bool \<Rightarrow> int list \<Rightarrow> int list option res" where
  "lines_loop [] l dash acc = Ok (Some acc)"
| "lines_loop (c # p) l dash acc =
     (if \<not> is_sep c then
        (case number_at (c # p) of
           Ok (n, q) \<Rightarrow>
             if q = [] then bind_r (add_lineas [n] acc) (\<lambda>acc'. Ok (Some acc'))
             else lines_loop q (Some n) dash acc
         | Throw e \<Rightarrow> Throw e | Undef u \<Rightarrow> Undef u)
      else if c = CHR ''-'' then
        (if p = [] \<or> is_sep (hd p) then Ok None
         else (case number_at p of
           Ok (n, q) \<Rightarrow>
             bind_r (value_of l) (\<lambda>a.
             bind_r (add_lineas [a..n] acc) (\<lambda>acc'. lines_loop q l True acc'))
         | Throw e \<Rightarrow> Throw e | Undef u \<Rightarrow> Undef u))
      else if dash then lines_loop p l False acc
      else bind_r (value_of l) (\<lambda>a. bind_r (add_lineas [a] acc) (\<lambda>acc'. lines_loop p l False acc')))"
  by pat_completeness auto
termination
proof (relation "measure (\<lambda>(p, _). length p)", goal_cases)
  case (2 c p l dash acc x n q)
  then show ?case using number_at_length [of "c # p" n q] by simp
next
  case (3 c p l dash acc x n q a acc')
  then show ?case using number_at_length [of p n q] by simp
qed auto

declare lines_loop.simps [simp del]

definition allowed_chars :: string where
  "allowed_chars = ''1234567890''"

definition pm_set_lines :: "string \<Rightarrow> line_t \<Rightarrow> (int \<times> line_t) res" where
  "pm_set_lines lines_string lines =
     (if \<exists>c \<in> set lines_string. \<not> (is_sep c \<or> c \<in> set allowed_chars) then Ok (-1, lines)
      else bind_r (lines_loop lines_string None False []) (\<lambda>r. case r of
          None \<Rightarrow> Ok (-1, lines)
        | Some lineas \<Rightarrow> Ok (0, fold LINE_SET lineas LINE_CLR_ALL)))"

section \<open>Well-formed lists\<close>

text \<open>Items, the text that denotes them, and the lines they stand for.\<close>

datatype line_item = One nat | Range nat nat

fun item_text :: "line_item \<Rightarrow> string" where
  "item_text (One n) = dec_digits n"
| "item_text (Range a b) = dec_digits a @ CHR ''-'' # dec_digits b"

fun item_lines :: "line_item \<Rightarrow> int list" where
  "item_lines (One n) = [int n]"
| "item_lines (Range a b) = [int a..int b]"

fun item_ok :: "line_item \<Rightarrow> bool" where
  "item_ok (One n) = (n < 100)"
| "item_ok (Range a b) = (a < 100 \<and> b < 100)"

definition lines_text :: "line_item list \<Rightarrow> string" where
  "lines_text items = join (CHR '','') (map item_text items)"

definition at_sep :: "string \<Rightarrow> bool" where
  "at_sep rest \<longleftrightarrow> rest = [] \<or> is_sep (hd rest)"

lemma digit_sep: "is_digit c \<Longrightarrow> \<not> is_sep c"
  by (auto simp: is_sep_def is_digit_def)

lemma digit_no_sep: "(k::nat) < 10 \<Longrightarrow> \<not> is_sep (char_of (48 + k))"
  by (rule digit_sep [OF is_digit_char])

lemma dec_digits_cases:
  assumes "n < 100"
  obtains c where "dec_digits n = [c]" "\<not> is_sep c" "digit_val c = n"
    | c e where "dec_digits n = [c, e]" "\<not> is_sep c" "\<not> is_sep e" "10 * digit_val c + digit_val e = n"
proof (cases "n < 10")
  case True
  then show ?thesis using that(1) [of "char_of (48 + n)"]
    by (simp add: dec_digits.simps [of n] digit_no_sep digit_val_char)
next
  case False
  have "n div 10 < 10" "n mod 10 < 10" using assms by auto
  then show ?thesis using that(2) [of "char_of (48 + n div 10)" "char_of (48 + n mod 10)"] False
    by (simp add: dec_digits.simps [of n] dec_digits.simps [of "n div 10"] digit_no_sep digit_val_char)
qed

lemma number_at_digits:
  assumes "n < 100" and "at_sep rest"
  shows "number_at (dec_digits n @ rest) = Ok (int n, rest)"
  using assms(1)
proof (cases rule: dec_digits_cases)
  case (1 c)
  then show ?thesis using assms(2) by (cases rest; cases "tl rest") (auto simp: at_sep_def)
next
  case (2 c e)
  then show ?thesis using assms(2) by (cases rest; cases "tl rest") (auto simp: at_sep_def)
qed

lemma digits_head: "n < 100 \<Longrightarrow> \<exists>c t. dec_digits n = c # t \<and> \<not> is_sep c"
  by (cases rule: dec_digits_cases [of n]) auto

lemma loop_number:
  assumes "n < 100" and "at_sep rest"
  shows "lines_loop (dec_digits n @ rest) l dash acc =
    (if rest = [] then bind_r (add_lineas [int n] acc) (\<lambda>acc'. Ok (Some acc')) else lines_loop rest (Some (int n)) dash acc)"
proof -
  obtain c t where c: "dec_digits n = c # t" "\<not> is_sep c" using digits_head [OF assms(1)] by blast
  show ?thesis
    using number_at_digits [OF assms] c by (simp add: lines_loop.simps(2) [of c "t @ rest"])
qed

lemma loop_dash:
  assumes "b < 100" and "at_sep rest" and "length acc + length [a..int b] \<le> 128"
  shows "lines_loop (CHR ''-'' # dec_digits b @ rest) (Some a) dash acc = lines_loop rest (Some a) True (acc @ [a..int b])"
proof -
  obtain c t where c: "dec_digits b = c # t" "\<not> is_sep c" using digits_head [OF assms(1)] by blast
  then show ?thesis
    using number_at_digits [OF assms(1,2)] assms(3)
    by (simp add: lines_loop.simps(2) [of "CHR ''-''"] is_sep_def value_of_def add_lineas_def)
qed

lemma loop_item:
  assumes "item_ok it" and "length acc + length (item_lines it) \<le> 128"
  shows "lines_loop (item_text it) l False acc = Ok (Some (acc @ item_lines it))"
    and "\<exists>l'. lines_loop (item_text it @ CHR '','' # rest) l False acc = lines_loop rest l' False (acc @ item_lines it)"
proof -
  have s: "at_sep []" "at_sep (CHR '','' # rest)" "at_sep (CHR ''-'' # r)" for r by (simp_all add: at_sep_def is_sep_def)
  show "lines_loop (item_text it) l False acc = Ok (Some (acc @ item_lines it))"
  proof (cases it)
    case (One n)
    then show ?thesis using loop_number [of n "[]" l False acc] s assms by (simp add: add_lineas_def)
  next
    case (Range a b)
    then show ?thesis
      using loop_number [OF _ s(3), of a "dec_digits b" l False acc] loop_dash [OF _ s(1), of b acc "int a" False] assms
      by (simp add: lines_loop.simps(1))
  qed
  show "\<exists>l'. lines_loop (item_text it @ CHR '','' # rest) l False acc = lines_loop rest l' False (acc @ item_lines it)"
  proof (cases it)
    case (One n)
    then show ?thesis using loop_number [of n "CHR '','' # rest" l False acc] s assms
      by (auto simp: add_lineas_def lines_loop.simps(2) [of "CHR '',''"] is_sep_def value_of_def)
  next
    case (Range a b)
    then show ?thesis
      using loop_number [OF _ s(3), of a "dec_digits b @ CHR '','' # rest" l False acc]
        loop_dash [OF _ s(2), of b acc "int a" False] assms
      by (auto simp: lines_loop.simps(2) [of "CHR '',''"] is_sep_def)
  qed
qed

lemma loop_items:
  assumes "items \<noteq> []" and "list_all item_ok items" and "length acc + length (concat (map item_lines items)) \<le> 128"
  shows "lines_loop (lines_text items) l False acc = Ok (Some (acc @ concat (map item_lines items)))"
  using assms
proof (induction items arbitrary: l acc)
  case (Cons it items)
  show ?case
  proof (cases items)
    case Nil
    then show ?thesis using Cons.prems loop_item(1) [of it acc l] by (simp add: lines_text_def)
  next
    case (Cons it2 items2)
    obtain l' where l': "lines_loop (item_text it @ CHR '','' # lines_text items) l False acc =
        lines_loop (lines_text items) l' False (acc @ item_lines it)"
      using loop_item(2) [of it acc "lines_text items" l] Cons.prems by auto
    show ?thesis using l' Cons.IH [of "acc @ item_lines it" l'] Cons.prems Cons by (simp add: lines_text_def)
  qed
qed simp

lemma codes_allowed: "\<forall>n \<in> set [48..<58]. char_of n \<in> set allowed_chars"
  by code_simp

lemma digits_allowed: "is_digit c \<Longrightarrow> c \<in> set allowed_chars"
proof -
  assume "is_digit c"
  then have "48 \<le> (of_char c :: nat)" "(of_char c :: nat) < 58" by (simp_all add: is_digit_def)
  then have "of_char c \<in> set [48..<58]" unfolding set_upt atLeastLessThan_iff by blast
  then have "char_of (of_char c :: nat) \<in> set allowed_chars" using codes_allowed by blast
  then show ?thesis by simp
qed

lemma join_chars: "set (join sep fs) \<subseteq> insert sep (\<Union> (set ` set fs))"
  by (induction sep fs rule: join.induct) auto

lemma text_allowed: "\<forall>c \<in> set (lines_text items). is_sep c \<or> c \<in> set allowed_chars"
proof
  fix c assume "c \<in> set (lines_text items)"
  then consider "c = CHR '',''" | it where "c \<in> set (item_text it)"
    using join_chars [of "CHR '',''" "map item_text items"] by (auto simp: lines_text_def)
  then show "is_sep c \<or> c \<in> set allowed_chars"
  proof cases
    case 1
    then show ?thesis by (simp add: is_sep_def)
  next
    case (2 it)
    then have "is_digit c \<or> c = CHR ''-''" using dec_digits_are_digits by (cases it) auto
    then show ?thesis using digits_allowed by (auto simp: is_sep_def)
  qed
qed

text \<open>The mask of a list of lines.\<close>

definition items_mask :: "line_item list \<Rightarrow> line_t" where
  "items_mask items = fold LINE_SET (concat (map item_lines items)) LINE_CLR_ALL"

lemma set_lines_items:
  assumes "items \<noteq> []" and "list_all item_ok items" and "length (concat (map item_lines items)) \<le> 128"
  shows "pm_set_lines (lines_text items) m0 = Ok (0, items_mask items)"
  using loop_items [OF assms(1,2), of "[]" None] assms(3) text_allowed [of items] by (auto simp: pm_set_lines_def items_mask_def)

lemma items_mask_ok: "line_ok (items_mask items)"
  using line_set.fold_add [OF line_set.ok_empty, of "concat (map item_lines items)"] by (simp add: items_mask_def)

lemma items_mask_member:
  assumes "list_all item_ok items"
  shows "LINE_ISSET i (items_mask items) \<longleftrightarrow> (\<exists>it \<in> set items. i \<in> set (item_lines it))"
proof -
  have r: "i \<in> {0..<128}" if "it \<in> set items" "i \<in> set (item_lines it)" for it
  proof -
    have "item_ok it" using assms that(1) by (simp add: list_all_iff)
    then show ?thesis using that(2) by (cases it) auto
  qed
  show ?thesis using r by (auto simp: items_mask_def line_set.member_of_list)
qed

text \<open>
  C16: A list of lines and ranges, numbers below 100 and at most 128 lines in all, is parsed to the mask of
  exactly these lines, whatever the mask held before.
\<close>

theorem set_lines_of_text:
  assumes "items \<noteq> []" and "list_all item_ok items" and "length (concat (map item_lines items)) \<le> 128"
  shows "\<exists>m. pm_set_lines (lines_text items) m0 = Ok (0, m) \<and> length m = 16 \<and>
    (\<forall>i. LINE_ISSET i m \<longleftrightarrow> (\<exists>it \<in> set items. i \<in> set (item_lines it)))"
  using set_lines_items [OF assms] items_mask_ok [of items] items_mask_member [OF assms(2)]
  by (auto simp: line_ok_def LINE_SETSIZE_def)

text \<open>An instance: \<open>0-2,5\<close>.\<close>

theorem set_lines_of_text_witness:
  "\<exists>m. pm_set_lines ''0-2,5'' (replicate 16 7) = Ok (0, m) \<and> (LINE_ISSET 5 m \<and> LINE_ISSET 1 m \<and> \<not> LINE_ISSET 4 m)"
proof -
  have t: "lines_text [Range 0 2, One 5] = ''0-2,5''" by code_simp
  show ?thesis using set_lines_of_text [of "[Range 0 2, One 5]" "replicate 16 7", unfolded t]
    by (auto simp: upto_rec1)
qed

end
