(* ===== verification/Client.thy ===== *)
theory Client
  imports Client_Lines
begin

text \<open>
  The C client of the protocol (\<open>client/pmlib.h\<close> and the \<open>client/pm_*.c\<close> files that talk to the server):
  connecting, creating a counter, starting, stopping, continuing and finishing it, fetching its samples,
  and asking for devices.

  A stream socket delivers the peer's bytes in segments: a plain \<open>recv\<close> returns at most what one segment
  has left, and nothing at the end of the stream; with \<open>MSG_WAITALL\<close> it goes on across segments. After an
  error the client prints it and calls \<open>exit(1)\<close>, which nothing catches: here an exception with the
  text. Memory is never short.
\<close>

section \<open>The socket\<close>

record csock =
  cs_segments :: "byte list list"
  cs_sent :: "byte list"
  cs_room :: "nat option"

fun recv_some :: "nat \<Rightarrow> byte list list \<Rightarrow> byte list \<times> byte list list" where
  "recv_some n [] = ([], [])"
| "recv_some n (seg # segs) = (if seg = [] then recv_some n segs else (take n seg, drop n seg # segs))"

fun recv_all :: "nat \<Rightarrow> byte list list \<Rightarrow> byte list \<times> byte list list" where
  "recv_all n [] = ([], [])"
| "recv_all n (seg # segs) =
     (if n \<le> length seg then (take n seg, drop n seg # segs)
      else (case recv_all (n - length seg) segs of (bs, rest) \<Rightarrow> (seg @ bs, rest)))"

definition c_recv :: "nat \<Rightarrow> (csock, byte list) prog" where
  "c_recv n = (\<lambda>s. case recv_some n (cs_segments s) of (bs, rest) \<Rightarrow> (Ok bs, s\<lparr>cs_segments := rest\<rparr>))"

definition c_recv_waitall :: "nat \<Rightarrow> (csock, byte list) prog" where
  "c_recv_waitall n = (\<lambda>s. case recv_all n (cs_segments s) of (bs, rest) \<Rightarrow> (Ok bs, s\<lparr>cs_segments := rest\<rparr>))"

definition c_send :: "byte list \<Rightarrow> (csock, int) prog" where
  "c_send bs = (\<lambda>s. case cs_room s of
     None \<Rightarrow> (Ok (int (length bs)), s\<lparr>cs_sent := cs_sent s @ bs\<rparr>)
   | Some k \<Rightarrow>
       if k = 0 then (Ok (-1), s)
       else (Ok (int (min k (length bs))), s\<lparr>cs_sent := cs_sent s @ take k bs, cs_room := Some (k - length bs)\<rparr>))"

text \<open>Receiving an exact number of bytes, and an \<open>int\<close>, with the message of the failure.\<close>

definition recv_exact :: "nat \<Rightarrow> string \<Rightarrow> (csock, byte list) prog" where
  "recv_exact n msg = bind_p (c_recv n) (\<lambda>bs. if length bs \<noteq> n then throw_p (Runtime_error msg) else ret_p bs)"

definition recv_int :: "string \<Rightarrow> (csock, int) prog" where
  "recv_int msg = bind_p (recv_exact 4 msg) (\<lambda>bs. ret_p (bytes_int bs))"

definition recv_natural :: "string \<Rightarrow> string \<Rightarrow> (csock, int) prog" where
  "recv_natural msg neg_msg = bind_p (recv_int msg) (\<lambda>i. if i < 0 then throw_p (Runtime_error neg_msg) else ret_p i)"

definition send_msg :: "string \<Rightarrow> byte list \<Rightarrow> (csock, unit) prog" where
  "send_msg msg bs = bind_p (c_send bs) (\<lambda>n. if n \<noteq> int (length bs) then throw_p (Runtime_error msg) else ret_p ())"

text \<open>Messages are built in a buffer of 1024 bytes.\<close>

definition BUFFSIZE :: nat where "BUFFSIZE = 1024"

definition build_msg :: "byte list \<Rightarrow> (csock, byte list) prog" where
  "build_msg bs = (if length bs \<le> BUFFSIZE then ret_p bs else undef_p ''buffer overflow'')"

section \<open>Data\<close>

definition SERVER_IP_LEN :: nat where "SERVER_IP_LEN = 16"

record server_t =
  server_ip :: string
  server_port :: int

text \<open>A copied address ends at the fifteenth character.\<close>

definition pm_set_server :: "string \<Rightarrow> int \<Rightarrow> server_t" where
  "pm_set_server ip port = \<lparr>server_ip = take (SERVER_IP_LEN - 1) ip, server_port = port\<rparr>"

record device_t =
  dt_name :: string
  dt_max_frecuency :: int
  dt_n_lines :: int

text \<open>Unset pointers are empty lists; entries of \<open>timing\<close> that were never written have no value.\<close>

record pm_measures =
  watts_size :: int
  watts_sets_size :: int
  watts_sets :: "int list"
  watts :: "double list"
  lines_len :: int

record pm_measures_wt =
  next_timing :: int
  timing :: "double option list"
  energy :: pm_measures

record counter_t =
  cc_aggregate :: int
  cc_lines :: line_t
  cc_num_lines :: int
  cc_interval :: int
  cc_measures :: pm_measures_wt

definition TIMELEN :: nat where "TIMELEN = 10000"

definition no_measures :: pm_measures_wt where
  "no_measures = \<lparr>next_timing = 0, timing = replicate TIMELEN None,
     energy = \<lparr>watts_size = 0, watts_sets_size = 0, watts_sets = [], watts = [], lines_len = 0\<rparr>\<rparr>"

text \<open>A connected counter: its socket and its data.\<close>

record client =
  cl_sock :: csock
  cl_counter :: counter_t

definition via_sock :: "(csock, 'a) prog \<Rightarrow> (client, 'a) prog" where
  "via_sock m = (\<lambda>c. case m (cl_sock c) of (r, s) \<Rightarrow> (r, c\<lparr>cl_sock := s\<rparr>))"

definition upd_measures :: "(pm_measures_wt \<Rightarrow> pm_measures_wt res) \<Rightarrow> (client, unit) prog" where
  "upd_measures f = (\<lambda>c. case f (cc_measures (cl_counter c)) of
     Ok m \<Rightarrow> (Ok (), c\<lparr>cl_counter := (cl_counter c)\<lparr>cc_measures := m\<rparr>\<rparr>)
   | Throw e \<Rightarrow> (Throw e, c)
   | Undef u \<Rightarrow> (Undef u, c))"

section \<open>Requests of a counter\<close>

text \<open>\<open>gettimeofday\<close>: seconds and microseconds, as a \<open>double\<close>.\<close>

definition time_of :: "int \<times> int \<Rightarrow> double" where
  "time_of tv = d_add (d_of_int (fst tv)) (d_mul (d_of_ratio 1 1000000) (d_of_int (snd tv)))"

definition set_timing :: "int \<Rightarrow> double \<Rightarrow> pm_measures_wt \<Rightarrow> pm_measures_wt res" where
  "set_timing i t m = (if 0 \<le> i \<and> i < int (length (timing m)) then Ok (m\<lparr>timing := (timing m)[nat i := Some t]\<rparr>)
     else Undef ''timing overflow'')"

text \<open>One opcode, answered by a code that is negative on failure.\<close>

definition simple_request :: "operation \<Rightarrow> string \<Rightarrow> string \<Rightarrow> string \<Rightarrow> (csock, int) prog" where
  "simple_request op sent_msg recv_msg neg_msg =
     then_p (send_msg sent_msg (int_bytes (op_code op))) (recv_natural recv_msg neg_msg)"

definition pm_start_counter :: "int \<times> int \<Rightarrow> (client, int) prog" where
  "pm_start_counter now =
     bind_p (via_sock (simple_request START ''Mismatch in number of sent bytes in start counter''
       ''Failed to receive bytes from server in start counter'' ''PM sever unable start counter'')) (\<lambda>r.
     then_p (upd_measures (\<lambda>m. set_timing 0 (time_of now) (m\<lparr>next_timing := 0\<rparr>)))
     (ret_p r))"

definition pm_stop_counter :: "int \<times> int \<Rightarrow> (client, int) prog" where
  "pm_stop_counter now =
     then_p (upd_measures (\<lambda>m. bind_r (set_timing (next_timing m * 2 + 1) (time_of now) m) (\<lambda>m'.
       Ok (m'\<lparr>next_timing := next_timing m' + 1\<rparr>))))
     (via_sock (simple_request STOP ''Mismatch in number of sent bytes in stop counter''
       ''Failed to receive bytes from server in stop counter'' ''PM sever unable stop counter''))"

definition pm_continue_counter :: "int \<times> int \<Rightarrow> (client, int) prog" where
  "pm_continue_counter now =
     bind_p (via_sock (simple_request CONTINUE ''Mismatch in number of sent bytes in restart counter''
       ''Failed to receive bytes from server in restart counter'' ''PM sever unable to restart counter'')) (\<lambda>r.
     then_p (upd_measures (\<lambda>m. set_timing (next_timing m * 2) (time_of now) m))
     (ret_p r))"

text \<open>The arrays are freed; the structure that holds them is not.\<close>

definition pm_finalize_counter :: "bool \<Rightarrow> (client, int) prog" where
  "pm_finalize_counter close_ok =
     then_p (via_sock (simple_request FINALIZE ''Mismatch in number of sent bytes in destroy counter''
       ''Failed to receive bytes from server destroy counter'' ''PM sever unable destroy counter''))
     (if \<not> close_ok then throw_p (Runtime_error ''PM client unable destroy counter'')
      else then_p (upd_measures (\<lambda>m. Ok (m\<lparr>timing := [], energy := (energy m)\<lparr>watts_sets := [], watts := []\<rparr>\<rparr>)))
        (ret_p 0))"

section \<open>Fetching the samples\<close>

text \<open>\<open>memcpy\<close> of consecutive elements.\<close>

definition elements :: "nat \<Rightarrow> nat \<Rightarrow> (byte list \<Rightarrow> 'a) \<Rightarrow> byte list \<Rightarrow> 'a list" where
  "elements n w rd bs = map (\<lambda>i. rd (take w (drop (w * i) bs))) [0..<n]"

definition bytes_double :: "byte list \<Rightarrow> double" where
  "bytes_double bs = of_nat (le_val bs)"

text \<open>
  The sizes in bytes are computed as \<open>int\<close>. Announced sizes that are negative or do not fit are not modelled
  further: allocation, reading and copying no longer agree on them.
\<close>

definition reply_sizes :: "int \<Rightarrow> int \<Rightarrow> (nat \<times> nat) res" where
  "reply_sizes n_watts n_sets =
     (if 0 \<le> n_watts \<and> 0 \<le> n_sets \<and> is_i32 (n_sets * 4 + n_watts * 8) then Ok (nat n_sets, nat n_watts)
      else Undef ''size of the reply'')"

definition receive_measures :: "(csock, pm_measures) prog" where
  "receive_measures =
     bind_p (recv_natural ''Failed to receive bytes from server in get counter''
       ''Failed to receive watts_size from server in get counter'') (\<lambda>n_watts.
     bind_p (recv_int ''Failed to receive watts_sets_size from server in get counter'') (\<lambda>n_sets.
     bind_p (recv_int ''Failed to receive watts_sets_size from server in get counter'') (\<lambda>n_lines.
     bind_p (lift_p (reply_sizes n_watts n_sets)) (\<lambda>(ns, nw).
     bind_p (c_recv_waitall (ns * 4 + nw * 8)) (\<lambda>bs.
       if length bs \<noteq> ns * 4 + nw * 8
       then throw_p (Runtime_error ''Failed to receive the rest of the message from server in get counter'')
       else ret_p \<lparr>watts_size = n_watts, watts_sets_size = n_sets, watts_sets = elements ns 4 bytes_int bs,
              watts = elements nw 8 bytes_double (drop (ns * 4) bs), lines_len = n_lines\<rparr>)))))"

definition pm_get_counter_data :: "(client, int) prog" where
  "pm_get_counter_data =
     bind_p (via_sock (then_p (send_msg ''Mismatch in number of sent bytes in get counter'' (int_bytes (op_code GET)))
       receive_measures)) (\<lambda>e.
     then_p (upd_measures (\<lambda>m. Ok (m\<lparr>energy := e\<rparr>)))
     (ret_p 1))"

section \<open>Devices\<close>

definition receive_name :: "string \<Rightarrow> nat \<Rightarrow> (csock, string) prog" where
  "receive_name msg n = bind_p (c_recv n) (\<lambda>bs.
     if BUFFSIZE < length bs then undef_p ''buffer overflow''
     else if length bs \<noteq> n then throw_p (Runtime_error msg)
     else ret_p (string_of_bytes bs))"

definition pm_get_device_info :: "string \<Rightarrow> (csock, device_t) prog" where
  "pm_get_device_info pm_id =
     bind_p (build_msg (int_bytes (op_code INFO_DEVICE) @ string_bytes pm_id)) (\<lambda>msg.
     then_p (send_msg ''Mismatch in number of sent bytes in create counter'' msg)
     (bind_p (recv_natural ''Failed to receive bytes from server in get counter''
        ''Failed to receive max frecuency from server in get device info'') (\<lambda>freq.
      bind_p (recv_natural ''Failed to receive bytes from server in get device info''
        ''Failed to receive n_lines from server in get device info'') (\<lambda>n_lines.
      bind_p (recv_natural ''Failed to receive bytes form server in get device info''
        ''Failed to receive size of name from server in get device info'') (\<lambda>name_size.
      bind_p (receive_name ''Failed to receive bytes form server in get device info'' (nat name_size)) (\<lambda>name.
      ret_p \<lparr>dt_name = name, dt_max_frecuency = freq, dt_n_lines = n_lines\<rparr>))))))"

text \<open>A negative length of a name is converted to \<open>size_t\<close> and written past the buffer.\<close>

fun receive_devices :: "nat \<Rightarrow> (csock, string list) prog" where
  "receive_devices 0 = ret_p []"
| "receive_devices (Suc n) =
     bind_p (recv_int ''Failed to receive bytes form server in get devices'') (\<lambda>disp_size.
     if disp_size < 0 then undef_p ''buffer overflow''
     else bind_p (receive_name ''Failed to receive bytes form server in get devices'' (nat disp_size)) (\<lambda>name.
       bind_p (receive_devices n) (\<lambda>names. ret_p (name # names))))"

definition pm_get_devices :: "(csock, string list) prog" where
  "pm_get_devices =
     then_p (send_msg ''Mismatch in number of sent bytes in get devices'' (int_bytes (op_code LIST_DEVICES)))
     (bind_p (recv_natural ''Failed to receive bytes form server in get devices''
        ''PM server unable to get information of devices'') (\<lambda>n.
      receive_devices (nat n)))"

section \<open>Creating a counter\<close>

text \<open>
  \<open>connect k\<close> is the socket of the \<open>k\<close>th connection of the call: one for the counter, one for the question
  about the device. Nothing when connecting fails.
\<close>

definition open_connection :: "csock option \<Rightarrow> csock res" where
  "open_connection c = (case c of None \<Rightarrow> Throw (Runtime_error ''Failed to connect with server'') | Some s \<Rightarrow> Ok s)"

definition creation_msg :: "string \<Rightarrow> line_t \<Rightarrow> int \<Rightarrow> int \<Rightarrow> byte list" where
  "creation_msg pm_id lines aggregate interval =
     int_bytes (op_code CREATE) @ string_bytes pm_id @ int_bytes interval @ int_bytes aggregate @
     int_bytes (int LINE_SETSIZE) @ lines"

definition request_counter :: "string \<Rightarrow> line_t \<Rightarrow> int \<Rightarrow> int \<Rightarrow> (csock, int) prog" where
  "request_counter pm_id lines aggregate interval =
     bind_p (build_msg (creation_msg pm_id lines aggregate interval)) (\<lambda>msg.
     then_p (send_msg ''Mismatch in number of sent bytes in create counter'' msg)
     (recv_natural ''Failed to receive bytes from server in create counter'' ''PM sever unable to assign a new counter''))"

definition pm_create_counter ::
  "(nat \<Rightarrow> csock option) \<Rightarrow> string \<Rightarrow> line_t \<Rightarrow> int \<Rightarrow> int \<Rightarrow> client res" where
  "pm_create_counter connect pm_id lines aggregate interval =
     bind_r (open_connection (connect 0)) (\<lambda>s.
     case request_counter pm_id lines aggregate interval s of
       (Throw e, _) \<Rightarrow> Throw e | (Undef u, _) \<Rightarrow> Undef u
     | (Ok _, s1) \<Rightarrow>
         bind_r (open_connection (connect 1)) (\<lambda>s2.
         bind_r (fst (pm_get_device_info pm_id s2)) (\<lambda>device.
         Ok \<lparr>cl_sock = s1, cl_counter = \<lparr>cc_aggregate = aggregate, cc_lines = lines,
             cc_num_lines = dt_n_lines device, cc_interval = interval, cc_measures = no_measures\<rparr>\<rparr>)))"

text \<open>\<open>pm_get_counter_num_sets\<close> has an empty body: it returns no value and leaves \<open>num_sets\<close> alone.\<close>

definition pm_get_counter_num_sets :: "counter_t \<Rightarrow> int \<Rightarrow> int" where
  "pm_get_counter_num_sets pm_counter num_sets = num_sets"

end
