(* ===== verification/Client_Server.thy ===== *)
theory Client_Server
  imports Client Demo
begin

text \<open>
  The client's calls against the server's code: the bytes a call sends are the request the server expects,
  and the bytes the server writes are what the call reads.

  TCP may deliver several writes together. The client takes a short \<open>recv\<close> for a failure, so it relies on no
  write being split: the segments it sees are the server's writes, some of them joined.
\<close>

section \<open>Delivery\<close>

inductive delivers :: "byte list list \<Rightarrow> byte list list \<Rightarrow> bool" where
  none: "delivers [] []"
| alone: "delivers ws segs \<Longrightarrow> delivers (w # ws) (w # segs)"
| joined: "delivers ws (seg # segs) \<Longrightarrow> delivers (w # ws) ((w @ seg) # segs)"
| gap: "delivers ws segs \<Longrightarrow> delivers ws ([] # segs)"

lemma delivers_concat: "delivers ws segs \<Longrightarrow> concat segs = concat ws"
  by (induction rule: delivers.induct) simp_all

lemma delivers_writes: "delivers ws ws"
  by (induction ws) (auto intro: delivers.intros)

lemma delivers_together: "delivers ws [concat ws]"
proof (induction ws)
  case Nil
  then show ?case using delivers.gap [OF delivers.none] by simp
next
  case (Cons w ws)
  then show ?case using delivers.joined by simp
qed

text \<open>A plain \<open>recv\<close> of the length of the next write gets exactly that write.\<close>

lemma recv_write:
  assumes "delivers (w # ws) segs" and "w \<noteq> []"
  shows "\<exists>segs'. recv_some (length w) segs = (w, segs') \<and> delivers ws segs'"
  using assms
proof (induction "w # ws" segs rule: delivers.induct)
  case (alone segs)
  then show ?case by (auto intro: delivers.gap)
qed auto

text \<open>With \<open>MSG_WAITALL\<close>, several writes at once.\<close>

lemma recv_all_writes:
  assumes "delivers (ws1 @ ws2) segs" and "[] \<notin> set ws1"
  shows "\<exists>segs'. recv_all (length (concat ws1)) segs = (concat ws1, segs') \<and> delivers ws2 segs'"
  using assms
proof (induction "ws1 @ ws2" segs arbitrary: ws1 rule: delivers.induct)
  case none
  then show ?case by (simp add: delivers.none)
next
  case (alone ws segs w)
  show ?case
  proof (cases ws1)
    case Nil
    then show ?thesis using alone delivers.alone by auto
  next
    case (Cons v ws1')
    then obtain segs' where "recv_all (length (concat ws1')) segs = (concat ws1', segs')" "delivers ws2 segs'"
      using alone by auto
    moreover have "ws1' = []" if "concat ws1' = []" using that alone.prems Cons by (cases ws1') auto
    ultimately show ?thesis using alone.hyps Cons by (cases "concat ws1' = []") (auto intro: delivers.gap)
  qed
next
  case (joined ws seg segs w)
  show ?case
  proof (cases ws1)
    case Nil
    then show ?thesis using joined delivers.joined by auto
  next
    case (Cons v ws1')
    then obtain segs' where "recv_all (length (concat ws1')) (seg # segs) = (concat ws1', segs')" "delivers ws2 segs'"
      using joined by auto
    then show ?thesis using joined.hyps Cons by (auto split: if_splits prod.splits)
  qed
next
  case (gap segs)
  show ?case
  proof (cases "concat ws1 = []")
    case True
    then have "ws1 = []" using gap.prems by (cases ws1) auto
    then show ?thesis using gap delivers.gap by auto
  next
    case False
    then show ?thesis using gap by (auto split: prod.splits)
  qed
qed

section \<open>Running the client on delivered writes\<close>

text \<open>\<open>gets ws m x\<close>: on any delivery of the writes \<open>ws\<close> (followed by others), \<open>m\<close> returns \<open>x\<close> having consumed them.\<close>

definition gets :: "byte list list \<Rightarrow> (csock, 'a) prog \<Rightarrow> 'a \<Rightarrow> bool" where
  "gets ws m x \<longleftrightarrow> (\<forall>s rest. delivers (ws @ rest) (cs_segments s) \<longrightarrow>
     (\<exists>segs'. m s = (Ok x, s\<lparr>cs_segments := segs'\<rparr>) \<and> delivers rest segs'))"

lemma getsD:
  assumes "gets ws m x" and "delivers (ws @ rest) (cs_segments s)"
  obtains segs' where "m s = (Ok x, s\<lparr>cs_segments := segs'\<rparr>)" and "delivers rest segs'"
  using assms unfolding gets_def by blast

lemma gets_ret: "gets [] (ret_p x) x"
  unfolding gets_def
proof (intro allI impI)
  fix s :: csock and rest assume "delivers ([] @ rest) (cs_segments s)"
  then show "\<exists>segs'. ret_p x s = (Ok x, s\<lparr>cs_segments := segs'\<rparr>) \<and> delivers rest segs'"
    by (intro exI [of _ "cs_segments s"]) simp
qed

lemma gets_bind:
  assumes "gets ws1 m x" and "gets ws2 (f x) y"
  shows "gets (ws1 @ ws2) (bind_p m f) y"
  unfolding gets_def
proof (intro allI impI)
  fix s :: csock and rest assume d: "delivers ((ws1 @ ws2) @ rest) (cs_segments s)"
  obtain s1 where s1: "m s = (Ok x, s\<lparr>cs_segments := s1\<rparr>)" "delivers (ws2 @ rest) s1"
    using getsD [OF assms(1), of "ws2 @ rest" s] d by auto
  obtain s2 where s2: "f x (s\<lparr>cs_segments := s1\<rparr>) = (Ok y, s\<lparr>cs_segments := s1\<rparr>\<lparr>cs_segments := s2\<rparr>)" "delivers rest s2"
    using getsD [OF assms(2), of rest "s\<lparr>cs_segments := s1\<rparr>"] s1(2) by auto
  then show "\<exists>segs'. bind_p m f s = (Ok y, s\<lparr>cs_segments := segs'\<rparr>) \<and> delivers rest segs'"
    using s1(1) by (auto simp: bind_p_def)
qed

lemma gets_Cons: "gets [w] m x \<Longrightarrow> gets ws (f x) y \<Longrightarrow> gets (w # ws) (bind_p m f) y"
  using gets_bind [of "[w]" m x ws f y] by simp

lemma gets_map:
  assumes "gets ws m x"
  shows "gets ws (bind_p m (\<lambda>v. ret_p (g v))) (g x)"
proof -
  have "gets (ws @ []) (bind_p m (\<lambda>v. ret_p (g v))) (g x)" by (rule gets_bind [OF assms gets_ret])
  then show ?thesis by (simp only: append_Nil2)
qed

text \<open>A check that passes.\<close>

lemma gets_check:
  assumes "gets ws m x" and "f x = ret_p y"
  shows "gets ws (bind_p m f) y"
proof -
  have "gets (ws @ []) (bind_p m f) y" by (rule gets_bind [OF assms(1)]) (simp only: assms(2) gets_ret)
  then show ?thesis by (simp only: append_Nil2)
qed

lemma gets_recv: "w \<noteq> [] \<Longrightarrow> n = length w \<Longrightarrow> gets [w] (c_recv n) w"
  unfolding gets_def c_recv_def using recv_write by fastforce

lemma gets_exact: "w \<noteq> [] \<Longrightarrow> n = length w \<Longrightarrow> gets [w] (recv_exact n msg) w"
  unfolding recv_exact_def by (rule gets_check [OF gets_recv]) simp_all

lemma int_bytes_nonempty [simp]: "int_bytes x \<noteq> []"
  using length_int_bytes [of x] by (metis list.size(3) zero_neq_numeral)

lemma gets_int: "is_i32 x \<Longrightarrow> gets [int_bytes x] (recv_int msg) x"
  unfolding recv_int_def by (rule gets_check [OF gets_exact]) (simp_all add: bytes_int_int_bytes)

lemma gets_natural: "is_i32 x \<Longrightarrow> 0 \<le> x \<Longrightarrow> gets [int_bytes x] (recv_natural msg neg) x"
  unfolding recv_natural_def by (rule gets_check [OF gets_int]) simp_all

lemma bytes_of_string_Nil [simp]: "bytes_of_string str = [] \<longleftrightarrow> str = []"
  by (simp add: bytes_of_string_def)

lemma gets_name:
  assumes "str \<noteq> []" and "length str \<le> BUFFSIZE"
  shows "gets [bytes_of_string str] (receive_name msg (length str)) str"
  unfolding receive_name_def
  by (rule gets_check [OF gets_recv]) (use assms in simp_all)

section \<open>The replies of the server\<close>

text \<open>The writes of \<open>Counter::get\<close> (an empty vector writes nothing), and of a string.\<close>

definition get_writes :: "int \<Rightarrow> int list \<Rightarrow> double list \<Rightarrow> byte list list" where
  "get_writes n_lines ns ws = [int_bytes (int (length ws)), int_bytes (int (length ns)), int_bytes n_lines,
     concat (map int_bytes ns)] @ (if ws = [] then [] else [concat (map double_bytes ws)])"

definition string_writes :: "string \<Rightarrow> byte list list" where
  "string_writes str = [int_bytes (int (length str)), bytes_of_string str]"

lemma concat_string_writes: "valid_string str \<Longrightarrow> concat (string_writes str) = string_bytes str"
  by (simp add: string_writes_def string_bytes_def)

lemma gets_string:
  assumes "str \<noteq> []" and "length str \<le> BUFFSIZE"
  shows "gets (string_writes str) (bind_p (recv_natural msg neg) (\<lambda>n. receive_name msg2 (nat n))) str"
  unfolding string_writes_def
  by (rule gets_Cons [OF gets_natural]) (use assms gets_name [of str] in \<open>simp_all add: is_i32_def BUFFSIZE_def\<close>)

text \<open>Elements of a fixed width are read back from their concatenation.\<close>

lemma elements_concat:
  assumes "\<And>x. x \<in> set xs \<Longrightarrow> length (enc x) = w \<and> rd (enc x) = x"
  shows "elements (length xs) w rd (concat (map enc xs) @ rest) = xs"
  using assms
proof (induction xs)
  case (Cons x xs)
  have l: "length (enc x) = w" "rd (enc x) = x" using Cons.prems by simp_all
  have "elements (length (x # xs)) w rd (concat (map enc (x # xs)) @ rest) =
      rd (enc x) # elements (length xs) w rd (concat (map enc xs) @ rest)"
    using l(1) by (simp add: elements_def upt_conv_Cons map_Suc_upt [symmetric] comp_def del: upt_Suc)
  then show ?case using Cons l by simp
qed (simp add: elements_def)

lemma bytes_double_bytes: "length (double_bytes x) = 8 \<and> bytes_double (double_bytes x) = x"
proof -
  have "unat x < 256 ^ 8" using unsigned_less [of x] by simp
  then show ?thesis by (simp add: bytes_double_def double_bytes_def le_val_le_bytes)
qed

lemma length_doubles: "length (concat (map double_bytes ws)) = 8 * length ws"
  by (induction ws) (simp_all add: bytes_double_bytes)

lemma length_ints: "length (concat (map int_bytes ns)) = 4 * length ns"
  by (induction ns) simp_all

lemma gets_waitall:
  "[] \<notin> set ws \<Longrightarrow> n = length (concat ws) \<Longrightarrow> gets ws (c_recv_waitall n) (concat ws)"
  unfolding gets_def c_recv_waitall_def using recv_all_writes by fastforce

text \<open>The client reads exactly what the server sent.\<close>

lemma double_bytes_nonempty [simp]: "double_bytes x \<noteq> []"
  using bytes_double_bytes [of x] by auto

lemma lift_p_Ok: "bind_p (lift_p (Ok x)) f = f x"
  by (rule ext) (simp add: bind_p_def lift_p_def)

lemma read_measures:
  assumes "\<forall>n \<in> set ns. is_i32 n"
  shows "elements (length ns) 4 bytes_int (concat (map int_bytes ns) @ concat (map double_bytes ws)) = ns"
    and "elements (length ws) 8 bytes_double
      (drop (length ns * 4) (concat (map int_bytes ns) @ concat (map double_bytes ws))) = ws"
proof -
  show "elements (length ns) 4 bytes_int (concat (map int_bytes ns) @ concat (map double_bytes ws)) = ns"
    using assms by (intro elements_concat) (simp add: bytes_int_int_bytes)
  have "drop (length ns * 4) (concat (map int_bytes ns) @ concat (map double_bytes ws)) = concat (map double_bytes ws)"
    using length_ints [of ns] by (simp add: mult.commute)
  then show "elements (length ws) 8 bytes_double
      (drop (length ns * 4) (concat (map int_bytes ns) @ concat (map double_bytes ws))) = ws"
    using elements_concat [of ws double_bytes 8 bytes_double "[]"] bytes_double_bytes by simp
qed

lemma gets_measures:
  assumes "ns \<noteq> []" and "\<forall>n \<in> set ns. is_i32 n" and "is_i32 n_lines"
    and "int (4 * length ns + 8 * length ws) < 2147483648"
  shows "gets (get_writes n_lines ns ws) receive_measures
    \<lparr>watts_size = int (length ws), watts_sets_size = int (length ns), watts_sets = ns, watts = ws, lines_len = n_lines\<rparr>"
proof -
  let ?bs = "concat (map int_bytes ns) @ concat (map double_bytes ws)"
  let ?tail = "[concat (map int_bytes ns)] @ (if ws = [] then [] else [concat (map double_bytes ws)])"
  have e: "concat ?tail = ?bs" by simp
  have ne: "[] \<notin> set ?tail" using assms(1) by (cases ns; cases ws) auto
  have len: "length ?bs = length ns * 4 + length ws * 8"
    by (simp only: length_append length_ints length_doubles mult.commute)
  have i: "is_i32 (int (length ns))" "is_i32 (int (length ws))" using assms(4) by (simp_all add: is_i32_def)
  have sizes: "reply_sizes (int (length ws)) (int (length ns)) = Ok (length ns, length ws)"
    using assms(4) by (simp add: reply_sizes_def is_i32_def)
  have w: "gets ?tail (c_recv_waitall (length ns * 4 + length ws * 8)) ?bs"
    using gets_waitall [OF ne, of "length ns * 4 + length ws * 8"] by (simp only: e len)
  show ?thesis
    unfolding get_writes_def receive_measures_def append.simps
    apply (intro gets_Cons [OF gets_natural] gets_Cons [OF gets_int] i assms(3))
     apply simp
    apply (simp only: sizes lift_p_Ok case_prod_conv)
    apply (rule gets_check [OF w [unfolded append.simps]])
    apply (simp only: len read_measures [OF assms(2)] simp_thms if_False)
    done
qed

section \<open>Fetching the samples\<close>

lemma serve_get:
  assumes "conn_dev c = Some d" and "ct_status (cn_counter c) = INACTIVE" and "s_room (cn_sock c) = None"
    and "s_in (cn_sock c) = int_bytes (op_code GET) @ rest" and "get_reply (cn_counter c) d = Ok (ns, ws)"
  shows "session_step c = (Ok (), c\<lparr>cn_sock := (cn_sock c)\<lparr>s_in := rest,
    s_out := s_out (cn_sock c) @ concat (get_writes (int (length (lines_of c))) ns ws)\<rparr>\<rparr>)"
proof -
  let ?c = "c\<lparr>cn_sock := (cn_sock c)\<lparr>s_in := rest\<rparr>\<rparr>"
  have r: "on_sock receive_int c = (Ok (op_code GET), ?c)"
    using receive_int_in [OF _ assms(4)] by (simp add: on_sock_def is_i32_def)
  have "concat (get_writes n ns ws) = int_bytes (int (length ws)) @ int_bytes (int (length ns)) @
      int_bytes n @ concat (map int_bytes ns) @ concat (map double_bytes ws)" for n
    by (simp add: get_writes_def)
  then show ?thesis
    using counter_get_bytes [of ?c d ns ws] assms
    by (simp add: session_step_def bind_p_apply(1) [where m = "on_sock receive_int" and s = c, OF r] dispatch_def conn_dev_def)
qed

lemma c_send_room [simp]:
  "cs_room s = None \<Longrightarrow> c_send bs s = (Ok (int (length bs)), s\<lparr>cs_sent := cs_sent s @ bs\<rparr>)"
  by (simp add: c_send_def)

lemma send_msg_room [simp]: "cs_room s = None \<Longrightarrow> send_msg msg bs s = (Ok (), s\<lparr>cs_sent := cs_sent s @ bs\<rparr>)"
  by (simp add: send_msg_def bind_p_def)

lemma asks:
  assumes "cs_room s = None" and "gets ws m x" and "delivers (ws @ rest) (cs_segments s)"
  obtains segs' where "then_p (send_msg msg bs) m s = (Ok x, s\<lparr>cs_sent := cs_sent s @ bs, cs_segments := segs'\<rparr>)"
    and "delivers rest segs'"
proof -
  obtain segs' where "m (s\<lparr>cs_sent := cs_sent s @ bs\<rparr>) = (Ok x, s\<lparr>cs_sent := cs_sent s @ bs\<rparr>\<lparr>cs_segments := segs'\<rparr>)"
      "delivers rest segs'"
    using getsD [OF assms(2), of rest "s\<lparr>cs_sent := cs_sent s @ bs\<rparr>"] assms(3) by auto
  with assms(1) show ?thesis by (intro that) (simp_all add: then_p_def bind_p_def)
qed

lemma fetch_get:
  assumes "cs_room (cl_sock cl) = None" and "delivers (get_writes n_lines ns ws @ rest) (cs_segments (cl_sock cl))"
    and "ns \<noteq> []" and "\<forall>n \<in> set ns. is_i32 n" and "is_i32 n_lines"
    and "int (4 * length ns + 8 * length ws) < 2147483648"
  obtains segs' where "delivers rest segs'" and
    "pm_get_counter_data cl = (Ok 1, cl\<lparr>cl_sock := (cl_sock cl)
        \<lparr>cs_sent := cs_sent (cl_sock cl) @ int_bytes (op_code GET), cs_segments := segs'\<rparr>,
      cl_counter := (cl_counter cl)\<lparr>cc_measures := (cc_measures (cl_counter cl))\<lparr>energy :=
        \<lparr>watts_size = int (length ws), watts_sets_size = int (length ns), watts_sets = ns, watts = ws,
         lines_len = n_lines\<rparr>\<rparr>\<rparr>\<rparr>)"
proof -
  let ?ask = "then_p (send_msg ''Mismatch in number of sent bytes in get counter'' (int_bytes (op_code GET))) receive_measures"
  let ?e = "\<lparr>watts_size = int (length ws), watts_sets_size = int (length ns), watts_sets = ns, watts = ws,
    lines_len = n_lines\<rparr>"
  obtain segs' where s: "delivers rest segs'" "?ask (cl_sock cl) =
       (Ok ?e, (cl_sock cl)\<lparr>cs_sent := cs_sent (cl_sock cl) @ int_bytes (op_code GET), cs_segments := segs'\<rparr>)"
    using asks [OF assms(1) gets_measures [OF assms(3-6)] assms(2)] by metis
  have v: "via_sock ?ask cl =
      (Ok ?e, cl\<lparr>cl_sock := (cl_sock cl)\<lparr>cs_sent := cs_sent (cl_sock cl) @ int_bytes (op_code GET), cs_segments := segs'\<rparr>\<rparr>)"
    by (simp only: via_sock_def s(2) prod.case)
  show ?thesis
    by (rule that [OF s(1)], unfold pm_get_counter_data_def, subst bind_p_apply(1) [where m = "via_sock ?ask" and s = cl, OF v])
      (simp add: then_p_def bind_p_def upd_measures_def)
qed

section \<open>Creating a counter\<close>

text \<open>Both sides read the line mask alike.\<close>

lemma bytes_of_string_of_bytes [simp]: "bytes_of_string (string_of_bytes bs) = bs"
  by (simp add: bytes_of_string_def string_of_bytes_def comp_def)

lemma length_string_of_bytes: "length (string_of_bytes bs) = length bs"
  by (simp add: string_of_bytes_def)

lemma mask_lines:
  assumes "line_ok m"
  shows "l \<in> set (set_lines (string_of_bytes m) d) \<longleftrightarrow> l < d_n_lines d \<and> LINE_ISSET l m"
proof -
  have "length m = 16" using assms by (simp add: line_ok_def LINE_SETSIZE_def)
  then show ?thesis
    by (auto simp: set_lines_prefix set_mask_prefix LINE_ISSET_bit string_of_bytes_def)
qed

lemma creation_request:
  assumes "valid_string n" and "line_ok m" and "agg = 0 \<or> agg = 1"
  shows "creation_msg n m agg f = int_bytes (op_code CREATE) @ create_request n f (agg = 1) (string_of_bytes m)"
proof -
  have "length m = 16" using assms(2) by (simp add: line_ok_def LINE_SETSIZE_def)
  then show ?thesis
    using assms(1,3) by (auto simp: creation_msg_def create_request_def string_bytes_def LINE_SETSIZE_def length_string_of_bytes)
qed

section \<open>Asking about devices\<close>

definition info_writes :: "device \<Rightarrow> byte list list" where
  "info_writes d = [int_bytes (d_max_frequency d), int_bytes (d_n_lines d)] @ string_writes (d_name d)"

definition list_writes :: "string list \<Rightarrow> byte list list" where
  "list_writes names = int_bytes (int (length names)) # concat (map string_writes names)"

text \<open>A name the client has room for.\<close>

definition nameable :: "string \<Rightarrow> bool" where
  "nameable str \<longleftrightarrow> str \<noteq> [] \<and> length str \<le> BUFFSIZE"

lemma nameable_valid: "nameable str \<Longrightarrow> valid_string str"
  by (simp add: nameable_def valid_string_def BUFFSIZE_def)

lemma serve_info:
  assumes "s_room (cn_sock c) = None" and "s_in (cn_sock c) = string_bytes n @ rest" and "valid_string n"
    and "get_device (cn_server c) n = Some d" and "valid_string (d_name d)"
  shows "info_device c = (Ok (), c\<lparr>cn_sock := (cn_sock c)\<lparr>s_in := rest,
    s_out := s_out (cn_sock c) @ concat (info_writes d)\<rparr>\<rparr>)"
proof -
  let ?c = "c\<lparr>cn_sock := (cn_sock c)\<lparr>s_in := rest\<rparr>\<rparr>"
  have r: "on_sock (receive_string []) c = (Ok (length n, n), ?c)"
    using receive_string_in [OF assms(3,2)] by (simp add: on_sock_def)
  have "sends (concat (info_writes d)) (then_p (send_num (d_max_frequency d)) (then_p (send_num (d_n_lines d)) (send_name (d_name d))))"
    unfolding info_writes_def concat_append concat_string_writes [OF assms(5)] concat.simps append.simps append_Nil2
    by (intro sends_then sends_basic)
  then show ?thesis
    using assms(1,4) by (simp add: info_device_def bind_p_def [of "on_sock _"] r bind_p_def [of "gets_p _"] sends_def)
qed

lemma gets_info:
  assumes "is_i32 (d_max_frequency d)" "0 \<le> d_max_frequency d" "is_i32 (d_n_lines d)" "0 \<le> d_n_lines d"
    and "nameable (d_name d)"
  shows "gets (info_writes d)
    (bind_p (recv_natural e1 e2) (\<lambda>freq. bind_p (recv_natural e3 e4) (\<lambda>n_lines.
     bind_p (recv_natural e5 e6) (\<lambda>name_size. bind_p (receive_name e7 (nat name_size)) (\<lambda>name.
     ret_p \<lparr>dt_name = name, dt_max_frecuency = freq, dt_n_lines = n_lines\<rparr>)))))
    \<lparr>dt_name = d_name d, dt_max_frecuency = d_max_frequency d, dt_n_lines = d_n_lines d\<rparr>"
proof -
  have n: "d_name d \<noteq> []" "length (d_name d) \<le> BUFFSIZE" "0 \<le> int (length (d_name d))" "is_i32 (int (length (d_name d)))"
    using assms(5) by (simp_all add: nameable_def is_i32_def BUFFSIZE_def)
  have "gets [bytes_of_string (d_name d)] (bind_p (receive_name e7 (nat (int (length (d_name d))))) (\<lambda>name.
      ret_p \<lparr>dt_name = name, dt_max_frecuency = d_max_frequency d, dt_n_lines = d_n_lines d\<rparr>))
     \<lparr>dt_name = d_name d, dt_max_frecuency = d_max_frequency d, dt_n_lines = d_n_lines d\<rparr>"
    using gets_name [OF n(1,2)] by (intro gets_map) simp
  then show ?thesis
    unfolding info_writes_def string_writes_def append.simps
    by (intro gets_Cons [OF gets_natural] assms n)
qed

lemma device_question:
  assumes "cs_room s = None" and "nameable n" and "length n \<le> 1000" and "delivers (info_writes d @ rest) (cs_segments s)"
    and "is_i32 (d_max_frequency d)" "0 \<le> d_max_frequency d" "is_i32 (d_n_lines d)" "0 \<le> d_n_lines d"
    and "nameable (d_name d)"
  obtains segs' where "delivers rest segs'" and
    "pm_get_device_info n s =
      (Ok \<lparr>dt_name = d_name d, dt_max_frecuency = d_max_frequency d, dt_n_lines = d_n_lines d\<rparr>,
       s\<lparr>cs_sent := cs_sent s @ int_bytes (op_code INFO_DEVICE) @ string_bytes n, cs_segments := segs'\<rparr>)"
proof -
  have b: "build_msg (int_bytes (op_code INFO_DEVICE) @ string_bytes n) =
      ret_p (int_bytes (op_code INFO_DEVICE) @ string_bytes n)"
    using assms(3) by (simp add: build_msg_def BUFFSIZE_def del: op_code.simps)
  have run: "pm_get_device_info n = then_p
      (send_msg ''Mismatch in number of sent bytes in create counter'' (int_bytes (op_code INFO_DEVICE) @ string_bytes n))
      (bind_p (recv_natural ''Failed to receive bytes from server in get counter''
        ''Failed to receive max frecuency from server in get device info'') (\<lambda>freq.
      bind_p (recv_natural ''Failed to receive bytes from server in get device info''
        ''Failed to receive n_lines from server in get device info'') (\<lambda>n_lines.
      bind_p (recv_natural ''Failed to receive bytes form server in get device info''
        ''Failed to receive size of name from server in get device info'') (\<lambda>name_size.
      bind_p (receive_name ''Failed to receive bytes form server in get device info'' (nat name_size)) (\<lambda>name.
      ret_p \<lparr>dt_name = name, dt_max_frecuency = freq, dt_n_lines = n_lines\<rparr>)))))"
    unfolding pm_get_device_info_def b by (rule ext) (simp only: bind_p_apply(1) [OF prim_p_apply(1)])
  show ?thesis
    unfolding run by (rule asks [OF assms(1) gets_info [OF assms(5-9)] assms(4)]) (rule that, assumption, simp only: run)
qed

lemma gets_devices:
  "list_all nameable names \<Longrightarrow> gets (concat (map string_writes names)) (receive_devices (length names)) names"
proof (induction names)
  case (Cons n names)
  have n: "n \<noteq> []" "length n \<le> BUFFSIZE" "0 \<le> int (length n)" "is_i32 (int (length n))"
    using Cons.prems by (simp_all add: nameable_def is_i32_def BUFFSIZE_def)
  have tl: "gets (concat (map string_writes names)) (bind_p (receive_devices (length names)) (\<lambda>ns. ret_p (n # ns))) (n # names)"
    using Cons by (intro gets_map) simp
  have "gets (bytes_of_string n # concat (map string_writes names))
      (bind_p (receive_name ''Failed to receive bytes form server in get devices'' (nat (int (length n)))) (\<lambda>name.
        bind_p (receive_devices (length names)) (\<lambda>ns. ret_p (name # ns)))) (n # names)"
    by (rule gets_Cons [where x = n]) (use gets_name [OF n(1,2)] tl in simp_all)
  then have "gets (int_bytes (int (length n)) # bytes_of_string n # concat (map string_writes names))
      (receive_devices (Suc (length names))) (n # names)"
    unfolding receive_devices.simps by (intro gets_Cons [OF gets_int [OF n(4)]]) simp
  then show ?case unfolding list.map(2) concat.simps string_writes_def [of n] append.simps list.size(4) by simp
qed (simp add: gets_ret)

lemma list_question:
  assumes "cs_room s = None" and "delivers (list_writes names @ rest) (cs_segments s)"
    and "list_all nameable names" and "length names < 2147483648"
  obtains segs' where "delivers rest segs'" and
    "pm_get_devices s = (Ok names, s\<lparr>cs_sent := cs_sent s @ int_bytes (op_code LIST_DEVICES), cs_segments := segs'\<rparr>)"
proof -
  have "gets (list_writes names) (bind_p (recv_natural ''Failed to receive bytes form server in get devices''
        ''PM server unable to get information of devices'') (\<lambda>n. receive_devices (nat n))) names"
    unfolding list_writes_def
    by (rule gets_Cons [OF gets_natural]) (use assms(3,4) gets_devices [of names] in \<open>simp_all add: is_i32_def\<close>)
  then show ?thesis
    by (rule asks [OF assms(1) _ assms(2)]) (rule that, assumption, simp only: pm_get_devices_def)
qed

lemma concat_concat_map: "concat (concat (map f xs)) = concat (map (\<lambda>x. concat (f x)) xs)"
  by (induction xs) simp_all

lemma serve_list:
  assumes "s_room (cn_sock c) = None" and "names = map (\<lambda>(_, d). d_name d) (sv_devices (cn_server c))"
    and "list_all nameable names"
  shows "list_devices c = (Ok (), c\<lparr>cn_sock := (cn_sock c)\<lparr>s_out := s_out (cn_sock c) @ concat (list_writes names)\<rparr>\<rparr>)"
proof -
  let ?m = "sv_devices (cn_server c)"
  have c: "concat (string_writes (d_name (snd x))) = string_bytes (d_name (snd x))" if "x \<in> set ?m" for x
    using that assms(2,3) by (intro concat_string_writes nameable_valid) (auto simp: list_all_iff case_prod_unfold)
  have "sends (int_bytes (int (length ?m)) @ concat (map (\<lambda>x. string_bytes (d_name (snd x))) ?m))
      (then_p (send_num (int (length ?m))) (for_p ?m (\<lambda>(_, d). send_name (d_name d))))"
    by (intro sends_then sends_for sends_basic) (auto intro: sends_basic)
  moreover have "concat (concat (map string_writes names)) = concat (map (\<lambda>x. string_bytes (d_name (snd x))) ?m)"
    unfolding assms(2) concat_concat_map map_map by (intro arg_cong [where f = concat] map_cong) (auto simp: case_prod_unfold c)
  ultimately show ?thesis
    using assms(1,2) by (simp add: sends_def list_devices_def bind_p_def [of "gets_p _"] list_writes_def)
qed

text \<open>
  C34: The device list, from both ends: the server answers with the names of its devices in the order of its map, and
  the client ends up with exactly this list, when every name is nonempty and fits the client's buffer.
\<close>

theorem devices_agreed:
  assumes "s_room (cn_sock c) = None" and "names = map (\<lambda>(_, d). d_name d) (sv_devices (cn_server c))"
    and "list_all nameable names" and "length names < 2147483648"
    and "cs_room s = None" and "delivers (list_writes names) (cs_segments s)"
  shows "\<exists>c' s'. list_devices c = (Ok (), c') \<and> pm_get_devices s = (Ok names, s') \<and>
    s_out (cn_sock c') = s_out (cn_sock c) @ concat (list_writes names) \<and>
    cs_sent s' = cs_sent s @ int_bytes (op_code LIST_DEVICES)"
proof -
  have "delivers (list_writes names @ []) (cs_segments s)" using assms(6) by simp
  then obtain segs' where "pm_get_devices s =
      (Ok names, s\<lparr>cs_sent := cs_sent s @ int_bytes (op_code LIST_DEVICES), cs_segments := segs'\<rparr>)"
    using list_question [OF assms(5) _ assms(3,4), of "[]"] by metis
  with serve_list [OF assms(1-3)] show ?thesis by simp
qed

text \<open>An instance: the whole answer arrives in one segment.\<close>

theorem devices_agreed_witness:
  "\<exists>s'. pm_get_devices \<lparr>cs_segments = [concat (list_writes [''W''])], cs_sent = [], cs_room = None\<rparr> = (Ok [''W''], s')"
proof -
  let ?s = "\<lparr>cs_segments = [concat (list_writes [''W''])], cs_sent = [], cs_room = None\<rparr>"
  have "[''W''] = map (\<lambda>(_, d). d_name d) (sv_devices (cn_server (conn_of demo_server (demo_client True))))"
      "s_room (cn_sock (conn_of demo_server (demo_client True))) = None"
    by (simp_all add: conn_of_def demo_server_def demo_device_def Device_new_def demo_client_def)
  moreover have "delivers (list_writes [''W'']) (cs_segments ?s)" "list_all nameable [''W'']"
    using delivers_together [of "list_writes [''W'']"] by (simp_all add: nameable_def BUFFSIZE_def)
  ultimately show ?thesis
    using devices_agreed [of "conn_of demo_server (demo_client True)" "[''W'']" ?s] by auto
qed

section \<open>Both ends of a creation\<close>

lemma length_request:
  "length (create_request n f b msk) = length n + length msk + 16"
  by (simp add: create_request_def)

lemma request_run:
  assumes "cs_room s = None" and "delivers (int_bytes r # rest) (cs_segments s)" and "is_i32 r" and "0 \<le> r"
    and "length n \<le> 900" and "line_ok m" and "agg = 0 \<or> agg = 1"
  obtains segs' where "delivers rest segs'" and
    "request_counter n m agg f s = (Ok r, s\<lparr>cs_sent := cs_sent s @ int_bytes (op_code CREATE) @
       create_request n f (agg = 1) (string_of_bytes m), cs_segments := segs'\<rparr>)"
proof -
  have v: "valid_string n" using assms(5) by (simp add: valid_string_def)
  let ?msg = "creation_msg n m agg f"
  have "length m = 16" using assms(6) by (simp add: line_ok_def LINE_SETSIZE_def)
  then have b: "build_msg ?msg = ret_p ?msg"
    using assms(5) unfolding creation_request [OF v assms(6,7)]
    by (simp add: build_msg_def BUFFSIZE_def length_request length_string_of_bytes)
  have run: "request_counter n m agg f = then_p (send_msg ''Mismatch in number of sent bytes in create counter'' ?msg)
      (recv_natural ''Failed to receive bytes from server in create counter'' ''PM sever unable to assign a new counter'')"
    unfolding request_counter_def b by (rule ext) (simp only: bind_p_apply(1) [OF prim_p_apply(1)])
  show ?thesis
    by (rule asks [OF assms(1) gets_natural [OF assms(3,4)] , of rest])
      (use assms(2) in simp, rule that, assumption, simp only: run creation_request [OF v assms(6,7)])
qed

text \<open>
  C15: Creating a counter from both ends: the client's message is the request the server reads; the server
  admits it with exactly the device's lines the client's mask selects and the client's aggregation flag; and
  with the server's answers delivered, the client has a counter that knows the device's number of lines.
\<close>

theorem creation_agreed:
  assumes "nameable n" and "length n \<le> 900" and "line_ok m" and "agg = 0 \<or> agg = 1"
    and "s_in (cn_sock c) = create_request n f (agg = 1) (string_of_bytes m)"
    and "amap_get (sv_devices (cn_server c)) n = Some d" and "dev_ok d" and "d_max_frequency d < 4096"
    and "0 \<le> f" and "f \<le> d_max_frequency d" and "s_room (cn_sock c) = None" and "cn_peer c = Some p"
    and "connect 0 = Some s0" and "cs_room s0 = None" and "delivers [int_bytes (retval_code SUCCESS)] (cs_segments s0)"
    and "connect 1 = Some s1" and "cs_room s1 = None" and "delivers (info_writes d) (cs_segments s1)"
    and "nameable (d_name d)" and "is_i32 (d_n_lines d)" and "0 \<le> d_n_lines d"
  shows "\<exists>cl c'. pm_create_counter connect n m agg f = Ok cl \<and> counter_create c = (Ok (), c') \<and>
    cs_sent (cl_sock cl) = cs_sent s0 @ int_bytes (op_code CREATE) @ s_in (cn_sock c) \<and>
    s_out (cn_sock c') = s_out (cn_sock c) @ int_bytes (retval_code SUCCESS) \<and>
    cl_counter cl = \<lparr>cc_aggregate = agg, cc_lines = m, cc_num_lines = d_n_lines d, cc_interval = f, cc_measures = no_measures\<rparr> \<and>
    (\<forall>l. l \<in> set (ct_lines (cn_counter c')) \<longleftrightarrow> l < d_n_lines d \<and> LINE_ISSET l m) \<and>
    ct_aggregate (cn_counter c') = (agg = 1)"
proof -
  have v: "valid_string n" "valid_string (string_of_bytes m)"
    using assms(2,3) by (simp_all add: valid_string_def length_string_of_bytes line_ok_def LINE_SETSIZE_def)
  have cc: "counter_create c = (Ok (), admitted n f (agg = 1) (string_of_bytes m) [] d c)"
    by (rule counter_create_admitted [OF _ v assms(6-12)]) (simp add: assms(5))
  obtain t0 where t0: "request_counter n m agg f s0 = (Ok 0, s0\<lparr>cs_sent := cs_sent s0 @ int_bytes (op_code CREATE) @
      create_request n f (agg = 1) (string_of_bytes m), cs_segments := t0\<rparr>)"
    using request_run [of s0 0 "[]" n m agg f thesis] assms(2-4,14,15) by (auto simp: is_i32_def)
  have fr: "is_i32 (d_max_frequency d)" "0 \<le> d_max_frequency d" "0 \<le> d_n_lines d" "length n \<le> 1000"
    using assms(2,7,8,21) by (auto simp: dev_ok_def is_i32_def)
  obtain r1 where r1: "pm_get_device_info n s1 =
      (Ok \<lparr>dt_name = d_name d, dt_max_frecuency = d_max_frequency d, dt_n_lines = d_n_lines d\<rparr>, r1)"
    using device_question [OF assms(17,1) fr(4), of d "[]"] assms(18-20) fr by (metis append_Nil2)
  have "pm_create_counter connect n m agg f = Ok \<lparr>cl_sock = s0\<lparr>cs_sent := cs_sent s0 @ int_bytes (op_code CREATE) @
      create_request n f (agg = 1) (string_of_bytes m), cs_segments := t0\<rparr>, cl_counter = \<lparr>cc_aggregate = agg, cc_lines = m,
      cc_num_lines = d_n_lines d, cc_interval = f, cc_measures = no_measures\<rparr>\<rparr>"
    by (simp add: pm_create_counter_def open_connection_def assms(13) assms(16) [unfolded One_nat_def] t0 r1)
  with cc show ?thesis by (simp add: admitted_def Let_def assms(5) mask_lines [OF assms(3)])
qed

text \<open>An instance on the concrete server.\<close>

definition demo_mask :: line_t where
  "demo_mask = LINE_SET 0 LINE_CLR_ALL"

definition demo_ask :: conn where
  "demo_ask = (let c = conn_of demo_server (demo_client True)
     in c\<lparr>cn_sock := \<lparr>s_in = create_request ''W'' 1 True (string_of_bytes demo_mask), s_out = [], s_room = None\<rparr>\<rparr>)"

definition demo_connect :: "nat \<Rightarrow> csock option" where
  "demo_connect k = Some \<lparr>cs_segments = (if k = 0 then [int_bytes 0] else [concat (info_writes demo_device)]),
     cs_sent = [], cs_room = None\<rparr>"

theorem creation_agreed_witness:
  "\<exists>cl c'. pm_create_counter demo_connect ''W'' demo_mask 1 1 = Ok cl \<and> counter_create demo_ask = (Ok (), c') \<and>
    cc_num_lines (cl_counter cl) = 1 \<and> 0 \<in> set (ct_lines (cn_counter c'))"
proof -
  have m: "line_ok demo_mask" "LINE_ISSET 0 demo_mask"
    using line_set.fold_add [OF line_set.ok_empty, of "[0]"] line_set.member_of_list [of 0 "[0]"]
    by (simp_all add: demo_mask_def)
  have d: "amap_get (sv_devices (cn_server demo_ask)) ''W'' = Some demo_device" "d_n_lines demo_device = 1"
      "d_max_frequency demo_device = 1" "d_name demo_device = ''W''"
    by (simp_all add: demo_ask_def conn_of_def demo_server_def demo_device_def Device_new_def Let_def)
  show ?thesis
    using creation_agreed [of "''W''" demo_mask 1 demo_ask 1 demo_device "''10.0.0.1''" demo_connect
        "\<lparr>cs_segments = [int_bytes 0], cs_sent = [], cs_room = None\<rparr>"
        "\<lparr>cs_segments = [concat (info_writes demo_device)], cs_sent = [], cs_room = None\<rparr>"]
      m d demo_device_ok delivers_writes [of "[int_bytes 0]"] delivers_together [of "info_writes demo_device"]
    by (auto simp: nameable_def BUFFSIZE_def demo_ask_def demo_connect_def conn_of_def demo_client_def Let_def is_i32_def)
qed

section \<open>A measurement, in the client's memory\<close>

text \<open>What the client knows after fetching: the counter with new data.\<close>

definition with_data :: "pm_measures \<Rightarrow> client \<Rightarrow> client" where
  "with_data e cl = cl\<lparr>cl_counter := (cl_counter cl)\<lparr>cc_measures := (cc_measures (cl_counter cl))\<lparr>energy := e\<rparr>\<rparr>\<rparr>"

definition one_set_data :: "int list \<Rightarrow> nat \<Rightarrow> double list \<Rightarrow> pm_measures" where
  "one_set_data ls n data = \<lparr>watts_size = int (length data), watts_sets_size = 2, watts_sets = [0, int n],
     watts = data, lines_len = int (length ls)\<rparr>"

definition line_data :: "int list \<Rightarrow> double list list \<Rightarrow> double list list" where
  "line_data ls xs = map (\<lambda>l. map (\<lambda>x. x ! nat l) xs) ls"

lemma fetch_measured:
  assumes "inv s" and "measurement s v xs v' s'"
    and "amap_get (sv_devices (sy_server s')) (ct_dev (lv_counter v)) = Some d"
    and "ct_lines (lv_counter v) = ls" and "ls \<noteq> []" and "ct_interval (lv_counter v) = 1" and "\<not> ct_aggregate (lv_counter v)"
    and "s_in so = int_bytes (op_code GET)" and "s_room so = None"
    and "data = concat (line_data ls xs)" and "8 + 8 * length data < 2147483648"
    and "length ls < 2147483648" and "cs_room (cl_sock cl) = None"
    and "delivers (get_writes (int (length ls)) [0, int (length xs)] data) (cs_segments (cl_sock cl))"
  obtains c' segs' where "session_step (conn_of (sy_server s') (v'\<lparr>lv_sock := so\<rparr>)) = (Ok (), c')"
    and "s_out (cn_sock c') = s_out so @ concat (get_writes (int (length ls)) [0, int (length xs)] data)"
    and "pm_get_counter_data cl = (Ok 1, with_data (one_set_data ls (length xs) data)
      (cl\<lparr>cl_sock := (cl_sock cl)\<lparr>cs_sent := cs_sent (cl_sock cl) @ s_in so, cs_segments := segs'\<rparr>\<rparr>))"
proof -
  note m = measurement_took [OF assms(1-3)]
  let ?c = "conn_of (sy_server s') (v'\<lparr>lv_sock := so\<rparr>)" and ?ws = "get_writes (int (length ls)) [0, int (length xs)] data"
  obtain se where se: "ct_sets (lv_counter v') = [se]" "took (lv_counter v') d xs se" using m(6) by blast
  have r: "get_reply (lv_counter v') d = Ok ([0, int (length xs)], data)"
    using took_reply_lines [OF se(2,1)] m(1-5,7) assms(4-7,10) by (simp add: line_data_def)
  have "session_step ?c = (Ok (), ?c\<lparr>cn_sock := (cn_sock ?c)\<lparr>s_in := [], s_out := s_out (cn_sock ?c) @
      concat (get_writes (int (length (lines_of ?c))) [0, int (length xs)] data)\<rparr>\<rparr>)"
    by (rule serve_get [of _ d]) (use m(8,9) assms(3,8,9) r in \<open>simp_all add: conn_dev_def conn_of_def\<close>)
  then have server: "session_step ?c = (Ok (), ?c\<lparr>cn_sock := (cn_sock ?c)\<lparr>s_in := [], s_out := s_out (cn_sock ?c) @ concat ?ws\<rparr>\<rparr>)"
    using m(1) assms(4) by (simp add: conn_of_def)
  have b: "\<forall>n \<in> set [0, int (length xs)]. is_i32 n" "is_i32 (int (length ls))" "[0, int (length xs)] \<noteq> []"
      "int (4 * length [0, int (length xs)] + 8 * length data) < 2147483648"
    using m(7) assms(4,5,11,12) by (auto simp: is_i32_def)
  have "delivers (?ws @ []) (cs_segments (cl_sock cl))" using assms(14) by simp
  from fetch_get [OF assms(13) this b(3,1,2,4)] obtain segs' where client: "pm_get_counter_data cl =
      (Ok 1, cl\<lparr>cl_sock := (cl_sock cl)\<lparr>cs_sent := cs_sent (cl_sock cl) @ int_bytes (op_code GET), cs_segments := segs'\<rparr>,
        cl_counter := (cl_counter cl)\<lparr>cc_measures := (cc_measures (cl_counter cl))\<lparr>energy :=
        \<lparr>watts_size = int (length data), watts_sets_size = int (length [0, int (length xs)]),
         watts_sets = [0, int (length xs)], watts = data, lines_len = int (length ls)\<rparr>\<rparr>\<rparr>\<rparr>)" by metis
  show ?thesis
    by (rule that [OF server]) (simp_all add: conn_of_def client assms(8) with_data_def one_set_data_def del: op_code.simps)
qed

text \<open>
  C2: End to end: a client that measured while its device delivered \<open>xs\<close>, whatever other clients did, and then
  asks for its data, ends up with exactly \<open>xs\<close> in its \<open>watts\<close> array, line after line, with one set from 0 to
  the number of samples: provided the sizes fit in an \<open>int\<close>, and whichever of the server's writes TCP joins.
\<close>

theorem client_has_samples:
  assumes "inv s" and "measurement s v xs v' s'"
    and "amap_get (sv_devices (sy_server s')) (ct_dev (lv_counter v)) = Some d"
    and "ct_lines (lv_counter v) = ls" and "ls \<noteq> []" and "ct_interval (lv_counter v) = 1" and "\<not> ct_aggregate (lv_counter v)"
    and "s_in so = int_bytes (op_code GET)" and "s_room so = None"
    and "data = concat (map (\<lambda>l. map (\<lambda>x. x ! nat l) xs) ls)" and "8 + 8 * length data < 2147483648"
    and "length ls < 2147483648" and "cs_room (cl_sock cl) = None"
    and "delivers (get_writes (int (length ls)) [0, int (length xs)] data) (cs_segments (cl_sock cl))"
  shows "\<exists>c' cl'. session_step (conn_of (sy_server s') (v'\<lparr>lv_sock := so\<rparr>)) = (Ok (), c') \<and>
    s_out (cn_sock c') = s_out so @ concat (get_writes (int (length ls)) [0, int (length xs)] data) \<and>
    pm_get_counter_data cl = (Ok 1, cl') \<and> cs_sent (cl_sock cl') = cs_sent (cl_sock cl) @ s_in so \<and>
    energy (cc_measures (cl_counter cl')) = \<lparr>watts_size = int (length data), watts_sets_size = 2,
      watts_sets = [0, int (length xs)], watts = data, lines_len = int (length ls)\<rparr>"
proof -
  from fetch_measured [OF assms(1-9) _ assms(11-14)] assms(10)
  obtain c' segs' where f: "session_step (conn_of (sy_server s') (v'\<lparr>lv_sock := so\<rparr>)) = (Ok (), c')"
      "s_out (cn_sock c') = s_out so @ concat (get_writes (int (length ls)) [0, int (length xs)] data)"
      "pm_get_counter_data cl = (Ok 1, with_data (one_set_data ls (length xs) data)
        (cl\<lparr>cl_sock := (cl_sock cl)\<lparr>cs_sent := cs_sent (cl_sock cl) @ s_in so, cs_segments := segs'\<rparr>\<rparr>))"
    unfolding line_data_def by metis
  show ?thesis
    by (rule exI, rule exI, rule conjI [OF f(1)], rule conjI [OF f(2)], rule conjI [OF f(3)])
      (simp add: with_data_def one_set_data_def)
qed

text \<open>The instance on the concrete server: the last two writes arrive together.\<close>

definition demo_asker :: client where
  "demo_asker = \<lparr>cl_sock = \<lparr>cs_segments = [int_bytes 2, int_bytes 2, int_bytes 1,
       int_bytes 0 @ int_bytes 2 @ double_bytes 7 @ double_bytes 9], cs_sent = [], cs_room = None\<rparr>,
     cl_counter = \<lparr>cc_aggregate = 0, cc_lines = demo_mask, cc_num_lines = 1, cc_interval = 1, cc_measures = no_measures\<rparr>\<rparr>"

lemma demo_asker_delivers: "delivers (get_writes 1 [0, 2] [7, 9]) (cs_segments (cl_sock demo_asker))"
  unfolding get_writes_def demo_asker_def
  using delivers.joined [OF delivers.alone [OF delivers.none], of "int_bytes 0 @ int_bytes 2" "double_bytes 7 @ double_bytes 9"]
  by (auto intro!: delivers.alone)

theorem client_has_samples_witness:
  "\<exists>cl'. pm_get_counter_data demo_asker = (Ok 1, cl') \<and> watts (energy (cc_measures (cl_counter cl'))) = [7, 9]"
proof -
  let ?so = "\<lparr>s_in = int_bytes (op_code GET), s_out = [], s_room = None\<rparr>" and ?v = "demo_live False"
  let ?s' = "\<lparr>sy_server = demo_srv False 0 [7, 9], sy_live = [demo_final False [7, 9]]\<rparr>"
  have f: "ct_lines (lv_counter ?v) = [0]" "ct_interval (lv_counter ?v) = 1" "\<not> ct_aggregate (lv_counter ?v)"
    by (simp_all add: demo_conn_fields demo_counter_def)
  have d: "amap_get (sv_devices (sy_server ?s')) (ct_dev (lv_counter ?v)) = Some (demo_dev False 0 [7, 9])"
    by (simp add: demo_conn_fields demo_counter_def demo_srv_def)
  have o: "s_in ?so = int_bytes (op_code GET)" "s_room ?so = None" "cs_room (cl_sock demo_asker) = None"
    by (simp_all only: sock.select_convs demo_asker_def client.select_convs csock.select_convs)
  have x: "[7, 9] = concat (map (\<lambda>l. map (\<lambda>x. x ! nat l) [[7], [9::double]]) [0])" "8 + 8 * length [7, 9::double] < 2147483648"
      "length [0::int] < 2147483648" "[0::int] \<noteq> []"
    by simp_all
  have w: "delivers (get_writes (int (length [0::int])) [0, int (length [[7], [9::double]])] [7, 9]) (cs_segments (cl_sock demo_asker))"
    using demo_asker_delivers by simp
  show ?thesis
    using client_has_samples [OF demo_inv demo_measurement d f(1) x(4) f(2,3) o(1,2) x(1-3) o(3) w]
    by (elim exE conjE) (rule exI, rule conjI, assumption, simp only: pm_measures.select_convs)
qed

end
