(* ===== verification/Client_Print.thy ===== *)
theory Client_Print
  imports Client
begin

text \<open>
  Reporting on the client: tables of the fetched samples as text, CSV or on the standard output
  (\<open>client/pm_print_data_text.c\<close>, \<open>pm_print_data_csv.c\<close>, \<open>pm_print_data_stdout.c\<close>), the energy of a set
  (\<open>client/pm_calculate_energy.c\<close>) and the description of a counter (\<open>client/pm_fprint_counter_info.c\<close>).

  A function returns its result and what it printed. The C code indexes arrays received from the server
  and arrays it allocates; an index outside, or an element never written, is undefined behaviour.
  \<open>%f\<close> prints six decimals of the exact value, in the C locale; the sign of a NaN is left out.
\<close>

section \<open>Arrays and formats\<close>

definition rd :: "'a list \<Rightarrow> int \<Rightarrow> 'a res" where
  "rd xs i = (if 0 \<le> i \<and> i < int (length xs) then Ok (xs ! nat i) else Undef ''index out of range'')"

definition rd_time :: "double option list \<Rightarrow> int \<Rightarrow> double res" where
  "rd_time ts i = bind_r (rd ts i) (\<lambda>t. case t of None \<Rightarrow> Undef ''uninitialised value'' | Some x \<Rightarrow> Ok x)"

definition fmt_f :: "double \<Rightarrow> string" where
  "fmt_f x = print_fixed 6 (d_val x)"

definition d_sub :: "double \<Rightarrow> double \<Rightarrow> double" where
  "d_sub x y = d_add x (y XOR push_bit 63 1)"

abbreviation tab :: string where "tab \<equiv> [CHR 0x09]"
abbreviation newline :: string where "newline \<equiv> [CHR 0x0A]"

section \<open>Choosing sets and lines\<close>

text \<open>The range of sets to print, or nothing when the argument is refused: -1 stands for all sets.\<close>

definition sets_range :: "int \<Rightarrow> pm_measures \<Rightarrow> (int \<times> int) option" where
  "sets_range which e =
     (if watts_sets_size e - 1 < which \<or> which < - 1 then None
      else if which = - 1 then Some (0, watts_sets_size e - 1)
      else Some (which, which + 1))"

text \<open>The counting loop: it stops as soon as it has found \<open>lines_len\<close> lines to print.\<close>

fun count_lines :: "int list \<Rightarrow> line_t \<Rightarrow> line_t \<Rightarrow> int \<Rightarrow> int \<Rightarrow> int \<Rightarrow> int \<times> int" where
  "count_lines [] p_lines lines len n_print n_counter = (n_print, n_counter)"
| "count_lines (i # is) p_lines lines len n_print n_counter =
     (if n_print < len
      then count_lines is p_lines lines len (n_print + (if LINE_ISSET i p_lines then 1 else 0))
             (n_counter + (if LINE_ISSET i lines then 1 else 0))
      else (n_print, n_counter))"

text \<open>The indexing loop: the entries of \<open>ind_print\<close> and \<open>ind_lines\<close>.\<close>

fun index_lines :: "int list \<Rightarrow> line_t \<Rightarrow> line_t \<Rightarrow> int \<Rightarrow> int \<Rightarrow> (int \<times> int) list" where
  "index_lines [] p_lines lines len j = []"
| "index_lines (i # is) p_lines lines len j =
     (if j < len
      then if LINE_ISSET i p_lines \<and> LINE_ISSET i lines then (j, i) # index_lines is p_lines lines len (j + 1)
           else if \<not> LINE_ISSET i p_lines \<and> LINE_ISSET i lines then index_lines is p_lines lines len (j + 1)
           else index_lines is p_lines lines len j
      else [])"

definition all_lines :: "int list" where
  "all_lines = map int [0..<NLINEBITS]"

text \<open>
  Both arrays have \<open>n_lines_print\<close> entries, all of which are read for the heading. The third result is
  \<open>n_lines_counter\<close>.
\<close>

definition chosen_lines :: "line_t \<Rightarrow> counter_t \<Rightarrow> ((int \<times> int) list \<times> int) res" where
  "chosen_lines lines ctr =
     (let p_lines = LINE_AND lines (cc_lines ctr); len = lines_len (energy (cc_measures ctr));
          (n_print, n_counter) = count_lines all_lines p_lines (cc_lines ctr) len 0 0;
          inds = index_lines all_lines p_lines (cc_lines ctr) len 0
      in if int (length inds) < n_print then Undef ''uninitialised value''
         else if n_print < int (length inds) then Undef ''buffer overflow''
         else Ok (inds, n_counter))"

definition lines_heading :: "string \<Rightarrow> (int \<times> int) list \<Rightarrow> string" where
  "lines_heading sep inds =
     ''Set_id'' @ sep @ ''Time'' @ sep @ concat (map (\<lambda>(_, l). ''Line '' @ to_string l @ sep) inds) @ ''Sum'' @ newline"

text \<open>The bounds of a set, its duration, and the distance of its samples. \<open>int\<close> arithmetic must not overflow.\<close>

definition int_sub :: "int \<Rightarrow> int \<Rightarrow> int res" where
  "int_sub x y = (if is_i32 (x - y) then Ok (x - y) else Undef ''int overflow'')"

definition set_frame :: "pm_measures_wt \<Rightarrow> int \<Rightarrow> (int \<times> int \<times> double \<times> double) res" where
  "set_frame m s =
     bind_r (rd (watts_sets (energy m)) s) (\<lambda>ini.
     bind_r (rd (watts_sets (energy m)) (s + 1)) (\<lambda>fin.
     bind_r (rd_time (timing m) (s * 2 + 1)) (\<lambda>t1.
     bind_r (rd_time (timing m) (s * 2)) (\<lambda>t0.
     bind_r (int_sub fin ini) (\<lambda>n.
     bind_r (int_sub n 1) (\<lambda>k.
     let time = d_sub t1 t0 in Ok (ini, fin, time, d_div time (d_of_int k))))))))"

definition total_interval :: "pm_measures \<Rightarrow> int res" where
  "total_interval e =
     bind_r (rd (watts_sets e) (watts_sets_size e - 1)) (\<lambda>b.
     bind_r (rd (watts_sets e) 0) (\<lambda>a. int_sub b a))"

section \<open>Tables\<close>

text \<open>The samples of one set of an aggregating counter.\<close>

fun agg_rows :: "string \<Rightarrow> double list \<Rightarrow> int \<Rightarrow> double \<Rightarrow> int list \<Rightarrow> double \<Rightarrow> string res" where
  "agg_rows sep ws s inc_time [] t = Ok []"
| "agg_rows sep ws s inc_time (i # is) t =
     bind_r (rd ws i) (\<lambda>w.
     bind_r (agg_rows sep ws s inc_time is (d_add t inc_time)) (\<lambda>rest.
     Ok (to_string s @ sep @ fmt_f t @ sep @ fmt_f w @ newline @ rest)))"

definition agg_table :: "string \<Rightarrow> pm_measures_wt \<Rightarrow> int list \<Rightarrow> string res" where
  "agg_table sep m ss = bind_r (map_r (\<lambda>s.
       bind_r (set_frame m s) (\<lambda>(ini, fin, time, inc_time).
       agg_rows sep (watts (energy m)) s inc_time [ini..fin - 1] d_zero)) ss) (\<lambda>parts. Ok (concat parts))"

definition agg_heading :: "string \<Rightarrow> string" where
  "agg_heading sep = ''Set_id'' @ sep @ ''Time'' @ sep @ ''Value_aggregate'' @ newline"

text \<open>One row of a per-line table: the sample \<open>pos\<close> in the block of each chosen line, and their sum.\<close>

fun line_fields :: "string \<Rightarrow> double list \<Rightarrow> int \<Rightarrow> int \<Rightarrow> (int \<times> int) list \<Rightarrow> double \<Rightarrow> (string \<times> double) res" where
  "line_fields sep ws pos interval [] sm = Ok ([], sm)"
| "line_fields sep ws pos interval ((ip, l) # inds) sm =
     bind_r (rd ws (pos + interval * ip)) (\<lambda>w.
     bind_r (line_fields sep ws pos interval inds (d_add sm w)) (\<lambda>(rest, total).
     Ok (fmt_f w @ sep @ rest, total)))"

fun line_rows :: "string \<Rightarrow> double list \<Rightarrow> int \<Rightarrow> int \<Rightarrow> (int \<times> int) list \<Rightarrow> double \<Rightarrow> int list \<Rightarrow> double \<Rightarrow> string res" where
  "line_rows sep ws s interval inds inc_time [] t = Ok []"
| "line_rows sep ws s interval inds inc_time (pos # ps) t =
     bind_r (line_fields sep ws pos interval inds d_zero) (\<lambda>(fields, sm).
     bind_r (line_rows sep ws s interval inds inc_time ps (d_add t inc_time)) (\<lambda>rest.
     Ok (to_string s @ sep @ fmt_f t @ sep @ fields @ fmt_f sm @ newline @ rest)))"

text \<open>In the text format the blocks of a set are as long as the set and start after those of the sets printed before.\<close>

fun text_sets :: "pm_measures_wt \<Rightarrow> (int \<times> int) list \<Rightarrow> int \<Rightarrow> int list \<Rightarrow> int \<Rightarrow> string res" where
  "text_sets m inds n_counter [] offset = Ok []"
| "text_sets m inds n_counter (s # ss) offset =
     bind_r (set_frame m s) (\<lambda>(ini, fin, time, inc_time).
     let interval = fin - ini in
     bind_r (line_rows tab (watts (energy m)) s interval inds inc_time [offset..offset + interval - 1] d_zero) (\<lambda>rows.
     bind_r (text_sets m inds n_counter ss (offset + n_counter * interval)) (\<lambda>rest.
     Ok (rows @ rest))))"

text \<open>In the other formats all blocks are as long as all sets together.\<close>

definition plain_sets :: "string \<Rightarrow> pm_measures_wt \<Rightarrow> (int \<times> int) list \<Rightarrow> int \<Rightarrow> int list \<Rightarrow> string res" where
  "plain_sets sep m inds interval ss = bind_r (map_r (\<lambda>s.
       bind_r (set_frame m s) (\<lambda>(ini, fin, time, inc_time).
       line_rows sep (watts (energy m)) s interval inds inc_time [ini..fin - 1] d_zero)) ss) (\<lambda>parts. Ok (concat parts))"

text \<open>Writing to the result of \<open>fopen\<close>, which may be null.\<close>

definition to_file :: "bool \<Rightarrow> string res \<Rightarrow> (int \<times> string) res" where
  "to_file opened r = (if opened then bind_r r (\<lambda>out. Ok (1, out)) else Undef ''null file'')"

definition pm_print_data_text :: "bool \<Rightarrow> counter_t \<Rightarrow> line_t \<Rightarrow> int \<Rightarrow> (int \<times> string) res" where
  "pm_print_data_text opened ctr lines which =
     (let m = cc_measures ctr in
      case sets_range which (energy m) of
        None \<Rightarrow> Ok (- 1, [])
      | Some (init, stop) \<Rightarrow> to_file opened
         (if cc_aggregate ctr \<noteq> 0
          then bind_r (agg_table tab m [init..stop - 1]) (\<lambda>rows. Ok (agg_heading tab @ rows))
          else bind_r (chosen_lines lines ctr) (\<lambda>(inds, n_counter).
               bind_r (total_interval (energy m)) (\<lambda>_.
               bind_r (text_sets m inds n_counter [init..stop - 1] 0) (\<lambda>rows.
               Ok (lines_heading tab inds @ rows))))))"

definition pm_print_data_csv :: "bool \<Rightarrow> counter_t \<Rightarrow> line_t \<Rightarrow> int \<Rightarrow> (int \<times> string) res" where
  "pm_print_data_csv opened ctr lines which =
     (let m = cc_measures ctr in
      case sets_range which (energy m) of
        None \<Rightarrow> Ok (- 1, [])
      | Some (init, stop) \<Rightarrow> to_file opened
         (if cc_aggregate ctr \<noteq> 0
          then bind_r (agg_table '';'' m [init..stop - 1]) (\<lambda>rows. Ok (agg_heading '';'' @ rows))
          else bind_r (chosen_lines lines ctr) (\<lambda>(inds, n_counter).
               bind_r (total_interval (energy m)) (\<lambda>interval.
               bind_r (plain_sets '';'' m inds interval [init..stop - 1]) (\<lambda>rows.
               Ok (lines_heading '';'' inds @ rows))))))"

definition pm_print_data_stdout :: "counter_t \<Rightarrow> line_t \<Rightarrow> int \<Rightarrow> (int \<times> string) res" where
  "pm_print_data_stdout ctr lines which =
     (let m = cc_measures ctr in
      case sets_range which (energy m) of
        None \<Rightarrow> Ok (- 1, [])
      | Some (init, stop) \<Rightarrow>
          if cc_aggregate ctr \<noteq> 0
          then bind_r (agg_table tab m [init..stop - 1]) (\<lambda>rows. Ok (1, agg_heading tab @ rows))
          else bind_r (chosen_lines lines ctr) (\<lambda>(inds, n_counter).
               bind_r (total_interval (energy m)) (\<lambda>interval.
               bind_r (plain_sets tab m inds interval [init..stop - 1]) (\<lambda>rows.
               Ok (1, lines_heading tab inds @ rows)))))"

section \<open>Energy\<close>

fun add_range :: "double list \<Rightarrow> int list \<Rightarrow> double \<Rightarrow> double res" where
  "add_range ws [] sm = Ok sm"
| "add_range ws (i # is) sm = bind_r (rd ws i) (\<lambda>w. add_range ws is (d_add sm w))"

text \<open>The loop over the sets: \<open>sum\<close> is not reset, and \<open>time\<close> is the last set's; nothing if there was none.\<close>

fun energy_sets :: "pm_measures_wt \<Rightarrow> int list \<Rightarrow> double option \<Rightarrow> double \<Rightarrow> (double option \<times> double) res" where
  "energy_sets m [] time sm = Ok (time, sm)"
| "energy_sets m (s # ss) time sm =
     bind_r (set_frame m s) (\<lambda>(ini, fin, time', inc_time).
     bind_r (add_range (watts (energy m)) [ini..fin - 1] sm) (\<lambda>sm'.
     energy_sets m ss (Some time') (d_div sm' (d_of_int (fin - ini)))))"

text \<open>
  Per line: \<open>energy\<close> is allocated with \<open>calloc(0, ...)\<close>, so its first element is outside. What is left to
  print needs no line to be chosen.
\<close>

fun no_energy_sets :: "pm_measures_wt \<Rightarrow> (int \<times> int) list \<Rightarrow> int list \<Rightarrow> string res" where
  "no_energy_sets m inds [] = Ok []"
| "no_energy_sets m inds (s # ss) =
     bind_r (set_frame m s) (\<lambda>(ini, fin, time, inc_time).
     if inds \<noteq> [] then Undef ''buffer overflow''
     else bind_r (no_energy_sets m inds ss) (\<lambda>rest.
       Ok (''Line:       Sum'' @ newline @ ''Time:       '' @ fmt_f time @ '' s'' @ newline @
           ''Energy:     '' @ fmt_f (d_mul d_zero time) @ '' Ws'' @ newline @ rest)))"

definition pm_calculate_energy :: "counter_t \<Rightarrow> line_t \<Rightarrow> int \<Rightarrow> (int \<times> string) res" where
  "pm_calculate_energy ctr lines which =
     (let m = cc_measures ctr in
      case sets_range which (energy m) of
        None \<Rightarrow> Ok (- 1, [])
      | Some (init, stop) \<Rightarrow>
          if cc_aggregate ctr \<noteq> 0
          then bind_r (energy_sets m [init..stop - 1] None d_zero) (\<lambda>(time, sm). case time of
                 None \<Rightarrow> Undef ''uninitialised value''
               | Some t \<Rightarrow> Ok (1, fmt_f t @ tab @ fmt_f sm @ tab @ fmt_f (d_mul t sm) @ newline))
          else bind_r (chosen_lines lines ctr) (\<lambda>(inds, n_counter).
               bind_r (total_interval (energy m)) (\<lambda>_.
               bind_r (no_energy_sets m inds [init..stop - 1]) (\<lambda>out.
               Ok (1, lines_heading tab inds @ out)))))"

section \<open>The description of a counter\<close>

text \<open>The descriptor of the socket is a parameter. Lines are counted from one.\<close>

definition pm_fprint_counter_info :: "bool \<Rightarrow> int \<Rightarrow> counter_t \<Rightarrow> (int \<times> string) res" where
  "pm_fprint_counter_info opened sock ctr = to_file opened (Ok
     ('' socket: '' @ to_string sock @ newline @
      '' aggregate: '' @ to_string (cc_aggregate ctr) @ newline @
      '' numero de lineas del dispositivo: '' @ to_string (cc_num_lines ctr) @ newline @
      '' lineas activadas: '' @
      concat (map (\<lambda>i. if LINE_ISSET i (cc_lines ctr) then to_string (i + 1) @ tab else []) [0..cc_num_lines ctr - 1]) @
      '' intervalo de muestreo: '' @ to_string (cc_interval ctr) @ newline))"

end
