(* ===== verification/Client_Tables.thy ===== *)
theory Client_Tables
  imports Client_Print
begin

text \<open>
  What the client's reports show: which lines a table has, which samples its rows hold, and the energy of a
  set, for data laid out as the server sends it (set after set, within a set line after line).
\<close>

section \<open>The chosen lines\<close>

lemma LINE_ISSET_AND:
  "line_ok p \<Longrightarrow> line_ok q \<Longrightarrow> LINE_ISSET i (LINE_AND p q) \<longleftrightarrow> LINE_ISSET i p \<and> LINE_ISSET i q"
  using LINE_AND_member by blast

lemma count_lines_all:
  assumes "\<And>i. i \<in> set is \<Longrightarrow> LINE_ISSET i p \<Longrightarrow> LINE_ISSET i q"
    and "np \<le> nc" and "nc + int (length (filter (\<lambda>i. LINE_ISSET i q) is)) = len"
  shows "count_lines is p q len np nc = (np + int (length (filter (\<lambda>i. LINE_ISSET i p) is)), len)"
  using assms
proof (induction "is" arbitrary: np nc)
  case (Cons i "is")
  show ?case
  proof (cases "np < len")
    case True
    have "LINE_ISSET i p \<Longrightarrow> LINE_ISSET i q" using Cons.prems(1) by simp
    then show ?thesis
      using True Cons.IH [of "np + (if LINE_ISSET i p then 1 else 0)" "nc + (if LINE_ISSET i q then 1 else 0)"] Cons.prems
      by (auto simp: algebra_simps)
  next
    case False
    then have "np = len" "nc = len" "length (filter (\<lambda>i. LINE_ISSET i q) (i # is)) = 0" using Cons.prems(2,3) by linarith+
    then have "np = len" "nc = len" "filter (\<lambda>i. LINE_ISSET i q) (i # is) = []" by (simp_all only: length_0_conv)
    moreover have "filter (\<lambda>i. LINE_ISSET i p) (i # is) = []"
      using calculation(3) Cons.prems(1) unfolding filter_empty_conv by blast
    ultimately show ?thesis by (simp del: filter.simps)
  qed
qed simp

definition numbered :: "int \<Rightarrow> int list \<Rightarrow> (int \<times> int) list" where
  "numbered j ls = zip [j..j + int (length ls) - 1] ls"

lemma numbered_simps [simp]: "numbered j [] = []" "numbered j (l # ls) = (j, l) # numbered (j + 1) ls"
  by (simp_all add: numbered_def upto_rec1 algebra_simps)

lemma index_lines_all:
  assumes "j + int (length (filter (\<lambda>i. LINE_ISSET i q) is)) = len"
  shows "index_lines is p q len j = filter (\<lambda>(_, i). LINE_ISSET i p) (numbered j (filter (\<lambda>i. LINE_ISSET i q) is))"
  using assms
proof (induction "is" arbitrary: j)
  case (Cons i "is")
  show ?case
  proof (cases "j < len")
    case True
    then show ?thesis using Cons.IH [of j] Cons.IH [of "j + 1"] Cons.prems by (auto split: if_splits)
  next
    case False
    then have "length (filter (\<lambda>i. LINE_ISSET i q) (i # is)) = 0" using Cons.prems by linarith
    then have "filter (\<lambda>i. LINE_ISSET i q) (i # is) = []" by (simp only: length_0_conv)
    then show ?thesis using False by (simp del: filter.simps)
  qed
qed simp

lemma length_filter_numbered:
  "length (filter (\<lambda>(_, i). P i) (numbered j ls)) = length (filter P ls)"
  by (induction ls arbitrary: j) simp_all

text \<open>The lines a counter measures, in the order of the reply, and the columns of a table.\<close>

definition measured_lines :: "counter_t \<Rightarrow> int list" where
  "measured_lines ctr = filter (\<lambda>i. LINE_ISSET i (cc_lines ctr)) all_lines"

definition columns :: "line_t \<Rightarrow> counter_t \<Rightarrow> (int \<times> int) list" where
  "columns lines ctr = filter (\<lambda>(_, i). LINE_ISSET i lines) (numbered 0 (measured_lines ctr))"

lemma chosen_lines_columns:
  assumes "line_ok lines" and "line_ok (cc_lines ctr)"
    and "lines_len (energy (cc_measures ctr)) = int (length (measured_lines ctr))"
  shows "chosen_lines lines ctr = Ok (columns lines ctr, int (length (measured_lines ctr)))"
proof -
  let ?p = "LINE_AND lines (cc_lines ctr)" and ?q = "cc_lines ctr" and ?len = "lines_len (energy (cc_measures ctr))"
  note m = LINE_ISSET_AND [OF assms(1,2)]
  have c: "count_lines all_lines ?p ?q ?len 0 0 = (int (length (filter (\<lambda>i. LINE_ISSET i ?p) all_lines)), ?len)"
    using count_lines_all [of all_lines ?p ?q 0 0 ?len] assms(3) by (simp add: m measured_lines_def)
  have x: "index_lines all_lines ?p ?q ?len 0 = filter (\<lambda>(_, i). LINE_ISSET i ?p) (numbered 0 (measured_lines ctr))"
    using index_lines_all [of 0 ?q all_lines ?len ?p] assms(3) by (simp add: measured_lines_def)
  have ms: "\<forall>l \<in> snd ` set (numbered 0 (measured_lines ctr)). LINE_ISSET l ?q"
    by (auto simp: numbered_def measured_lines_def dest!: set_zip_rightD)
  then have y: "filter (\<lambda>(_, i). LINE_ISSET i ?p) (numbered 0 (measured_lines ctr)) = columns lines ctr"
    unfolding columns_def by (intro filter_cong) (auto simp: m)
  have "length (columns lines ctr) = length (filter (\<lambda>i. LINE_ISSET i ?p) all_lines)"
    by (simp add: columns_def length_filter_numbered measured_lines_def m conj_commute)
  then show ?thesis
    unfolding chosen_lines_def Let_def c x y by (simp add: assms(3))
qed

section \<open>The rows\<close>

text \<open>A row as it should be: the set, the time, the value of each column and their sum.\<close>

definition table_row :: "string \<Rightarrow> int \<Rightarrow> double \<Rightarrow> double list \<Rightarrow> string" where
  "table_row sep s t vals = to_string s @ sep @ fmt_f t @ sep @ concat (map (\<lambda>v. fmt_f v @ sep) vals) @
     fmt_f (fold (\<lambda>v acc. d_add acc v) vals d_zero) @ newline"

definition time_at :: "double \<Rightarrow> nat \<Rightarrow> double" where
  "time_at inc_time i = ((\<lambda>t. d_add t inc_time) ^^ i) d_zero"

text \<open>A set's samples, one list for each line: the rows for the columns asked for.\<close>

definition set_rows :: "string \<Rightarrow> int \<Rightarrow> double list list \<Rightarrow> nat \<Rightarrow> (int \<times> int) list \<Rightarrow> double \<Rightarrow> string" where
  "set_rows sep s blk n cols inc_time =
     concat (map (\<lambda>i. table_row sep s (time_at inc_time i) (map (\<lambda>(k, _). blk ! nat k ! i) cols)) [0..<n])"

lemma concat_nth_blocks:
  "\<forall>xs \<in> set b. length xs = n \<Longrightarrow> k < length b \<Longrightarrow> i < n \<Longrightarrow> concat b ! (i + n * k) = b ! k ! i"
proof (induction b arbitrary: k)
  case (Cons xs b)
  then show ?case by (cases k) (simp_all add: nth_append algebra_simps)
qed simp

lemma length_concat_blocks: "\<forall>xs \<in> set b. length xs = n \<Longrightarrow> length (concat b) = n * length b"
  by (induction b) simp_all

text \<open>The samples of a set within the data of all of them.\<close>

definition block_at :: "double list \<Rightarrow> nat \<Rightarrow> nat \<Rightarrow> double list list \<Rightarrow> bool" where
  "block_at ws off n blk \<longleftrightarrow> (\<forall>xs \<in> set blk. length xs = n) \<and> (\<exists>pre post. ws = pre @ concat blk @ post \<and> length pre = off)"

lemma block_rd:
  assumes "block_at ws off n blk" and "k < length blk" and "i < n"
  shows "rd ws (int off + int i + int n * int k) = Ok (blk ! k ! i)"
proof -
  obtain pre post where p: "ws = pre @ concat blk @ post" "length pre = off" "\<forall>xs \<in> set blk. length xs = n"
    using assms(1) by (auto simp: block_at_def)
  have "n * Suc k \<le> n * length blk" using assms(2) by (intro mult_le_mono2) simp
  then have "i + n * k < length (concat blk)" using assms(3) p(3) length_concat_blocks [of blk n] by simp
  moreover have "int off + int i + int n * int k = int (length pre + (i + n * k))" using p(2) by simp
  ultimately show ?thesis
    using concat_nth_blocks [OF p(3) assms(2,3)] unfolding rd_def p(1) by (simp add: nth_append del: of_nat_add)
qed

lemma line_fields_block:
  assumes "block_at ws off n blk" and "i < n" and "\<forall>(k, l) \<in> set cols. 0 \<le> k \<and> k < int (length blk)"
  shows "line_fields sep ws (int off + int i) (int n) cols sm =
    Ok (concat (map (\<lambda>v. fmt_f v @ sep) (map (\<lambda>(k, _). blk ! nat k ! i) cols)),
        fold (\<lambda>v acc. d_add acc v) (map (\<lambda>(k, _). blk ! nat k ! i) cols) sm)"
  using assms(3)
proof (induction cols arbitrary: sm)
  case (Cons c cols)
  obtain k l where c: "c = (k, l)" by force
  have "rd ws (int off + int i + int n * k) = Ok (blk ! nat k ! i)"
    using block_rd [OF assms(1) _ assms(2), of "nat k"] Cons.prems c by (simp add: nat_less_iff)
  then show ?case using Cons c by simp
qed simp

lemma line_rows_block:
  assumes "block_at ws off n blk" and "\<forall>(k, l) \<in> set cols. 0 \<le> k \<and> k < int (length blk)"
    and "i \<le> n"
  shows "line_rows sep ws s (int n) cols inc_time [int off + int i..int off + int n - 1] (time_at inc_time i) =
    Ok (concat (map (\<lambda>i. table_row sep s (time_at inc_time i) (map (\<lambda>(k, _). blk ! nat k ! i) cols)) [i..<n]))"
  using assms(3)
proof (induction "n - i" arbitrary: i)
  case 0
  then show ?case by simp
next
  case (Suc m)
  then have i: "i < n" by simp
  have t: "d_add (time_at inc_time i) inc_time = time_at inc_time (Suc i)" by (simp add: time_at_def)
  have "[int off + int i..int off + int n - 1] = (int off + int i) # [int off + int (Suc i)..int off + int n - 1]"
    using i by (subst upto_rec1) (simp_all add: algebra_simps)
  moreover have "line_rows sep ws s (int n) cols inc_time [int off + int (Suc i)..int off + int n - 1] (time_at inc_time (Suc i)) =
      Ok (concat (map (\<lambda>i. table_row sep s (time_at inc_time i) (map (\<lambda>(k, _). blk ! nat k ! i) cols)) [Suc i..<n]))"
    using Suc.hyps(1) [of "Suc i"] Suc.hyps(2) i by simp
  ultimately show ?case
    using line_fields_block [OF assms(1) i assms(2)] i t
    by (simp add: table_row_def upt_conv_Cons del: upt_Suc)
qed

lemma set_rows_block:
  assumes "block_at ws off n blk" and "\<forall>(k, l) \<in> set cols. 0 \<le> k \<and> k < int (length blk)"
  shows "line_rows sep ws s (int n) cols inc_time [int off..int off + int n - 1] d_zero = Ok (set_rows sep s blk n cols inc_time)"
  using line_rows_block [OF assms, of 0] by (simp add: set_rows_def time_at_def)

section \<open>Data laid out as the server sends it\<close>

text \<open>
  The sets' sample counts \<open>ns\<close> and their blocks, one list for each measured line; the boundaries; and a start
  and an end time for each set.
\<close>

definition bounds_of :: "nat list \<Rightarrow> int list" where
  "bounds_of ns = map (\<lambda>s. int (sum_list (take s ns))) [0..<Suc (length ns)]"

definition framed :: "pm_measures_wt \<Rightarrow> nat list \<Rightarrow> (double \<times> double) list \<Rightarrow> bool" where
  "framed m ns tms \<longleftrightarrow>
     watts_sets (energy m) = bounds_of ns \<and> watts_sets_size (energy m) = int (length ns) + 1 \<and>
     length tms = length ns \<and> 2 * length ns \<le> length (timing m) \<and>
     (\<forall>s < length ns. timing m ! (2 * s) = Some (fst (tms ! s)) \<and> timing m ! (2 * s + 1) = Some (snd (tms ! s))) \<and>
     sum_list ns < 2147483648"

definition laid_out :: "pm_measures \<Rightarrow> nat list \<Rightarrow> nat \<Rightarrow> double list list list \<Rightarrow> bool" where
  "laid_out e ns k blks \<longleftrightarrow> lines_len e = int k \<and> watts e = concat (map concat blks) \<and> length blks = length ns \<and>
     (\<forall>s < length ns. length (blks ! s) = k \<and> (\<forall>xs \<in> set (blks ! s). length xs = ns ! s))"

text \<open>Duration of a set and distance of its samples.\<close>

definition duration :: "double \<times> double \<Rightarrow> double" where
  "duration t = d_sub (snd t) (fst t)"

definition spacing :: "nat \<Rightarrow> double \<times> double \<Rightarrow> double" where
  "spacing n t = d_div (duration t) (d_of_int (int n - 1))"

lemma bounds_nth: "s \<le> length ns \<Longrightarrow> rd (bounds_of ns) (int s) = Ok (int (sum_list (take s ns)))"
  by (simp add: rd_def bounds_of_def del: upt_Suc)

lemma take_sum_le: "sum_list (take s ns) \<le> sum_list (ns :: nat list)"
  by (metis append_take_drop_id le_add1 sum_list_append)

lemma set_frame_framed:
  assumes "framed m ns tms" and "s < length ns"
  shows "set_frame m (int s) = Ok (int (sum_list (take s ns)), int (sum_list (take s ns) + ns ! s),
    duration (tms ! s), spacing (ns ! s) (tms ! s))"
proof -
  have sum: "sum_list (take (Suc s) ns) = sum_list (take s ns) + ns ! s" using assms(2) by (simp add: take_Suc_conv_app_nth)
  have b: "rd (watts_sets (energy m)) (int s) = Ok (int (sum_list (take s ns)))"
      "rd (watts_sets (energy m)) (int s + 1) = Ok (int (sum_list (take s ns) + ns ! s))"
    using bounds_nth [of s ns] bounds_nth [of "Suc s" ns] assms sum by (simp_all add: framed_def add.commute)
  have "2 * s + 1 < length (timing m)" "timing m ! (2 * s) = Some (fst (tms ! s))" "timing m ! (2 * s + 1) = Some (snd (tms ! s))"
    using assms by (auto simp: framed_def)
  then have t: "rd_time (timing m) (int s * 2) = Ok (fst (tms ! s))" "rd_time (timing m) (int s * 2 + 1) = Ok (snd (tms ! s))"
    by (simp_all add: rd_time_def rd_def nat_mult_distrib nat_add_distrib mult.commute)
  have "sum_list (take (Suc s) ns) < 2147483648" using assms(1) take_sum_le [of "Suc s" ns] by (simp add: framed_def)
  then show ?thesis
    using sum by (simp add: set_frame_def b t int_sub_def is_i32_def Let_def duration_def spacing_def)
qed

lemma block_laid_out:
  assumes "laid_out e ns k blks" and "s < length ns"
  shows "block_at (watts e) (k * sum_list (take s ns)) (ns ! s) (blks ! s)"
proof -
  have l: "length blks = length ns" "watts e = concat (map concat blks)"
      "\<And>s. s < length ns \<Longrightarrow> length (blks ! s) = k \<and> (\<forall>xs \<in> set (blks ! s). length xs = ns ! s)"
    using assms(1) by (auto simp: laid_out_def)
  have "length (concat (map concat (take s blks))) = k * sum_list (take s ns)" if "s \<le> length ns" for s
    using that
  proof (induction s)
    case (Suc s)
    then show ?case using l(1,3) length_concat_blocks [of "blks ! s" "ns ! s"]
      by (simp add: take_Suc_conv_app_nth algebra_simps)
  qed simp
  moreover have "watts e = concat (map concat (take s blks)) @ concat (blks ! s) @ concat (map concat (drop (Suc s) blks))"
    using assms(2) l(1) id_take_nth_drop [of s blks] unfolding l(2)
    by (metis concat.simps(2) concat_append list.simps(9) map_append)
  ultimately show ?thesis using l(3) assms(2) unfolding block_at_def by (meson less_imp_le)
qed

text \<open>Every column of a table is a line of the reply.\<close>

lemma columns_range:
  assumes "length blk = length (measured_lines ctr)"
  shows "\<forall>(k, l) \<in> set (columns lines ctr). 0 \<le> k \<and> k < int (length blk)"
proof -
  have "0 \<le> k \<and> k < int (length ls)" if "(k, l) \<in> set (numbered 0 ls)" for k l ls
    using set_zip_leftD [OF that [unfolded numbered_def]] by simp
  then show ?thesis using assms by (auto simp: columns_def)
qed

lemma total_framed: "framed m ns tms \<Longrightarrow> total_interval (energy m) = Ok (int (sum_list ns))"
  using bounds_nth [of "length ns" ns] bounds_nth [of 0 ns]
  by (auto simp: framed_def total_interval_def int_sub_def is_i32_def)

lemma all_sets: "framed m ns tms \<Longrightarrow> sets_range (- 1) (energy m) = Some (0, int (length ns))"
  by (simp add: framed_def sets_range_def)

lemma single_set: "framed m ns tms \<Longrightarrow> s < length ns \<Longrightarrow> sets_range (int s) (energy m) = Some (int s, int s + 1)"
  by (simp add: framed_def sets_range_def)

definition all_rows :: "string \<Rightarrow> nat list \<Rightarrow> double list list list \<Rightarrow> (double \<times> double) list \<Rightarrow> (int \<times> int) list \<Rightarrow> nat list \<Rightarrow> string" where
  "all_rows sep ns blks tms cols ss =
     concat (map (\<lambda>s. set_rows sep (int s) (blks ! s) (ns ! s) cols (spacing (ns ! s) (tms ! s))) ss)"

lemma text_sets_rows:
  assumes f: "framed m ns tms" and l: "laid_out (energy m) ns k blks"
    and c: "\<And>blk. length blk = k \<Longrightarrow> \<forall>(j, l) \<in> set cols. 0 \<le> j \<and> j < int (length (blk :: double list list))"
    and "s \<le> length ns"
  shows "text_sets m cols (int k) [int s..int (length ns) - 1] (int (k * sum_list (take s ns))) =
    Ok (all_rows tab ns blks tms cols [s..<length ns])"
  using assms(4)
proof (induction "length ns - s" arbitrary: s)
  case 0
  then show ?case by (simp add: all_rows_def)
next
  case (Suc d)
  then have s: "s < length ns" by simp
  have b: "block_at (watts (energy m)) (k * sum_list (take s ns)) (ns ! s) (blks ! s)" "length (blks ! s) = k"
    using block_laid_out [OF l s] l s by (auto simp: laid_out_def)
  have off: "int (k * sum_list (take s ns)) + int k * int (ns ! s) = int (k * sum_list (take (Suc s) ns))"
    using s by (simp add: take_Suc_conv_app_nth algebra_simps)
  have IH: "text_sets m cols (int k) [int (Suc s)..int (length ns) - 1] (int (k * sum_list (take (Suc s) ns))) =
      Ok (all_rows tab ns blks tms cols [Suc s..<length ns])"
    using Suc.hyps(1) [of "Suc s"] Suc.hyps(2) s by simp
  have "[int s..int (length ns) - 1] = int s # [int (Suc s)..int (length ns) - 1]"
    using s by (subst upto_rec1) (simp_all add: algebra_simps)
  then show ?case
    using set_frame_framed [OF f s] set_rows_block [OF b(1) c [OF b(2)], of tab "int s"] IH off s
    by (simp add: all_rows_def upt_conv_Cons del: upt_Suc of_nat_mult of_nat_Suc)
qed

lemma text_table_all:
  assumes "framed (cc_measures ctr) ns tms" and "laid_out (energy (cc_measures ctr)) ns (length (measured_lines ctr)) blks"
    and "cc_aggregate ctr = 0" and "line_ok lines" and "line_ok (cc_lines ctr)"
  shows "pm_print_data_text True ctr lines (- 1) = Ok (1, lines_heading tab (columns lines ctr) @
    all_rows tab ns blks tms (columns lines ctr) [0..<length ns])"
proof -
  have "lines_len (energy (cc_measures ctr)) = int (length (measured_lines ctr))" using assms(2) by (simp add: laid_out_def)
  note ch = chosen_lines_columns [OF assms(4,5) this]
  show ?thesis
    using text_sets_rows [where cols = "columns lines ctr" and s = 0, OF assms(1,2) columns_range]
    by (simp add: pm_print_data_text_def Let_def all_sets [OF assms(1)] assms(3) to_file_def ch total_framed [OF assms(1)])
qed


text \<open>A counter on line 0 with two sets of one and two samples.\<close>

definition two_sets :: "int \<Rightarrow> counter_t" where
  "two_sets aggregate = \<lparr>cc_aggregate = aggregate, cc_lines = LINE_SET 0 LINE_CLR_ALL, cc_num_lines = 1, cc_interval = 1,
     cc_measures = \<lparr>next_timing = 2, timing = [Some 1, Some 2, Some 3, Some 4],
       energy = \<lparr>watts_size = 3, watts_sets_size = 3, watts_sets = [0, 1, 3], watts = [7, 8, 9], lines_len = 1\<rparr>\<rparr>\<rparr>"

lemma line_zero: "line_ok (LINE_SET 0 LINE_CLR_ALL)" "LINE_ISSET i (LINE_SET 0 LINE_CLR_ALL) \<longleftrightarrow> i = 0"
  using line_set.fold_add [OF line_set.ok_empty, of "[0]" i] line_set.member_of_list [of i "[0]"] by auto

lemma two_sets_lines: "measured_lines (two_sets a) = [0]"
proof -
  have "all_lines = 0 # map int [1..<NLINEBITS]" unfolding all_lines_def NLINEBITS_def
    by (subst upt_conv_Cons) simp_all
  moreover have "filter (\<lambda>i. i = 0) (map int [1..<NLINEBITS]) = []" by (auto simp: filter_empty_conv)
  ultimately have "filter (\<lambda>i. i = 0) all_lines = [0]" by - (erule ssubst, simp only: filter.simps if_True refl)
  then show ?thesis by (simp add: measured_lines_def two_sets_def line_zero)
qed

lemma two_sets_framed: "framed (cc_measures (two_sets a)) [1, 2] [(1, 2), (3, 4)]"
  by (simp add: framed_def two_sets_def bounds_of_def All_less_Suc2)

lemma two_sets_laid_out: "laid_out (energy (cc_measures (two_sets a))) [1, 2] 1 [[[7]], [[8, 9]]]"
  by (simp add: laid_out_def two_sets_def All_less_Suc2)


text \<open>
  The CSV table and the one on the standard output show the same of a counter with one set; for several sets they
  do not (\<open>csv_two_sets\<close>).
\<close>

lemma plain_tables:
  assumes "framed (cc_measures ctr) [n] [t]" and "laid_out (energy (cc_measures ctr)) [n] (length (measured_lines ctr)) [blk]"
    and "cc_aggregate ctr = 0" and "line_ok lines" and "line_ok (cc_lines ctr)"
  shows "pm_print_data_csv True ctr lines (- 1) = Ok (1, lines_heading '';'' (columns lines ctr) @
      set_rows '';'' 0 blk n (columns lines ctr) (spacing n t)) \<and>
    pm_print_data_stdout ctr lines (- 1) = Ok (1, lines_heading tab (columns lines ctr) @
      set_rows tab 0 blk n (columns lines ctr) (spacing n t))"
proof -
  let ?m = "cc_measures ctr" and ?cols = "columns lines ctr"
  have "lines_len (energy ?m) = int (length (measured_lines ctr))" "length blk = length (measured_lines ctr)"
    using assms(2) by (simp_all add: laid_out_def)
  note ch = chosen_lines_columns [OF assms(4,5) this(1)] and cr = columns_range [OF this(2), of lines]
  have fr: "set_frame ?m 0 = Ok (0, int n, duration t, spacing n t)" using set_frame_framed [OF assms(1), of 0] by simp
  have b: "block_at (watts (energy ?m)) 0 n blk" using block_laid_out [OF assms(2), of 0] by simp
  have "plain_sets sep ?m ?cols (int n) [0..0] = Ok (set_rows sep 0 blk n ?cols (spacing n t))" for sep
    using set_rows_block [OF b cr, of sep 0 "spacing n t"] by (simp add: plain_sets_def fr)
  then show ?thesis
    using total_framed [OF assms(1)] all_sets [OF assms(1)]
    by (simp_all add: pm_print_data_csv_def pm_print_data_stdout_def Let_def assms(3) to_file_def ch)
qed

definition one_set :: "int \<Rightarrow> counter_t" where
  "one_set aggregate = \<lparr>cc_aggregate = aggregate, cc_lines = LINE_SET 0 LINE_CLR_ALL, cc_num_lines = 1, cc_interval = 1,
     cc_measures = \<lparr>next_timing = 1, timing = [Some 1, Some 2, None],
       energy = \<lparr>watts_size = 1, watts_sets_size = 2, watts_sets = [0, 1], watts = [7], lines_len = 1\<rparr>\<rparr>\<rparr>"

lemma one_set_facts:
  "framed (cc_measures (one_set 0)) [1] [(1, 2)]" "cc_aggregate (one_set 0) = 0" "line_ok (cc_lines (one_set 0))"
  "laid_out (energy (cc_measures (one_set 0))) [1] (length (measured_lines (one_set 0))) [[[7]]]"
  "columns (LINE_SET 0 LINE_CLR_ALL) (one_set 0) = [(0, 0)]" "next_timing (cc_measures (one_set 0)) = 1"
proof -
  have l: "measured_lines (one_set 0) = [0]"
    using two_sets_lines [of 0] by (simp add: measured_lines_def two_sets_def one_set_def)
  show "framed (cc_measures (one_set 0)) [1] [(1, 2)]" "cc_aggregate (one_set 0) = 0" "line_ok (cc_lines (one_set 0))"
      "laid_out (energy (cc_measures (one_set 0))) [1] (length (measured_lines (one_set 0))) [[[7]]]"
      "next_timing (cc_measures (one_set 0)) = 1"
    by (simp_all add: framed_def laid_out_def one_set_def bounds_of_def line_zero l [unfolded one_set_def])
  show "columns (LINE_SET 0 LINE_CLR_ALL) (one_set 0) = [(0, 0)]"
    by (simp add: columns_def l line_zero)
qed

text \<open>
  With several sets the stride is the length of all of them, but each set's blocks are only as long as the
  set: the row of the first set of two lines shows a sample of the second set for the second line.
\<close>

lemma csv_two_sets:
  assumes "ws = concat (map concat [[[a], [b]], [[c], [d]]])"
  shows "line_fields '';'' ws 0 2 [(0, l0), (1, l1)] d_zero = Ok (fmt_f a @ '';'' @ fmt_f c @ '';'', d_add (d_add d_zero a) c)"
    and "line_fields tab ws 0 1 [(0, l0), (1, l1)] d_zero = Ok (fmt_f a @ tab @ fmt_f b @ tab, d_add (d_add d_zero a) b)"
  by (simp_all add: assms rd_def)

section \<open>Energy\<close>

lemma add_range_slice:
  assumes "a + n \<le> length ws"
  shows "add_range ws [int a..int a + int n - 1] sm = Ok (fold (\<lambda>w acc. d_add acc w) (take n (drop a ws)) sm)"
  using assms
proof (induction n arbitrary: a sm)
  case (Suc n)
  have "[int a..int a + int (Suc n) - 1] = int a # [int (Suc a)..int (Suc a) + int n - 1]"
    by (subst upto_rec1) (simp_all add: algebra_simps)
  moreover have "drop a ws = ws ! a # drop (Suc a) ws" using Suc.prems by (simp add: Cons_nth_drop_Suc)
  moreover have "rd ws (int a) = Ok (ws ! a)" using Suc.prems by (simp add: rd_def)
  ultimately show ?case using Suc.IH [of "Suc a"] Suc.prems by (simp del: of_nat_Suc)
qed simp

text \<open>The samples of a set of an aggregating counter, and what one round of the loop makes of a sum.\<close>

definition set_samples :: "double list \<Rightarrow> nat list \<Rightarrow> nat \<Rightarrow> double list" where
  "set_samples ws ns s = take (ns ! s) (drop (sum_list (take s ns)) ws)"

definition mean_from :: "double \<Rightarrow> double list \<Rightarrow> double" where
  "mean_from sm xs = d_div (fold (\<lambda>w acc. d_add acc w) xs sm) (d_of_int (int (length xs)))"

lemma set_fits: "s < length ns \<Longrightarrow> sum_list (take s ns) + ns ! s \<le> sum_list (ns :: nat list)"
  using take_sum_le [of "Suc s" ns] by (simp add: take_Suc_conv_app_nth)

lemma energy_set:
  assumes "framed m ns tms" and "length (watts (energy m)) = sum_list ns" and "s < length ns"
  shows "energy_sets m (int s # ss) t sm =
    energy_sets m ss (Some (duration (tms ! s))) (mean_from sm (set_samples (watts (energy m)) ns s))"
proof -
  have l: "length (set_samples (watts (energy m)) ns s) = ns ! s"
    using set_fits [OF assms(3)] assms(2) by (simp add: set_samples_def)
  then show ?thesis
    using set_frame_framed [OF assms(1,3)] add_range_slice [of "sum_list (take s ns)" "ns ! s" "watts (energy m)" sm]
      set_fits [OF assms(3)] assms(2)
    by (simp add: mean_from_def set_samples_def)
qed


lemma energy_carried:
  assumes "framed (cc_measures ctr) [n1, n2] [t1, t2]" and "length (watts (energy (cc_measures ctr))) = n1 + n2"
    and "cc_aggregate ctr \<noteq> 0"
    and "avg = mean_from (mean_from d_zero (take n1 (watts (energy (cc_measures ctr))))) (drop n1 (watts (energy (cc_measures ctr))))"
  shows "pm_calculate_energy ctr lines (- 1) =
    Ok (1, fmt_f (duration t2) @ tab @ fmt_f avg @ tab @ fmt_f (d_mul (duration t2) avg) @ newline)"
proof -
  have l: "length (watts (energy (cc_measures ctr))) = sum_list [n1, n2]" using assms(2) by simp
  have "[0..1::int] = [0, 1]" by (simp add: upto_rec1)
  then show ?thesis
    using energy_set [OF assms(1) l, of 0] energy_set [OF assms(1) l, of 1] assms
    by (simp add: pm_calculate_energy_def Let_def all_sets [OF assms(1)] set_samples_def del: energy_sets.simps(2))
qed


end
