(* ===== verification/Client_Report.thy ===== *)
theory Client_Report
  imports Client_Server Client_Tables
begin

text \<open>
  A client's whole measurement: the time stamps its calls leave in the counter, and the table it prints of
  the samples the server sent.
\<close>

section \<open>Time stamps\<close>

text \<open>
  \<open>stamped m tms t\<close>: the timing array holds a start and an end for each completed lap in \<open>tms\<close>, and \<open>t\<close> is the
  start of the lap in progress, if there is one.
\<close>

definition stamped :: "pm_measures_wt \<Rightarrow> (double \<times> double) list \<Rightarrow> double option \<Rightarrow> bool" where
  "stamped m tms t \<longleftrightarrow> next_timing m = int (length tms) \<and> length (timing m) = TIMELEN \<and> 2 * length tms \<le> TIMELEN \<and>
     (\<forall>i < length tms. timing m ! (2 * i) = Some (fst (tms ! i)) \<and> timing m ! (2 * i + 1) = Some (snd (tms ! i))) \<and>
     (case t of None \<Rightarrow> True | Some a \<Rightarrow> 2 * length tms < TIMELEN \<and> timing m ! (2 * length tms) = Some a)"

abbreviation measures_of :: "client \<Rightarrow> pm_measures_wt" where
  "measures_of cl \<equiv> cc_measures (cl_counter cl)"

lemma start_stamps:
  assumes "pm_start_counter now cl = (Ok r, cl')" and "length (timing (measures_of cl)) = TIMELEN"
  shows "stamped (measures_of cl') [] (Some (time_of now))"
  using assms
  by (auto simp: pm_start_counter_def bind_p_def via_sock_def then_p_def upd_measures_def set_timing_def stamped_def TIMELEN_def
      split: prod.splits res.splits if_splits)

lemma stamped_lap:
  assumes "stamped m tms (Some a)"
  shows "stamped (m\<lparr>timing := (timing m)[nat (next_timing m * 2 + 1) := Some b], next_timing := next_timing m + 1\<rparr>)
    (tms @ [(a, b)]) None"
proof -
  have n: "nat (next_timing m * 2 + 1) = 2 * length tms + 1" using assms by (simp add: stamped_def nat_add_distrib nat_mult_distrib mult.commute)
  have e: "2 * length tms < TIMELEN" "even TIMELEN" using assms by (simp_all add: stamped_def TIMELEN_def)
  then have l: "2 * length tms + 1 < TIMELEN" by (metis Suc_eq_plus1 Suc_lessI dvd_triv_left even_Suc)
  show ?thesis
    using assms l unfolding stamped_def n
    by (auto simp: nth_list_update nth_append less_Suc_eq)
qed

lemma stop_stamps:
  assumes "pm_stop_counter now cl = (Ok r, cl')" and "stamped (measures_of cl) tms (Some a)"
  shows "stamped (measures_of cl') (tms @ [(a, time_of now)]) None"
proof -
  have "measures_of cl' = (measures_of cl)
      \<lparr>timing := (timing (measures_of cl))[nat (next_timing (measures_of cl) * 2 + 1) := Some (time_of now)],
       next_timing := next_timing (measures_of cl) + 1\<rparr>"
    using assms(1)
    by (auto simp: pm_stop_counter_def bind_p_def via_sock_def then_p_def upd_measures_def set_timing_def
      split: prod.splits res.splits if_splits)
  then show ?thesis using stamped_lap [OF assms(2), of "time_of now"] by auto
qed

lemma continue_stamps:
  assumes "pm_continue_counter now cl = (Ok r, cl')" and "stamped (measures_of cl) tms None"
  shows "stamped (measures_of cl') tms (Some (time_of now))"
  using assms
  by (auto simp: pm_continue_counter_def bind_p_def via_sock_def then_p_def upd_measures_def set_timing_def stamped_def
      nat_mult_distrib mult.commute nth_list_update split: prod.splits res.splits if_splits)

section \<open>Laps\<close>

text \<open>A program that measures: the clock readings around each lap.\<close>

type_synonym lap = "(int \<times> int) \<times> (int \<times> int)"

fun more_laps :: "lap list \<Rightarrow> (client, unit) prog" where
  "more_laps [] = ret_p ()"
| "more_laps ((a, b) # ts) = then_p (pm_continue_counter a) (then_p (pm_stop_counter b) (more_laps ts))"

fun laps :: "lap list \<Rightarrow> (client, unit) prog" where
  "laps [] = ret_p ()"
| "laps ((a, b) # ts) = then_p (pm_start_counter a) (then_p (pm_stop_counter b) (more_laps ts))"

definition lap_times :: "lap list \<Rightarrow> (double \<times> double) list" where
  "lap_times ts = map (\<lambda>(a, b). (time_of a, time_of b)) ts"

text \<open>One request of a client whose server agrees.\<close>

definition agreeing :: "nat \<Rightarrow> client \<Rightarrow> bool" where
  "agreeing n cl \<longleftrightarrow> cs_room (cl_sock cl) = None \<and>
     (\<exists>rest. delivers (replicate n (int_bytes (retval_code SUCCESS)) @ rest) (cs_segments (cl_sock cl)))"

definition same_data :: "client \<Rightarrow> client \<Rightarrow> bool" where
  "same_data cl cl' \<longleftrightarrow> cc_aggregate (cl_counter cl') = cc_aggregate (cl_counter cl) \<and>
     cc_lines (cl_counter cl') = cc_lines (cl_counter cl) \<and> cc_num_lines (cl_counter cl') = cc_num_lines (cl_counter cl) \<and>
     cc_interval (cl_counter cl') = cc_interval (cl_counter cl) \<and> energy (measures_of cl') = energy (measures_of cl)"

lemma same_data_refl: "same_data cl cl" and same_data_trans: "same_data a b \<Longrightarrow> same_data b c \<Longrightarrow> same_data a c"
  by (simp_all add: same_data_def)

lemma request_agreed:
  assumes "agreeing (Suc n) cl"
  obtains s where "via_sock (simple_request op e1 e2 e3) cl = (Ok 0, cl\<lparr>cl_sock := s\<rparr>)" and "agreeing n (cl\<lparr>cl_sock := s\<rparr>)"
    and "cs_sent s = cs_sent (cl_sock cl) @ int_bytes (op_code op)"
proof -
  obtain rest where d: "cs_room (cl_sock cl) = None"
      "delivers ([int_bytes 0] @ replicate n (int_bytes 0) @ rest) (cs_segments (cl_sock cl))"
    using assms by (auto simp: agreeing_def)
  have g: "gets [int_bytes 0] (recv_natural e2 e3) 0" by (rule gets_natural) (simp_all add: is_i32_def)
  obtain segs' where s: "simple_request op e1 e2 e3 (cl_sock cl) =
      (Ok 0, (cl_sock cl)\<lparr>cs_sent := cs_sent (cl_sock cl) @ int_bytes (op_code op), cs_segments := segs'\<rparr>)"
      "delivers (replicate n (int_bytes 0) @ rest) segs'"
    unfolding simple_request_def by (rule asks [OF d(1) g d(2)])
  show ?thesis
    by (rule that [of "(cl_sock cl)\<lparr>cs_sent := cs_sent (cl_sock cl) @ int_bytes (op_code op), cs_segments := segs'\<rparr>"])
      (use d(1) s in \<open>auto simp: via_sock_def agreeing_def\<close>)
qed

lemma start_agreed:
  assumes "agreeing (Suc n) cl" and "length (timing (measures_of cl)) = TIMELEN"
  obtains cl' where "pm_start_counter a cl = (Ok 0, cl')" and "agreeing n cl'" and "same_data cl cl'"
    and "cs_sent (cl_sock cl') = cs_sent (cl_sock cl) @ int_bytes (op_code START)"
    and "stamped (measures_of cl') [] (Some (time_of a))"
proof -
  obtain s where s: "via_sock (simple_request START ''Mismatch in number of sent bytes in start counter''
       ''Failed to receive bytes from server in start counter'' ''PM sever unable start counter'') cl = (Ok 0, cl\<lparr>cl_sock := s\<rparr>)"
      "agreeing n (cl\<lparr>cl_sock := s\<rparr>)" "cs_sent s = cs_sent (cl_sock cl) @ int_bytes (op_code START)"
    using request_agreed [OF assms(1)] by metis
  have "\<exists>cl'. pm_start_counter a cl = (Ok 0, cl') \<and> agreeing n cl' \<and> same_data cl cl' \<and> cl_sock cl' = s"
    using s(2) assms(2) unfolding pm_start_counter_def bind_p_def s(1)
    by (auto simp: then_p_def bind_p_def upd_measures_def set_timing_def TIMELEN_def agreeing_def same_data_def)
  then show ?thesis using that s(3) start_stamps [OF _ assms(2)] by metis
qed

lemma continue_agreed:
  assumes "agreeing (Suc n) cl" and "stamped (measures_of cl) tms None" and "2 * length tms < TIMELEN"
  obtains cl' where "pm_continue_counter a cl = (Ok 0, cl')" and "agreeing n cl'" and "same_data cl cl'"
    and "cs_sent (cl_sock cl') = cs_sent (cl_sock cl) @ int_bytes (op_code CONTINUE)"
    and "stamped (measures_of cl') tms (Some (time_of a))"
proof -
  obtain s where s: "via_sock (simple_request CONTINUE ''Mismatch in number of sent bytes in restart counter''
       ''Failed to receive bytes from server in restart counter'' ''PM sever unable to restart counter'') cl = (Ok 0, cl\<lparr>cl_sock := s\<rparr>)"
      "agreeing n (cl\<lparr>cl_sock := s\<rparr>)" "cs_sent s = cs_sent (cl_sock cl) @ int_bytes (op_code CONTINUE)"
    using request_agreed [OF assms(1)] by metis
  have "\<exists>cl'. pm_continue_counter a cl = (Ok 0, cl') \<and> agreeing n cl' \<and> same_data cl cl' \<and> cl_sock cl' = s"
    using s(2) assms(2,3) unfolding pm_continue_counter_def bind_p_def s(1)
    by (auto simp: then_p_def bind_p_def upd_measures_def set_timing_def agreeing_def same_data_def stamped_def)
  then show ?thesis using that s(3) continue_stamps [OF _ assms(2)] by metis
qed

lemma stop_agreed:
  assumes "agreeing (Suc n) cl" and "stamped (measures_of cl) tms (Some b)"
  obtains cl' where "pm_stop_counter a cl = (Ok 0, cl')" and "agreeing n cl'" and "same_data cl cl'"
    and "cs_sent (cl_sock cl') = cs_sent (cl_sock cl) @ int_bytes (op_code STOP)"
    and "stamped (measures_of cl') (tms @ [(b, time_of a)]) None"
proof -
  let ?m = "(measures_of cl)\<lparr>timing := (timing (measures_of cl))[nat (next_timing (measures_of cl) * 2 + 1) := Some (time_of a)],
    next_timing := next_timing (measures_of cl) + 1\<rparr>"
  let ?cl = "cl\<lparr>cl_counter := (cl_counter cl)\<lparr>cc_measures := ?m\<rparr>\<rparr>"
  have "even TIMELEN" by (simp add: TIMELEN_def)
  then have l: "2 * length tms + 1 < TIMELEN" using assms(2) by (auto simp: stamped_def) (metis Suc_lessI dvd_triv_left even_Suc)
  have u: "upd_measures (\<lambda>m. bind_r (set_timing (next_timing m * 2 + 1) (time_of a) m) (\<lambda>m'.
       Ok (m'\<lparr>next_timing := next_timing m' + 1\<rparr>))) cl = (Ok (), ?cl)"
    using assms(2) l by (auto simp: upd_measures_def set_timing_def stamped_def)
  have "agreeing (Suc n) ?cl" using assms(1) by (simp add: agreeing_def)
  then obtain s where s: "via_sock (simple_request STOP ''Mismatch in number of sent bytes in stop counter''
       ''Failed to receive bytes from server in stop counter'' ''PM sever unable stop counter'') ?cl = (Ok 0, ?cl\<lparr>cl_sock := s\<rparr>)"
      "agreeing n (?cl\<lparr>cl_sock := s\<rparr>)" "cs_sent s = cs_sent (cl_sock ?cl) @ int_bytes (op_code STOP)"
    by (rule request_agreed)
  have r: "pm_stop_counter a cl = (Ok 0, ?cl\<lparr>cl_sock := s\<rparr>)"
    unfolding pm_stop_counter_def then_p_def bind_p_def u by (simp add: s(1))
  show ?thesis
    by (rule that [OF r s(2)]) (use s(3) stop_stamps [OF r assms(2)] in \<open>simp_all add: same_data_def\<close>)
qed

lemma more_laps_agreed:
  assumes "agreeing (2 * length ts) cl" and "stamped (measures_of cl) tms None" and "2 * (length tms + length ts) \<le> TIMELEN"
  shows "\<exists>cl'. more_laps ts cl = (Ok (), cl') \<and> same_data cl cl' \<and> stamped (measures_of cl') (tms @ lap_times ts) None"
  using assms
proof (induction ts arbitrary: cl tms)
  case Nil
  then show ?case by (simp add: lap_times_def same_data_refl)
next
  case (Cons t ts)
  obtain a b where t: "t = (a, b)" by (cases t)
  have len: "2 * length tms < TIMELEN" "agreeing (Suc (Suc (2 * length ts))) cl" using Cons.prems by simp_all
  obtain c1 where c1: "pm_continue_counter a cl = (Ok 0, c1)" "agreeing (Suc (2 * length ts)) c1" "same_data cl c1"
      "stamped (measures_of c1) tms (Some (time_of a))"
    using continue_agreed [OF len(2) Cons.prems(2) len(1)] by metis
  obtain c2 where c2: "pm_stop_counter b c1 = (Ok 0, c2)" "agreeing (2 * length ts) c2" "same_data c1 c2"
      "stamped (measures_of c2) (tms @ [(time_of a, time_of b)]) None"
    using stop_agreed [OF c1(2,4)] by metis
  obtain cl' where "more_laps ts c2 = (Ok (), cl')" "same_data c2 cl'"
      "stamped (measures_of cl') ((tms @ [(time_of a, time_of b)]) @ lap_times ts) None"
    using Cons.IH [OF c2(2,4)] Cons.prems(3) by auto
  moreover have "same_data cl cl'" using same_data_trans [OF same_data_trans [OF c1(3) c2(3)]] calculation(2) by blast
  ultimately show ?case using c1(1) c2(1) by (simp add: t then_p_def bind_p_def lap_times_def)
qed

lemma laps_agreed:
  assumes "agreeing (2 * length ts) cl" and "length (timing (measures_of cl)) = TIMELEN" and "ts \<noteq> []"
    and "2 * length ts \<le> TIMELEN"
  shows "\<exists>cl'. laps ts cl = (Ok (), cl') \<and> same_data cl cl' \<and> stamped (measures_of cl') (lap_times ts) None"
proof -
  obtain a b us where ts: "ts = (a, b) # us" using assms(3) by (metis neq_Nil_conv surj_pair)
  have len: "agreeing (Suc (Suc (2 * length us))) cl" using assms(1) ts by simp
  obtain c1 where c1: "pm_start_counter a cl = (Ok 0, c1)" "agreeing (Suc (2 * length us)) c1" "same_data cl c1"
      "stamped (measures_of c1) [] (Some (time_of a))"
    using start_agreed [OF len assms(2)] by metis
  obtain c2 where c2: "pm_stop_counter b c1 = (Ok 0, c2)" "agreeing (2 * length us) c2" "same_data c1 c2"
      "stamped (measures_of c2) ([] @ [(time_of a, time_of b)]) None"
    using stop_agreed [OF c1(2,4)] by metis
  obtain cl' where "more_laps us c2 = (Ok (), cl')" "same_data c2 cl'"
      "stamped (measures_of cl') (([] @ [(time_of a, time_of b)]) @ lap_times us) None"
    using more_laps_agreed [OF c2(2,4)] assms(4) ts by auto
  moreover have "same_data cl cl'" using same_data_trans [OF same_data_trans [OF c1(3) c2(3)]] calculation(2) by blast
  ultimately show ?thesis using c1(1) c2(1) by (simp add: ts then_p_def bind_p_def lap_times_def)
qed

text \<open>
  C17: A client whose server agrees can time up to 5000 laps: after start and stop, and continue and stop for each
  further lap, every lap's clock readings are where the reports look for them, and nothing else of the counter changed.
\<close>

theorem laps_recorded:
  assumes "agreeing (2 * length ts) cl" and "length (timing (cc_measures (cl_counter cl))) = TIMELEN" and "ts \<noteq> []"
    and "length ts \<le> 5000"
  shows "\<exists>cl'. laps ts cl = (Ok (), cl') \<and> next_timing (cc_measures (cl_counter cl')) = int (length ts) \<and>
    (\<forall>i < length ts. timing (cc_measures (cl_counter cl')) ! (2 * i) = Some (time_of (fst (ts ! i))) \<and>
       timing (cc_measures (cl_counter cl')) ! (2 * i + 1) = Some (time_of (snd (ts ! i)))) \<and>
    energy (cc_measures (cl_counter cl')) = energy (cc_measures (cl_counter cl))"
proof -
  have "2 * length ts \<le> TIMELEN" using assms(4) by (simp add: TIMELEN_def)
  from laps_agreed [OF assms(1-3) this] obtain cl' where c: "laps ts cl = (Ok (), cl')" "same_data cl cl'"
      "stamped (measures_of cl') (lap_times ts) None"
    by blast
  then show ?thesis by (auto simp: stamped_def same_data_def lap_times_def case_prod_unfold)
qed

text \<open>An instance: two laps, the four answers in one segment.\<close>

theorem laps_recorded_witness:
  "\<exists>cl'. laps [((1, 0), (2, 0)), ((5, 0), (7, 0))] (demo_asker\<lparr>cl_sock := \<lparr>cs_segments = [concat (replicate 4 (int_bytes 0))],
       cs_sent = [], cs_room = None\<rparr>\<rparr>) = (Ok (), cl') \<and>
     timing (cc_measures (cl_counter cl')) ! 3 = Some (time_of (7, 0))"
proof -
  let ?cl = "demo_asker\<lparr>cl_sock := \<lparr>cs_segments = [concat (replicate 4 (int_bytes 0))], cs_sent = [], cs_room = None\<rparr>\<rparr>"
  let ?ts = "[((1, 0), (2, 0)), ((5, 0), (7, 0))] :: lap list"
  have "delivers (replicate 4 (int_bytes 0) @ []) (cs_segments (cl_sock ?cl))"
    using delivers_together [of "replicate 4 (int_bytes 0)"] by simp
  then have "agreeing (2 * length ?ts) ?cl" by (auto simp: agreeing_def simp del: append_Nil2)
  moreover have "length (timing (cc_measures (cl_counter ?cl))) = TIMELEN" by (simp add: demo_asker_def no_measures_def)
  moreover have "?ts \<noteq> []" "length ?ts \<le> 5000" by simp_all
  ultimately obtain cl' where c: "laps ?ts ?cl = (Ok (), cl')"
      "\<forall>i < length ?ts. timing (cc_measures (cl_counter cl')) ! (2 * i) = Some (time_of (fst (?ts ! i))) \<and>
       timing (cc_measures (cl_counter cl')) ! (2 * i + 1) = Some (time_of (snd (?ts ! i)))"
    using laps_recorded [of ?ts ?cl] by blast
  show ?thesis
    by (rule exI, rule conjI [OF c(1)]) (use c(2) [rule_format, of 1] in simp)
qed

section \<open>The report\<close>

lemma framed_one:
  assumes "stamped m [t] None" and "n < 2147483648"
  shows "framed (m\<lparr>energy := one_set_data ls n data\<rparr>) [n] [t]"
  using assms by (auto simp: framed_def stamped_def one_set_data_def bounds_of_def TIMELEN_def)

lemma laid_out_one:
  assumes "data = concat (line_data ls xs)"
  shows "laid_out (one_set_data ls (length xs) data) [length xs] (length ls) [line_data ls xs]"
  using assms by (auto simp: laid_out_def one_set_data_def line_data_def)

lemma numbered_nth: "(k, l) \<in> set (numbered 0 ls) \<Longrightarrow> nat k < length ls \<and> ls ! nat k = l"
  by (auto simp: numbered_def in_set_zip nth_upto)

text \<open>The rows for one set: each column shows its own line.\<close>

lemma set_rows_lines:
  assumes "measured_lines ctr = ls"
  shows "set_rows sep s (line_data ls xs) (length xs) (columns lines ctr) inc_time =
    concat (map (\<lambda>i. table_row sep s (time_at inc_time i) (map (\<lambda>(k, l). xs ! i ! nat l) (columns lines ctr))) [0..<length xs])"
proof -
  have e: "map (\<lambda>(k, _). line_data ls xs ! nat k ! i) (columns lines ctr) = map (\<lambda>(k, l). xs ! i ! nat l) (columns lines ctr)"
    if "i < length xs" for i
    using that assms numbered_nth [of _ _ ls] by (intro map_cong) (auto simp: columns_def line_data_def)
  show ?thesis unfolding set_rows_def by (rule arg_cong [where f = concat], rule map_cong [OF HOL.refl], subst e) simp_all
qed

lemma report_of_data:
  assumes "stamped (measures_of cl) [t] None" and "data = concat (line_data ls xs)" and "length xs < 2147483648"
    and "cc_aggregate (cl_counter cl) = 0" and "line_ok lines" and "line_ok (cc_lines (cl_counter cl))"
    and "measured_lines (cl_counter cl) = ls"
  shows "pm_print_data_text True (cl_counter (with_data (one_set_data ls (length xs) data) (cl\<lparr>cl_sock := so\<rparr>))) lines (- 1) =
    Ok (1, lines_heading tab (columns lines (cl_counter cl)) @
      concat (map (\<lambda>i. table_row tab 0 (time_at (spacing (length xs) t) i)
        (map (\<lambda>(k, l). xs ! i ! nat l) (columns lines (cl_counter cl)))) [0..<length xs]))"
proof -
  let ?ctr = "cl_counter (with_data (one_set_data ls (length xs) data) (cl\<lparr>cl_sock := so\<rparr>))"
  have m: "measured_lines ?ctr = ls" "columns lines ?ctr = columns lines (cl_counter cl)"
    using assms(7) by (simp_all add: with_data_def measured_lines_def columns_def)
  have f: "framed (cc_measures ?ctr) [length xs] [t]" using framed_one [OF assms(1,3)] by (simp add: with_data_def)
  have l: "laid_out (energy (cc_measures ?ctr)) [length xs] (length (measured_lines ?ctr)) [line_data ls xs]"
    using laid_out_one [OF assms(2)] m(1) by (simp add: with_data_def)
  have o: "cc_aggregate ?ctr = 0" "line_ok (cc_lines ?ctr)" using assms(4,6) by (simp_all add: with_data_def)
  show ?thesis
    unfolding text_table_all [OF f l o(1) assms(5) o(2)] m(2)
    by (simp add: all_rows_def set_rows_lines [OF assms(7)])
qed

text \<open>The concrete client after one lap.\<close>

definition demo_timed :: client where
  "demo_timed = demo_asker\<lparr>cl_counter := (cl_counter demo_asker)\<lparr>cc_measures :=
     no_measures\<lparr>next_timing := 1, timing := (replicate TIMELEN None)[0 := Some 1, 1 := Some 2]\<rparr>\<rparr>\<rparr>"

lemma demo_timed_facts:
  "stamped (measures_of demo_timed) [(1, 2)] None" "cc_aggregate (cl_counter demo_timed) = 0"
  "line_ok (cc_lines (cl_counter demo_timed))" "measured_lines (cl_counter demo_timed) = [0]"
  "columns demo_mask (cl_counter demo_timed) = [(0, 0)]" "cl_sock demo_timed = cl_sock demo_asker"
proof -
  show "stamped (measures_of demo_timed) [(1, 2)] None" "cc_aggregate (cl_counter demo_timed) = 0"
    "cl_sock demo_timed = cl_sock demo_asker"
    by (simp_all add: demo_timed_def demo_asker_def stamped_def TIMELEN_def no_measures_def)
  show m: "measured_lines (cl_counter demo_timed) = [0]"
    using two_sets_lines [of 0] by (simp add: measured_lines_def two_sets_def demo_timed_def demo_asker_def demo_mask_def)
  show "line_ok (cc_lines (cl_counter demo_timed))" by (simp add: demo_timed_def demo_asker_def demo_mask_def line_zero)
  show "columns demo_mask (cl_counter demo_timed) = [(0, 0)]"
    unfolding columns_def m by (simp add: demo_mask_def line_zero)
qed

end
