(* ===== verification/Client_Plugin.thy ===== *)
theory Client_Plugin
  imports Client_Report
begin

text \<open>
  The plugins through which tracing tools record power: for VampirTrace (\<open>client/vt_pmlib_plugin.c\<close> and its earlier
  version \<open>client/plugins/vt_pmlib_plugin.c\<close>) and for Score-P (\<open>client/plugins/scorep_pmlib_plugin.c\<close>). The tool lists
  the counters a name stands for, adds them, and after the run asks for their values.

  The tool's clock is a 64-bit unsigned counter. What a call meets outside, other than the server's bytes, is a
  parameter: the resolver, the connections, the clocks, and what uninitialised memory holds.
\<close>

section \<open>Names of events\<close>

text \<open>
  The three plugins differ in how much room the array of parts is given, in how many parts a name may have, in the
  unit they report, and in whether the host's name is resolved.
\<close>

record variant =
  va_spare :: nat
  va_parts :: "nat list"
  va_unit :: string
  va_hosts :: bool

definition vt_variant :: variant where
  "vt_variant = \<lparr>va_spare = 1, va_parts = [3, 4], va_unit = [], va_hosts = True\<rparr>"

definition vt_old_variant :: variant where
  "vt_old_variant = \<lparr>va_spare = 0, va_parts = [3], va_unit = ''Watts'', va_hosts = True\<rparr>"

definition scorep_variant :: variant where
  "scorep_variant = \<lparr>va_spare = 0, va_parts = [3], va_unit = ''Watts'', va_hosts = False\<rparr>"

text \<open>The parts between underscores; \<open>room\<close> is how many pointers the array holds.\<close>

function parts_loop :: "nat \<Rightarrow> nat \<Rightarrow> string list \<Rightarrow> string \<Rightarrow> string list res" where
  "parts_loop spare room parts pos =
     (let num_parts = length parts + 1; parts' = parts @ [takeWhile (\<lambda>c. c \<noteq> CHR ''_'') pos] in
      if room < num_parts then Undef ''parts overflow''
      else (case dropWhile (\<lambda>c. c \<noteq> CHR ''_'') pos of
          [] \<Rightarrow> Ok parts'
        | _ # rest \<Rightarrow> parts_loop spare (num_parts + spare) parts' rest))"
  by pat_completeness auto
termination
proof (relation "measure (\<lambda>(_, _, _, pos). length pos)", goal_cases)
  case (2 spare room parts pos n p c rest)
  then have "length (c # rest) \<le> length pos" by (metis length_dropWhile_le)
  then show ?case by simp
qed auto

declare parts_loop.simps [simp del]

definition strwldcmp :: "variant \<Rightarrow> string \<Rightarrow> string list option res" where
  "strwldcmp va name = bind_r (parts_loop (va_spare va) 1 [] name) (\<lambda>parts.
     Ok (if length parts \<in> set (va_parts va) then Some parts else None))"

section \<open>The state of a plugin\<close>

type_synonym tick = "64 word"

definition PL_SUCCESS :: int where "PL_SUCCESS = 0"
definition E_NO_INIT :: int where "E_NO_INIT = -1"
definition E_INIT_FAILURE :: int where "E_INIT_FAILURE = -2"
definition E_NOT_FOUND :: int where "E_NOT_FOUND = -4"
definition DEFAULT_PM_PORT :: int where "DEFAULT_PM_PORT = 6526"

text \<open>Fields that were never written have no value.\<close>

record pm_counter =
  pc_address :: string
  pc_port :: int
  pc_device :: string
  pc_lines :: string
  pc_name :: string
  pc_timer_start :: "tick option"
  pc_timer_stop :: "tick option"
  pc_lines_mask :: "line_t option"
  pc_counter :: "client option"

text \<open>An entry cleared by \<open>calloc\<close> is \<open>None\<close>: its name is a null pointer.\<close>

record plugin =
  pl_timer_function :: bool
  pl_init_failed :: int
  pl_counters :: "pm_counter option list"
  pl_timer_start :: tick

definition plugin_loaded :: plugin where
  "plugin_loaded = \<lparr>pl_timer_function = False, pl_init_failed = E_NO_INIT, pl_counters = [], pl_timer_start = 0\<rparr>"

record outside =
  ou_resolve :: "string \<Rightarrow> string option"
  ou_connect :: "server_t \<Rightarrow> nat \<Rightarrow> csock option"
  ou_now :: "int \<times> int"
  ou_tick :: tick
  ou_close_ok :: bool
  ou_junk :: line_t

definition set_timer_function :: "bool \<Rightarrow> plugin \<Rightarrow> plugin" where
  "set_timer_function given pl = pl\<lparr>pl_timer_function := given\<rparr>"

text \<open>The counters listed so far are cleared.\<close>

definition vt_init :: "(plugin, int) prog" where
  "vt_init = (\<lambda>pl. if \<not> pl_timer_function pl then (Ok E_INIT_FAILURE, pl\<lparr>pl_init_failed := E_INIT_FAILURE\<rparr>)
     else (Ok PL_SUCCESS, pl\<lparr>pl_init_failed := PL_SUCCESS, pl_counters := replicate (length (pl_counters pl)) None\<rparr>))"

definition scorep_init :: "outside \<Rightarrow> (plugin, int) prog" where
  "scorep_init ou = (\<lambda>pl. if \<not> pl_timer_function pl then (Ok E_INIT_FAILURE, pl\<lparr>pl_init_failed := E_INIT_FAILURE\<rparr>)
     else (Ok PL_SUCCESS, pl\<lparr>pl_init_failed := PL_SUCCESS, pl_timer_start := ou_tick ou,
       pl_counters := replicate (length (pl_counters pl)) None\<rparr>))"

definition get_ip_from_hostname :: "outside \<Rightarrow> string \<Rightarrow> string res" where
  "get_ip_from_hostname ou hostname = (case ou_resolve ou hostname of
     None \<Rightarrow> Throw (Runtime_error ''getaddrinfo error'') | Some address \<Rightarrow> Ok address)"

definition address_of :: "variant \<Rightarrow> outside \<Rightarrow> string \<Rightarrow> string res" where
  "address_of va ou host = (if va_hosts va then get_ip_from_hostname ou host else Ok host)"

section \<open>Listing and adding counters\<close>

record metric_info =
  mi_name :: string
  mi_unit :: string

text \<open>Creating the counter and finishing it shows that the parts are usable.\<close>

definition try_counter :: "variant \<Rightarrow> outside \<Rightarrow> string list \<Rightarrow> int res" where
  "try_counter va ou params =
     bind_r (address_of va ou (params ! 0)) (\<lambda>address.
     bind_r (pm_set_lines (params ! 2) (ou_junk ou)) (\<lambda>(status, lines).
     bind_r (pm_create_counter (ou_connect ou (pm_set_server address DEFAULT_PM_PORT)) (params ! 1) lines 1 0) (\<lambda>cl.
     bind_r (fst (pm_finalize_counter (ou_close_ok ou) cl)) (\<lambda>r.
     Ok (if status = 0 then r else status)))))"

definition get_event_info :: "variant \<Rightarrow> outside \<Rightarrow> string \<Rightarrow> (plugin, metric_info list) prog" where
  "get_event_info va ou event_name =
     bind_p (lift_p (strwldcmp va event_name)) (\<lambda>r. case r of
         None \<Rightarrow> ret_p []
       | Some params \<Rightarrow>
           bind_p (lift_p (try_counter va ou params)) (\<lambda>status.
           if status \<noteq> 0 then ret_p []
           else let name = (if length params = 4 then params ! 3 else event_name) in
             bind_p (lift_p (address_of va ou (params ! 0))) (\<lambda>address.
             bind_p (\<lambda>pl. (Ok (), pl\<lparr>pl_counters := pl_counters pl @
               [Some \<lparr>pc_address = address, pc_port = DEFAULT_PM_PORT, pc_device = params ! 1, pc_lines = params ! 2,
                 pc_name = name, pc_timer_start = None, pc_timer_stop = None, pc_lines_mask = None, pc_counter = None\<rparr>]\<rparr>)) (\<lambda>_.
             ret_p [\<lparr>mi_name = name, mi_unit = va_unit va\<rparr>]))))"

definition vt_old_get_event_info :: "outside \<Rightarrow> string \<Rightarrow> (plugin, metric_info list) prog" where
  "vt_old_get_event_info = get_event_info vt_old_variant"

definition scorep_get_event_info :: "outside \<Rightarrow> string \<Rightarrow> (plugin, metric_info list) prog" where
  "scorep_get_event_info = get_event_info scorep_variant"

fun find_counter :: "pm_counter option list \<Rightarrow> string \<Rightarrow> nat \<Rightarrow> (nat \<times> pm_counter) option res" where
  "find_counter [] event_name i = Ok None"
| "find_counter (None # cs) event_name i = Undef ''null name''"
| "find_counter (Some e # cs) event_name i =
     (if pc_name e = event_name then Ok (Some (i, e)) else find_counter cs event_name (i + 1))"

text \<open>The results of the calls are not looked at; a text of lines that is refused leaves the old mask.\<close>

definition open_counter :: "outside \<Rightarrow> pm_counter \<Rightarrow> pm_counter res" where
  "open_counter ou e =
     bind_r (pm_set_lines (pc_lines e) (case pc_lines_mask e of None \<Rightarrow> ou_junk ou | Some m \<Rightarrow> m)) (\<lambda>(status, lines).
     bind_r (pm_create_counter (ou_connect ou (pm_set_server (pc_address e) (pc_port e))) (pc_device e) lines 1 0) (\<lambda>cl.
     case pm_start_counter (ou_now ou) cl of
       (Throw ex, _) \<Rightarrow> Throw ex | (Undef u, _) \<Rightarrow> Undef u
     | (Ok _, cl') \<Rightarrow> Ok (e\<lparr>pc_lines_mask := Some lines, pc_counter := Some cl'\<rparr>)))"

text \<open>\<open>timed\<close>: the plugins for VampirTrace note the tool's clock for each counter.\<close>

definition add_counter :: "bool \<Rightarrow> outside \<Rightarrow> string \<Rightarrow> (plugin, int) prog" where
  "add_counter timed ou event_name = (\<lambda>pl. case find_counter (pl_counters pl) event_name 0 of
     Throw ex \<Rightarrow> (Throw ex, pl) | Undef u \<Rightarrow> (Undef u, pl)
   | Ok None \<Rightarrow> (Ok E_NOT_FOUND, pl)
   | Ok (Some (i, e)) \<Rightarrow>
       (case open_counter ou e of
          Throw ex \<Rightarrow> (Throw ex, pl) | Undef u \<Rightarrow> (Undef u, pl)
        | Ok e' \<Rightarrow>
            if timed \<and> \<not> pl_timer_function pl then (Undef ''null function'', pl)
            else (Ok (int i), pl\<lparr>pl_counters := (pl_counters pl)
              [i := Some (if timed then e'\<lparr>pc_timer_start := Some (ou_tick ou)\<rparr> else e')]\<rparr>)))"

definition scorep_add_counter :: "outside \<Rightarrow> string \<Rightarrow> (plugin, int) prog" where
  "scorep_add_counter = add_counter False"

section \<open>Values\<close>

text \<open>Pairs of a time and the bits of a sample. Entries that were not written have no value.\<close>

type_synonym time_values = "(tick \<times> double) option list"

fun fill_set :: "tick \<Rightarrow> tick \<Rightarrow> int \<Rightarrow> double list \<Rightarrow> int list \<Rightarrow> time_values \<Rightarrow> time_values res" where
  "fill_set timer_start inc_time ini ws [] results = Ok results"
| "fill_set timer_start inc_time ini ws (i # is) results =
     (if i < 0 \<or> int (length results) \<le> i then Undef ''results overflow''
      else bind_r (rd ws i) (\<lambda>w.
        fill_set timer_start inc_time ini ws is (results[nat i := Some (timer_start + inc_time * of_int (i - ini), w)])))"

fun fill_sets :: "tick \<Rightarrow> tick \<Rightarrow> pm_measures \<Rightarrow> int list \<Rightarrow> time_values \<Rightarrow> time_values res" where
  "fill_sets timer_start timer_stop e [] results = Ok results"
| "fill_sets timer_start timer_stop e (s # ss) results =
     bind_r (rd (watts_sets e) s) (\<lambda>ini.
     bind_r (rd (watts_sets e) (s + 1)) (\<lambda>fin.
     bind_r (int_sub fin ini) (\<lambda>n.
     if n = 0 then Undef ''division by zero''
     else bind_r (fill_set timer_start ((timer_stop - timer_start) div of_int n) ini (watts e) [ini..fin - 1] results)
       (fill_sets timer_start timer_stop e ss))))"

definition time_values_of :: "tick \<Rightarrow> tick \<Rightarrow> pm_measures \<Rightarrow> (tick \<times> time_values) res" where
  "time_values_of timer_start timer_stop e =
     (let count = watts_size e in
      if count = 0 then Ok (0, [Some (0, 0)])
      else if 0 < count then
        bind_r (fill_sets timer_start timer_stop e [0..watts_sets_size e - 2] (replicate (nat count) None @ [Some (0, 0)]))
          (\<lambda>results. Ok (of_int count, results))
      else Undef ''uninitialised pointer'')"

text \<open>The connected counter of an entry.\<close>

definition counter_of :: "plugin \<Rightarrow> int \<Rightarrow> (pm_counter \<times> client) res" where
  "counter_of pl counter = bind_r (rd (pl_counters pl) counter) (\<lambda>e. case e of
     None \<Rightarrow> Undef ''unset counter''
   | Some e' \<Rightarrow> (case pc_counter e' of None \<Rightarrow> Undef ''unset counter'' | Some cl \<Rightarrow> Ok (e', cl)))"

definition put_counter :: "int \<Rightarrow> pm_counter \<Rightarrow> plugin \<Rightarrow> plugin" where
  "put_counter counter e pl = pl\<lparr>pl_counters := (pl_counters pl)[nat counter := Some e]\<rparr>"

definition vt_get_all_values :: "outside \<Rightarrow> int \<Rightarrow> (plugin, tick \<times> time_values option) prog" where
  "vt_get_all_values ou counter = (\<lambda>pl.
     if pl_init_failed pl \<noteq> PL_SUCCESS then (Ok (of_int (pl_init_failed pl), None), pl)
     else case counter_of pl counter of
       Throw ex \<Rightarrow> (Throw ex, pl) | Undef u \<Rightarrow> (Undef u, pl)
     | Ok (e, cl) \<Rightarrow>
         if \<not> pl_timer_function pl then (Undef ''null function'', pl)
         else (case then_p (pm_stop_counter (ou_now ou)) pm_get_counter_data cl of
             (Throw ex, _) \<Rightarrow> (Throw ex, pl) | (Undef u, _) \<Rightarrow> (Undef u, pl)
           | (Ok _, cl') \<Rightarrow>
               (case pc_timer_start e of
                  None \<Rightarrow> (Undef ''uninitialised value'', pl)
                | Some timer_start \<Rightarrow>
                    (case time_values_of timer_start (ou_tick ou) (energy (cc_measures (cl_counter cl'))) of
                       Throw ex \<Rightarrow> (Throw ex, pl) | Undef u \<Rightarrow> (Undef u, pl)
                     | Ok (count, results) \<Rightarrow>
                         (Ok (count, Some results),
                          put_counter counter (e\<lparr>pc_timer_stop := Some (ou_tick ou), pc_counter := Some cl'\<rparr>) pl)))))"

text \<open>
  The Score-P plugin starts the counter again, and has one start time for all counters: the end of the last reading
  that had samples.
\<close>

definition scorep_get_all_values :: "outside \<Rightarrow> int \<Rightarrow> (plugin, tick \<times> time_values option) prog" where
  "scorep_get_all_values ou counter = (\<lambda>pl.
     if pl_init_failed pl \<noteq> PL_SUCCESS then (Ok (of_int (pl_init_failed pl), None), pl)
     else if \<not> pl_timer_function pl then (Undef ''null function'', pl)
     else case counter_of pl counter of
       Throw ex \<Rightarrow> (Throw ex, pl) | Undef u \<Rightarrow> (Undef u, pl)
     | Ok (e, cl) \<Rightarrow>
         (case then_p (pm_stop_counter (ou_now ou)) (then_p pm_get_counter_data (pm_start_counter (ou_now ou))) cl of
             (Throw ex, _) \<Rightarrow> (Throw ex, pl) | (Undef u, _) \<Rightarrow> (Undef u, pl)
           | (Ok _, cl') \<Rightarrow>
               (case time_values_of (pl_timer_start pl) (ou_tick ou) (energy (cc_measures (cl_counter cl'))) of
                  Throw ex \<Rightarrow> (Throw ex, pl) | Undef u \<Rightarrow> (Undef u, pl)
                | Ok (count, results) \<Rightarrow>
                    (Ok (count, Some results), (put_counter counter (e\<lparr>pc_counter := Some cl'\<rparr>) pl)
                      \<lparr>pl_timer_start := (if count = 0 then pl_timer_start pl else ou_tick ou)\<rparr>))))"

section \<open>The end\<close>

fun finalize_counters :: "bool \<Rightarrow> pm_counter option list \<Rightarrow> pm_counter option list res" where
  "finalize_counters close_ok [] = Ok []"
| "finalize_counters close_ok (None # cs) = Undef ''unset counter''"
| "finalize_counters close_ok (Some e # cs) =
     (case pc_counter e of
        None \<Rightarrow> Undef ''unset counter''
      | Some cl \<Rightarrow>
          (case pm_finalize_counter close_ok cl of
             (Throw ex, _) \<Rightarrow> Throw ex | (Undef u, _) \<Rightarrow> Undef u
           | (Ok _, cl') \<Rightarrow> bind_r (finalize_counters close_ok cs) (\<lambda>cs'. Ok (Some (e\<lparr>pc_counter := Some cl'\<rparr>) # cs'))))"

definition finalize_plugin :: "outside \<Rightarrow> (plugin, unit) prog" where
  "finalize_plugin ou = (\<lambda>pl. case finalize_counters (ou_close_ok ou) (pl_counters pl) of
     Throw ex \<Rightarrow> (Throw ex, pl) | Undef u \<Rightarrow> (Undef u, pl)
   | Ok cs \<Rightarrow> (Ok (), pl\<lparr>pl_counters := cs\<rparr>))"

end
