(* ===== verification/Client_Paraver.thy ===== *)
theory Client_Paraver
  imports Client_Print
begin

text \<open>
  Traces for the Paraver tool: of fetched samples (\<open>client/pm_print_data_paraver.c\<close>), of the processor states
  measured as lines, four for each processor (\<open>pm_print_data_paraver_cstates.c\<close>,
  \<open>pm_print_data_paraver_pstates.c\<close>), and of samples printed while they arrive
  (\<open>pm_get_and_print_data_paraver.c\<close>).

  The times are computed in \<open>long double\<close>, the x87 format with 64 bits of precision. The date in the first line
  is a parameter. A function returns its result, what it wrote to the file, and what it printed.
\<close>

section \<open>Long doubles\<close>

definition extended :: fmt where
  "extended = \<lparr>prec = 64, ebits = 15\<rparr>"

type_synonym ldouble = nat

definition l_val :: "ldouble \<Rightarrow> fpv" where "l_val x = unpack extended x"
definition l_enc :: "fpv \<Rightarrow> ldouble" where "l_enc v = encode extended v"
definition l_of_d :: "double \<Rightarrow> ldouble" where "l_of_d x = l_enc (d_val x)"
definition l_of_int :: "int \<Rightarrow> ldouble" where "l_of_int i = l_enc (fp_of_int i)"
definition l_add :: "ldouble \<Rightarrow> ldouble \<Rightarrow> ldouble" where "l_add x y = l_enc (fp_add (l_val x) (l_val y))"
definition l_mul :: "ldouble \<Rightarrow> ldouble \<Rightarrow> ldouble" where "l_mul x y = l_enc (fp_mul (l_val x) (l_val y))"
definition l_div :: "ldouble \<Rightarrow> ldouble \<Rightarrow> ldouble" where "l_div x y = fp_div extended (l_val x) (l_val y)"
definition l_zero :: ldouble where "l_zero = 0"

definition fmt_Lf :: "ldouble \<Rightarrow> string" where
  "fmt_Lf x = print_fixed 6 (l_val x)"

section \<open>The heading and the time scale\<close>

type_synonym report = "int \<times> string \<times> string"

text \<open>The laps of the clock, added up.\<close>

fun add_laps :: "double option list \<Rightarrow> int list \<Rightarrow> ldouble \<Rightarrow> ldouble res" where
  "add_laps ts [] t = Ok t"
| "add_laps ts (i # is) t =
     bind_r (rd_time ts (i * 2 + 1)) (\<lambda>b.
     bind_r (rd_time ts (i * 2)) (\<lambda>a.
     add_laps ts is (l_add t (l_of_d (d_sub b a)))))"

definition sets_distance :: "pm_measures \<Rightarrow> int \<Rightarrow> int \<Rightarrow> int res" where
  "sets_distance e s1 s0 =
     bind_r (rd (watts_sets e) s1) (\<lambda>b. bind_r (rd (watts_sets e) s0) (\<lambda>a. int_sub b a))"

text \<open>All laps and all samples, or those of one set.\<close>

definition all_time :: "pm_measures_wt \<Rightarrow> (ldouble \<times> int) res" where
  "all_time m =
     bind_r (add_laps (timing m) [0..next_timing m - 1] l_zero) (\<lambda>t.
     bind_r (sets_distance (energy m) (watts_sets_size (energy m) - 1) 0) (\<lambda>n. Ok (t, n)))"

definition set_time :: "pm_measures_wt \<Rightarrow> int \<Rightarrow> (ldouble \<times> int) res" where
  "set_time m s =
     bind_r (rd_time (timing m) (s * 2 + 1)) (\<lambda>b.
     bind_r (rd_time (timing m) (s * 2)) (\<lambda>a.
     bind_r (sets_distance (energy m) (s + 1) s) (\<lambda>n. Ok (l_of_d (d_sub b a), n))))"

definition unit_ok :: "string \<Rightarrow> bool" where
  "unit_ok unit \<longleftrightarrow> unit = [] \<or> unit = ''ns'' \<or> unit = ''us'' \<or> unit = ''ms''"

definition scale_time :: "string \<Rightarrow> ldouble \<Rightarrow> ldouble" where
  "scale_time unit t =
     (if unit = [] \<or> unit = ''ns'' then l_mul t (l_of_int 1000000000)
      else if unit = ''us'' then l_mul t (l_of_int 1000000)
      else if unit = ''ms'' then l_mul t (l_of_int 1000)
      else t)"

text \<open>The message for another unit, in UTF-8.\<close>

definition unit_message :: "string \<Rightarrow> string" where
  "unit_message unit = (if unit_ok unit then []
     else ''Debe especificar una unidad v'' @ [CHR 0xC3, CHR 0xA1] @ ''lida (ns, us, ms)'' @ newline)"

definition trace_heading :: "string \<Rightarrow> string \<Rightarrow> ldouble \<Rightarrow> string \<Rightarrow> string" where
  "trace_heading tail date tot_time unit = ''#Paraver ('' @ date @ ''):'' @ fmt_Lf tot_time @ ''_'' @ unit @ tail @ newline"

definition time_step :: "ldouble \<Rightarrow> int \<Rightarrow> ldouble res" where
  "time_step tot_time n = bind_r (int_sub n 1) (\<lambda>k. Ok (l_div tot_time (l_of_int k)))"

text \<open>The time of the first record: for one set, twice as many laps as there are sets before it.\<close>

definition first_time :: "pm_measures_wt \<Rightarrow> int \<Rightarrow> ldouble res" where
  "first_time m which = (if which = - 1 then Ok l_zero else add_laps (timing m) [0..which * 2 - 1] l_zero)"

definition set_bounds :: "pm_measures \<Rightarrow> int \<Rightarrow> (int \<times> int) res" where
  "set_bounds e s = bind_r (rd (watts_sets e) s) (\<lambda>ini. bind_r (rd (watts_sets e) (s + 1)) (\<lambda>fin. Ok (ini, fin)))"

definition set_indices :: "pm_measures \<Rightarrow> int list \<Rightarrow> int list res" where
  "set_indices e ss = bind_r (map_r (\<lambda>s. bind_r (set_bounds e s) (\<lambda>(ini, fin). Ok [ini..fin - 1])) ss) (\<lambda>iss. Ok (concat iss))"

section \<open>Traces of samples\<close>

definition record_of :: "ldouble \<Rightarrow> int \<Rightarrow> double \<Rightarrow> string" where
  "record_of tm line w = ''2:0:1:1:1:'' @ fmt_Lf tm @ '':'' @ to_string line @ '':'' @ fmt_f w @ newline"

fun sum_records :: "double list \<Rightarrow> ldouble \<Rightarrow> int list \<Rightarrow> ldouble \<Rightarrow> string res" where
  "sum_records ws inc_time [] tm = Ok []"
| "sum_records ws inc_time (i # is) tm =
     bind_r (rd ws i) (\<lambda>w.
     bind_r (sum_records ws inc_time is (l_add tm inc_time)) (\<lambda>rest.
     Ok (record_of tm 500000009 w @ rest)))"

text \<open>One sample of each chosen line, and their sum.\<close>

fun sample_records :: "double list \<Rightarrow> int \<Rightarrow> int \<Rightarrow> ldouble \<Rightarrow> (int \<times> int) list \<Rightarrow> double \<Rightarrow> string res" where
  "sample_records ws i interval tm [] sm = Ok (record_of tm 500000009 sm)"
| "sample_records ws i interval tm ((ip, l) # inds) sm =
     bind_r (rd ws (i + interval * ip)) (\<lambda>w.
     bind_r (sample_records ws i interval tm inds (d_add sm w)) (\<lambda>rest.
     Ok (record_of tm (500000010 + l) w @ rest)))"

fun line_records :: "double list \<Rightarrow> int \<Rightarrow> (int \<times> int) list \<Rightarrow> ldouble \<Rightarrow> int list \<Rightarrow> ldouble \<Rightarrow> string res" where
  "line_records ws interval inds inc_time [] tm = Ok []"
| "line_records ws interval inds inc_time (i # is) tm =
     bind_r (sample_records ws i interval tm inds d_zero) (\<lambda>rs.
     bind_r (line_records ws interval inds inc_time is (l_add tm inc_time)) (\<lambda>rest.
     Ok (rs @ rest)))"

text \<open>The function uses the set it was asked for before it checks it.\<close>

definition pm_print_data_paraver :: "bool \<Rightarrow> string \<Rightarrow> counter_t \<Rightarrow> line_t \<Rightarrow> int \<Rightarrow> string \<Rightarrow> report res" where
  "pm_print_data_paraver opened date ctr lines which unit =
     (let m = cc_measures ctr; e = energy m in
      bind_r (if which = - 1 then all_time m else set_time m which) (\<lambda>(t, watts_size).
      let tot_time = scale_time unit t; out = unit_message unit in
      if \<not> opened then Undef ''null file''
      else bind_r (time_step tot_time watts_size) (\<lambda>inc_time.
        let heading = trace_heading '':1(1):1:1:(1:1)'' date tot_time unit in
        case sets_range which e of
          None \<Rightarrow> Ok (- 1, heading, out)
        | Some (init, stop) \<Rightarrow>
            if cc_aggregate ctr \<noteq> 0
            then bind_r (first_time m which) (\<lambda>tm.
                 bind_r (set_indices e [init..stop - 1]) (\<lambda>is.
                 bind_r (sum_records (watts e) inc_time is tm) (\<lambda>rs.
                 Ok (1, heading @ rs, out))))
            else bind_r (chosen_lines lines ctr) (\<lambda>(inds, n_counter).
                 bind_r (total_interval e) (\<lambda>interval.
                 bind_r (first_time m which) (\<lambda>tm.
                 bind_r (set_indices e [init..stop - 1]) (\<lambda>is.
                 bind_r (line_records (watts e) interval inds inc_time is tm) (\<lambda>rs.
                 Ok (1, heading @ rs, out)))))))))"

section \<open>Traces of processor states\<close>

text \<open>Here 0 stands for all sets, and the times are those of the set before the one printed.\<close>

definition states_time :: "pm_measures_wt \<Rightarrow> int \<Rightarrow> (ldouble \<times> int) res" where
  "states_time m which = (if which = 0 then all_time m else set_time m (which - 1))"

definition states_range :: "pm_measures \<Rightarrow> int \<Rightarrow> (int \<times> int) option" where
  "states_range e which =
     (if watts_sets_size e - 1 < which \<or> which < - 1 then None
      else if which = 0 then Some (0, watts_sets_size e - 1)
      else Some (which, which + 1))"

definition states_start :: "pm_measures_wt \<Rightarrow> int \<Rightarrow> ldouble res" where
  "states_start m which = (if which = 0 then Ok l_zero else bind_r (rd_time (timing m) (which * 2)) (\<lambda>t. Ok (l_of_d t)))"

definition state_record :: "int \<Rightarrow> ldouble \<Rightarrow> int \<Rightarrow> string \<Rightarrow> string" where
  "state_record cpu t event w =
     ''2:0:1:1:'' @ to_string (cpu + 1) @ '':'' @ fmt_Lf t @ '':'' @ to_string event @ '':'' @ w @ newline"

text \<open>
  One sample of each chosen line: \<open>ind_lines[j] % 4\<close> is the state, \<open>ind_lines[j] / 4\<close> the processor.
  \<open>value_ant\<close> has eight entries.
\<close>

fun cstate_records :: "bool \<Rightarrow> double list \<Rightarrow> int \<Rightarrow> int \<Rightarrow> ldouble \<Rightarrow> ldouble \<Rightarrow> (int \<times> int) list \<Rightarrow> ldouble list \<Rightarrow>
    (string \<times> ldouble list) res" where
  "cstate_records separate ws i interval inc_time t [] value_ant = Ok ([], value_ant)"
| "cstate_records separate ws i interval inc_time t ((ip, l) # inds) value_ant =
     bind_r (rd ws (i + interval * ip)) (\<lambda>w.
     let event = 900000010 + l mod 4; cpu = l div 4 in
     if separate
     then bind_r (cstate_records separate ws i interval inc_time t inds value_ant) (\<lambda>(rest, va).
       Ok (state_record cpu t event (fmt_f w) @ rest, va))
     else if \<not> fp_eq (d_val w) (d_val d_zero)
     then bind_r (rd value_ant cpu) (\<lambda>v.
       let val = l_div (l_mul inc_time (l_of_d w)) (l_of_int 100); v' = l_add v val in
       bind_r (cstate_records separate ws i interval inc_time t inds (value_ant[nat cpu := v'])) (\<lambda>(rest, va).
       Ok (state_record cpu v' 90000000 (to_string (event - 900000010)) @ rest, va)))
     else cstate_records separate ws i interval inc_time t inds value_ant)"

fun cstate_rows :: "bool \<Rightarrow> double list \<Rightarrow> int \<Rightarrow> (int \<times> int) list \<Rightarrow> ldouble \<Rightarrow> int list \<Rightarrow> ldouble \<Rightarrow> ldouble list \<Rightarrow> string res" where
  "cstate_rows separate ws interval inds inc_time [] t value_ant = Ok []"
| "cstate_rows separate ws interval inds inc_time (i # is) t value_ant =
     bind_r (cstate_records separate ws i interval inc_time t inds value_ant) (\<lambda>(rs, va).
     bind_r (cstate_rows separate ws interval inds inc_time is (l_add t inc_time) va) (\<lambda>rest.
     Ok (rs @ rest)))"

fun pstate_records :: "double list \<Rightarrow> int \<Rightarrow> int \<Rightarrow> ldouble \<Rightarrow> (int \<times> int) list \<Rightarrow> string res" where
  "pstate_records ws i interval t [] = Ok []"
| "pstate_records ws i interval t ((ip, l) # inds) =
     bind_r (rd ws (i + interval * ip)) (\<lambda>w.
     bind_r (pstate_records ws i interval t inds) (\<lambda>rest.
     Ok (state_record (l div 4) t (800000010 + l mod 4) (fmt_f w) @ rest)))"

fun pstate_rows :: "double list \<Rightarrow> int \<Rightarrow> (int \<times> int) list \<Rightarrow> ldouble \<Rightarrow> int list \<Rightarrow> ldouble \<Rightarrow> string res" where
  "pstate_rows ws interval inds inc_time [] t = Ok []"
| "pstate_rows ws interval inds inc_time (i # is) t =
     bind_r (pstate_records ws i interval t inds) (\<lambda>rs.
     bind_r (pstate_rows ws interval inds inc_time is (l_add t inc_time)) (\<lambda>rest.
     Ok (rs @ rest)))"

text \<open>What both print on the way.\<close>

definition size_message :: "int \<Rightarrow> string" where
  "size_message n = ''watts_size: '' @ to_string n @ newline"

definition chosen_message :: "(int \<times> int) list \<Rightarrow> int \<Rightarrow> int \<Rightarrow> string" where
  "chosen_message inds n_counter len =
     ''NLINEBITS: 128, n_lines_print: 0, pm_counter.measures->energy.lines_len: '' @ to_string len @ newline @
     ''n_lines_print: '' @ to_string (int (length inds)) @ '', n_lines_counter: '' @ to_string n_counter @ newline @
     concat (map (\<lambda>(j, i). ''i: '' @ to_string i @ '', j: '' @ to_string j @ '' '' @ newline) inds)"

definition start_message :: "ldouble \<Rightarrow> string" where
  "start_message t = ''t: '' @ fmt_Lf t @ newline"

definition pm_print_data_paraver_cstates ::
  "bool \<Rightarrow> string \<Rightarrow> counter_t \<Rightarrow> line_t \<Rightarrow> int \<Rightarrow> string \<Rightarrow> bool \<Rightarrow> report res" where
  "pm_print_data_paraver_cstates opened date ctr lines which unit separate =
     (let m = cc_measures ctr; e = energy m in
      bind_r (states_time m which) (\<lambda>(t, watts_size).
      let tot_time = scale_time unit t in
      if \<not> opened then Undef ''null file''
      else bind_r (time_step tot_time watts_size) (\<lambda>inc_time.
        let heading = trace_heading '':0:1:1(8:0)'' date tot_time unit; out = unit_message unit @ size_message watts_size in
        case states_range e which of
          None \<Rightarrow> Ok (- 1, heading, out)
        | Some (init, stop) \<Rightarrow>
            bind_r (chosen_lines lines ctr) (\<lambda>(inds, n_counter).
            bind_r (total_interval e) (\<lambda>interval.
            bind_r (states_start m which) (\<lambda>t0.
            bind_r (set_indices e [init..stop - 1]) (\<lambda>is.
            bind_r (cstate_rows separate (watts e) interval inds inc_time is t0 (replicate 8 l_zero)) (\<lambda>rs.
            Ok (1, heading @ rs, out @ chosen_message inds n_counter (lines_len e) @ start_message t0)))))))))"

definition pm_print_data_paraver_pstates ::
  "bool \<Rightarrow> string \<Rightarrow> counter_t \<Rightarrow> line_t \<Rightarrow> int \<Rightarrow> string \<Rightarrow> report res" where
  "pm_print_data_paraver_pstates opened date ctr lines which unit =
     (let m = cc_measures ctr; e = energy m in
      bind_r (states_time m which) (\<lambda>(t, watts_size).
      let tot_time = scale_time unit t in
      if \<not> opened then Undef ''null file''
      else bind_r (time_step tot_time watts_size) (\<lambda>inc_time.
        let heading = trace_heading '':0:1:1(8:0)'' date tot_time unit;
            out = unit_message unit @ ''inc_time: '' @ fmt_Lf inc_time @ newline @ size_message watts_size in
        case states_range e which of
          None \<Rightarrow> Ok (- 1, heading, out)
        | Some (init, stop) \<Rightarrow>
            bind_r (chosen_lines lines ctr) (\<lambda>(inds, n_counter).
            bind_r (total_interval e) (\<lambda>interval.
            bind_r (states_start m which) (\<lambda>t0.
            bind_r (set_indices e [init..stop - 1]) (\<lambda>is.
            bind_r (pstate_rows (watts e) interval inds inc_time is t0) (\<lambda>rs.
            Ok (1, heading @ rs, out @ chosen_message inds n_counter (lines_len e) @ start_message t0)))))))))"

section \<open>Printing while the samples arrive\<close>

text \<open>The reply without its samples.\<close>

definition receive_sets :: "(csock, pm_measures) prog" where
  "receive_sets =
     bind_p (recv_natural ''Failed to receive bytes from server in get counter''
       ''Failed to receive watts_size from server in get counter'') (\<lambda>n_watts.
     bind_p (recv_int ''Failed to receive watts_sets_size from server in get counter'') (\<lambda>n_sets.
     bind_p (recv_int ''Failed to receive watts_sets_size from server in get counter'') (\<lambda>n_lines.
     bind_p (lift_p (reply_sizes 0 n_sets)) (\<lambda>(ns, nw).
     bind_p (c_recv_waitall (ns * 4)) (\<lambda>bs.
       if length bs \<noteq> ns * 4
       then throw_p (Runtime_error ''Failed to receive the rest of the message from server in get counter'')
       else ret_p \<lparr>watts_size = n_watts, watts_sets_size = n_sets, watts_sets = elements ns 4 bytes_int bs,
              watts = [], lines_len = n_lines\<rparr>)))))"

text \<open>The old samples stay in the structure.\<close>

definition store_sets :: "pm_measures \<Rightarrow> pm_measures_wt \<Rightarrow> pm_measures_wt" where
  "store_sets e m = m\<lparr>energy := e\<lparr>watts := watts (energy m)\<rparr>\<rparr>"

definition recv_sample :: "(csock, double) prog" where
  "recv_sample = bind_p (recv_exact 8 ''Failed to receive bytes from server in get counter'') (\<lambda>bs. ret_p (bytes_double bs))"

text \<open>An \<open>int\<close> compared with an \<open>unsigned long long\<close>.\<close>

definition as_u64 :: "int \<Rightarrow> int" where
  "as_u64 x = x mod 18446744073709551616"

text \<open>The number of samples read so far, the current one included, is compared with the bounds of the set.\<close>

fun stream_sums :: "nat \<Rightarrow> int \<Rightarrow> int \<Rightarrow> int \<Rightarrow> ldouble \<Rightarrow> ldouble \<Rightarrow> (csock, string) prog" where
  "stream_sums 0 n_read ini fin inc_time tm = ret_p []"
| "stream_sums (Suc k) n_read ini fin inc_time tm =
     bind_p recv_sample (\<lambda>w.
     let n_read' = n_read + 1 in
     if as_u64 ini \<le> n_read' \<and> n_read' < as_u64 fin
     then bind_p (stream_sums k n_read' ini fin inc_time (l_add tm inc_time)) (\<lambda>rest.
       ret_p (record_of tm 500000009 w @ rest))
     else stream_sums k n_read' ini fin inc_time tm)"

fun stream_line :: "nat \<Rightarrow> int option \<Rightarrow> int \<Rightarrow> int \<Rightarrow> int \<Rightarrow> ldouble \<Rightarrow> ldouble \<Rightarrow> (csock, string) prog" where
  "stream_line 0 line n_read ini fin inc_time tm = ret_p []"
| "stream_line (Suc k) line n_read ini fin inc_time tm =
     bind_p recv_sample (\<lambda>w.
     let n_read' = n_read + 1 in
     case line of
       Some l \<Rightarrow>
         if as_u64 ini \<le> n_read' \<and> n_read' < as_u64 fin
         then bind_p (stream_line k line n_read' ini fin inc_time (l_add tm inc_time)) (\<lambda>rest.
           ret_p (record_of tm (500000010 + l) w @ rest))
         else stream_line k line n_read' ini fin inc_time tm
     | None \<Rightarrow> stream_line k line n_read' ini fin inc_time tm)"

text \<open>
  A round per line. With an interval of 0 a round reads nothing, and the loop does not end; otherwise one round
  more than there are samples is enough fuel.
\<close>

fun stream_lines :: "nat \<Rightarrow> int \<Rightarrow> (int \<times> int) list \<Rightarrow> int \<Rightarrow> int \<Rightarrow> int \<Rightarrow> int \<Rightarrow> int \<Rightarrow> ldouble \<Rightarrow> ldouble \<Rightarrow>
    (csock, string) prog" where
  "stream_lines 0 n_watts inds interval current_line n_read ini fin inc_time tm = undef_p ''fuel''"
| "stream_lines (Suc f) n_watts inds interval current_line n_read ini fin inc_time tm =
     (if n_read < n_watts
      then bind_p (stream_line (nat (as_u64 interval)) (map_of inds current_line) n_read ini fin inc_time tm) (\<lambda>out.
           bind_p (stream_lines f n_watts inds interval (current_line + 1) (n_read + as_u64 interval) ini fin inc_time l_zero) (\<lambda>rest.
           ret_p (out @ rest)))
      else ret_p [])"

definition pm_get_and_print_data_paraver ::
  "nat \<Rightarrow> bool \<Rightarrow> string \<Rightarrow> line_t \<Rightarrow> int \<Rightarrow> string \<Rightarrow> (client, report) prog" where
  "pm_get_and_print_data_paraver fuel opened date lines which unit =
     bind_p (via_sock (then_p (send_msg ''Mismatch in number of sent bytes in get counter'' (int_bytes (op_code GET)))
       receive_sets)) (\<lambda>e.
     then_p (upd_measures (\<lambda>m. Ok (store_sets e m)))
     (bind_p (gets_p cl_counter) (\<lambda>ctr.
      let m = cc_measures ctr in
      bind_p (lift_p (if which = - 1 then all_time m else set_time m which)) (\<lambda>(t, n).
      let tot_time = scale_time unit t in
      if \<not> opened then undef_p ''null file''
      else bind_p (lift_p (time_step tot_time n)) (\<lambda>inc_time.
        let heading = trace_heading '':1(1):1:1:(1:1)'' date tot_time unit;
            out = unit_message unit @ ''Leido primer bloque watts'' @ newline in
        case sets_range which e of
          None \<Rightarrow> ret_p (- 1, heading, out)
        | Some (init, stop) \<Rightarrow>
            bind_p (lift_p (if cc_aggregate ctr \<noteq> 0 then Ok ([], 0) else chosen_lines lines ctr)) (\<lambda>(inds, n_counter).
            bind_p (lift_p (if cc_aggregate ctr \<noteq> 0 then Ok 0 else total_interval e)) (\<lambda>interval.
            bind_p (lift_p (first_time m which)) (\<lambda>tm.
            bind_p (lift_p (bind_r (rd (watts_sets e) init) (\<lambda>ini. bind_r (rd (watts_sets e) stop) (\<lambda>fin. Ok (ini, fin))))) (\<lambda>(ini, fin).
            bind_p (via_sock (if cc_aggregate ctr \<noteq> 0
                then stream_sums (nat (watts_size e)) 0 ini fin inc_time tm
                else stream_lines fuel (watts_size e) inds interval 0 0 ini fin inc_time tm)) (\<lambda>rs.
            ret_p (1, heading @ rs, out)))))))))))"

end
