(* ===== verification/Client_Traces.thy ===== *)
theory Client_Traces
  imports Client_Report Client_Paraver
begin

text \<open>
  What the Paraver traces show: of a fetched measurement, and of one printed while it arrives, whose last sample
  is never written.
\<close>

section \<open>Records of a set\<close>

definition ltime_at :: "ldouble \<Rightarrow> nat \<Rightarrow> ldouble" where
  "ltime_at inc_time i = ((\<lambda>t. l_add t inc_time) ^^ i) l_zero"

lemma ltime_step: "l_add (ltime_at inc_time i) inc_time = ltime_at inc_time (Suc i)"
  by (simp add: ltime_at_def)

text \<open>The records of one sample: a record per line, and one for their sum.\<close>

definition sample_trace :: "ldouble \<Rightarrow> (int \<times> int) list \<Rightarrow> (int \<times> int \<Rightarrow> double) \<Rightarrow> string" where
  "sample_trace tm cols val = concat (map (\<lambda>c. record_of tm (500000010 + snd c) (val c)) cols) @
     record_of tm 500000009 (fold (\<lambda>c acc. d_add acc (val c)) cols d_zero)"

lemma sample_records_block:
  assumes "block_at ws off n blk" and "i < n" and "\<forall>(k, l) \<in> set cols. 0 \<le> k \<and> k < int (length blk)"
  shows "sample_records ws (int off + int i) (int n) tm cols sm =
    Ok (concat (map (\<lambda>c. record_of tm (500000010 + snd c) (blk ! nat (fst c) ! i)) cols) @
      record_of tm 500000009 (fold (\<lambda>c acc. d_add acc (blk ! nat (fst c) ! i)) cols sm))"
  using assms(3)
proof (induction cols arbitrary: sm)
  case (Cons c cols)
  obtain k l where c: "c = (k, l)" by force
  have "rd ws (int off + int i + int n * k) = Ok (blk ! nat k ! i)"
    using block_rd [OF assms(1) _ assms(2), of "nat k"] Cons.prems c by (simp add: nat_less_iff)
  then show ?case using Cons c by simp
qed simp

lemma line_records_block:
  assumes "block_at ws off n blk" and "\<forall>(k, l) \<in> set cols. 0 \<le> k \<and> k < int (length blk)" and "i \<le> n"
  shows "line_records ws (int n) cols inc_time [int off + int i..int off + int n - 1] (ltime_at inc_time i) =
    Ok (concat (map (\<lambda>i. sample_trace (ltime_at inc_time i) cols (\<lambda>c. blk ! nat (fst c) ! i)) [i..<n]))"
  using assms(3)
proof (induction "n - i" arbitrary: i)
  case 0
  then show ?case by simp
next
  case (Suc m)
  then have i: "i < n" by simp
  have "[int off + int i..int off + int n - 1] = (int off + int i) # [int off + int (Suc i)..int off + int n - 1]"
    using i by (subst upto_rec1) (simp_all add: algebra_simps)
  moreover have "line_records ws (int n) cols inc_time [int off + int (Suc i)..int off + int n - 1] (ltime_at inc_time (Suc i)) =
      Ok (concat (map (\<lambda>i. sample_trace (ltime_at inc_time i) cols (\<lambda>c. blk ! nat (fst c) ! i)) [Suc i..<n]))"
    using Suc.hyps(1) [of "Suc i"] Suc.hyps(2) i by simp
  ultimately show ?case
    using sample_records_block [OF assms(1) i assms(2)] i
    by (simp add: sample_trace_def upt_conv_Cons ltime_step del: upt_Suc)
qed

text \<open>The times of one lap.\<close>

definition trace_total :: "string \<Rightarrow> double \<times> double \<Rightarrow> ldouble" where
  "trace_total unit t = scale_time unit (l_add l_zero (l_of_d (duration t)))"

lemma all_time_one:
  assumes "framed m [n] [t]" and "next_timing m = 1"
  shows "all_time m = Ok (l_add l_zero (l_of_d (duration t)), int n)"
proof -
  have ts: "rd_time (timing m) 1 = Ok (snd t)" "rd_time (timing m) 0 = Ok (fst t)"
    using assms(1) by (auto simp: framed_def rd_time_def rd_def)
  have "sets_distance (energy m) (watts_sets_size (energy m) - 1) 0 = Ok (int n)"
    using assms(1) bounds_nth [of 1 "[n]"] bounds_nth [of 0 "[n]"]
    by (simp add: framed_def sets_distance_def int_sub_def is_i32_def)
  then show ?thesis using assms(2) by (simp add: all_time_def ts duration_def)
qed

lemma set_indices_one: "framed m [n] [t] \<Longrightarrow> set_indices (energy m) [0] = Ok [0..int n - 1]"
  using bounds_nth [of 1 "[n]"] bounds_nth [of 0 "[n]"]
  by (simp add: framed_def set_indices_def set_bounds_def)

definition trace_step :: "string \<Rightarrow> nat \<Rightarrow> double \<times> double \<Rightarrow> ldouble" where
  "trace_step unit n t = l_div (trace_total unit t) (l_of_int (int n - 1))"

lemma time_step_one: "n < 2147483648 \<Longrightarrow> time_step (trace_total unit t) (int n) = Ok (trace_step unit n t)"
  by (simp add: time_step_def int_sub_def is_i32_def trace_step_def)

text \<open>A measurement with one set, as a trace.\<close>

lemma paraver_one_set:
  assumes "framed (cc_measures ctr) [n] [t]" and "laid_out (energy (cc_measures ctr)) [n] (length (measured_lines ctr)) [blk]"
    and "next_timing (cc_measures ctr) = 1" and "cc_aggregate ctr = 0" and "line_ok lines" and "line_ok (cc_lines ctr)"
  shows "pm_print_data_paraver True date ctr lines (- 1) unit =
    Ok (1, trace_heading '':1(1):1:1:(1:1)'' date (trace_total unit t) unit @
      concat (map (\<lambda>i. sample_trace (ltime_at (trace_step unit n t) i) (columns lines ctr) (\<lambda>c. blk ! nat (fst c) ! i)) [0..<n]),
      unit_message unit)"
proof -
  let ?m = "cc_measures ctr" and ?cols = "columns lines ctr"
  have lens: "lines_len (energy ?m) = int (length (measured_lines ctr))" "length blk = length (measured_lines ctr)"
    using assms(2) by (simp_all add: laid_out_def)
  have n: "n < 2147483648" using assms(1) by (simp add: framed_def)
  have b: "block_at (watts (energy ?m)) 0 n blk" using block_laid_out [OF assms(2), of 0] by simp
  have rs: "line_records (watts (energy ?m)) (int n) ?cols inc_time [0..int n - 1] l_zero =
      Ok (concat (map (\<lambda>i. sample_trace (ltime_at inc_time i) ?cols (\<lambda>c. blk ! nat (fst c) ! i)) [0..<n]))" for inc_time
    using line_records_block [OF b columns_range [OF lens(2)], of 0] by (simp add: ltime_at_def)
  show ?thesis
    using all_time_one [OF assms(1,3)] total_framed [OF assms(1)] all_sets [OF assms(1)] set_indices_one [OF assms(1)]
      chosen_lines_columns [OF assms(5,6) lens(1)] time_step_one [OF n, of unit t] rs
    by (simp add: pm_print_data_paraver_def Let_def assms(4) first_time_def trace_total_def)
qed



section \<open>Samples printed while they arrive\<close>

lemma delivers_front: "delivers ws (seg # segs) \<Longrightarrow> delivers (us @ ws) ((concat us @ seg) # segs)"
proof (induction us)
  case (Cons u us)
  then show ?case using delivers.joined [of "us @ ws" "concat us @ seg" segs u] by simp
qed simp

text \<open>One large write can be read piece by piece.\<close>

lemma delivers_pieces: "delivers (concat us # ws) segs \<Longrightarrow> delivers (us @ ws) segs"
proof (induction "concat us # ws" segs rule: delivers.induct)
  case (alone segs)
  then show ?case using delivers_front [OF delivers.gap, of ws segs us] by simp
next
  case (joined seg segs)
  then show ?case by (simp add: delivers_front)
next
  case (gap segs)
  then show ?case by (simp add: delivers.gap)
qed

lemma gets_sample: "gets [double_bytes x] recv_sample x"
  unfolding recv_sample_def
  by (rule gets_check [OF gets_exact]) (simp_all add: bytes_double_bytes)

fun trace_sums :: "ldouble \<Rightarrow> ldouble \<Rightarrow> double list \<Rightarrow> string" where
  "trace_sums inc_time tm [] = []"
| "trace_sums inc_time tm (x # xs) = record_of tm 500000009 x @ trace_sums inc_time (l_add tm inc_time) xs"

lemma gets_stream_sums:
  assumes "r + length xs = n" and "n < 2147483648"
  shows "gets (map double_bytes xs) (stream_sums (length xs) (int r) 0 (int n) inc_time tm) (trace_sums inc_time tm (butlast xs))"
  using assms(1)
proof (induction xs arbitrary: r tm)
  case Nil
  show ?case unfolding list.map(1) list.size(3) stream_sums.simps trace_sums.simps butlast.simps by (rule gets_ret)
next
  case (Cons x xs)
  have u: "as_u64 0 = 0" "as_u64 (int n) = int n" using assms(2) by (simp_all add: as_u64_def)
  have IH: "gets (map double_bytes xs) (stream_sums (length xs) (1 + int r) 0 (int n) inc_time tm') (trace_sums inc_time tm' (butlast xs))" for tm'
    using Cons.IH [of "Suc r" tm'] Cons.prems by simp
  have rest: "gets (map double_bytes xs) (if 1 + int r < int n
      then bind_p (stream_sums (length xs) (1 + int r) 0 (int n) inc_time (l_add tm inc_time)) (\<lambda>rest. ret_p (record_of tm 500000009 x @ rest))
      else stream_sums (length xs) (1 + int r) 0 (int n) inc_time tm) (trace_sums inc_time tm (butlast (x # xs)))"
  proof (cases "xs = []")
    case True
    then show ?thesis using Cons.prems IH [of tm] by simp
  next
    case False
    then have "1 + int r < int n" using Cons.prems by (cases xs) simp_all
    then show ?thesis using gets_map [OF IH [of "l_add tm inc_time"], of "\<lambda>rest. record_of tm 500000009 x @ rest"] False by simp
  qed
  then show ?case
    unfolding list.map(2) list.size(4) add_Suc_right add_0_right stream_sums.simps
    by (intro gets_Cons [OF gets_sample]) (simp add: Let_def u add.commute)
qed

lemma gets_sets:
  assumes "is_i32 (int n_watts)" and "ns \<noteq> []" and "\<forall>n \<in> set ns. is_i32 n" and "is_i32 n_lines"
    and "int (4 * length ns) < 2147483648"
  shows "gets [int_bytes (int n_watts), int_bytes (int (length ns)), int_bytes n_lines, concat (map int_bytes ns)] receive_sets
    \<lparr>watts_size = int n_watts, watts_sets_size = int (length ns), watts_sets = ns, watts = [], lines_len = n_lines\<rparr>"
proof -
  have i: "is_i32 (int (length ns))" using assms(5) by (simp add: is_i32_def)
  have sizes: "reply_sizes 0 (int (length ns)) = Ok (length ns, 0)" using assms(5) by (simp add: reply_sizes_def is_i32_def)
  have len: "length (concat (map int_bytes ns)) = length ns * 4" by (simp only: length_ints mult.commute)
  have "[] \<notin> set [concat (map int_bytes ns)]" using assms(2) by (cases ns) auto
  then have w: "gets [concat (map int_bytes ns)] (c_recv_waitall (length ns * 4)) (concat (map int_bytes ns))"
    using gets_waitall [of "[concat (map int_bytes ns)]" "length ns * 4"] by (simp only: concat.simps append_Nil2 len simp_thms)
  have e: "elements (length ns) 4 bytes_int (concat (map int_bytes ns)) = ns"
    using read_measures(1) [OF assms(3), of "[]"] by simp
  show ?thesis
    unfolding receive_sets_def
    apply (intro gets_Cons [OF gets_natural] gets_Cons [OF gets_int] i assms(1,4))
     apply simp
    apply (simp only: sizes lift_p_Ok case_prod_conv)
    apply (rule gets_check [OF w])
    apply (simp only: len e simp_thms if_False)
    done
qed

lemma bind_Ok: "m s = (Ok x, s') \<Longrightarrow> f x s' = r \<Longrightarrow> bind_p m f s = r"
  by (simp add: bind_p_def)


text \<open>The concrete client, aggregating: of the samples 7 and 9 only 7 is written.\<close>

definition demo_sum :: client where
  "demo_sum = demo_timed\<lparr>cl_counter := (cl_counter demo_timed)\<lparr>cc_aggregate := 1\<rparr>\<rparr>"


section \<open>Termination of the stream\<close>

text \<open>
  With a positive interval the loop over the lines ends (or a read fails); with an interval of 0 it reads nothing
  and never ends.
\<close>

definition never_fuel :: "('s, 'a) prog \<Rightarrow> bool" where
  "never_fuel m \<longleftrightarrow> (\<forall>s. fst (m s) \<noteq> Undef ''fuel'')"

lemma never_fuel_bind: "never_fuel m \<Longrightarrow> (\<And>x. never_fuel (f x)) \<Longrightarrow> never_fuel (bind_p m f)"
  unfolding never_fuel_def bind_p_def by (auto split: prod.split res.split) (metis fst_conv)+

lemma never_fuel_basic: "never_fuel (ret_p x)" "never_fuel recv_sample"
  by (auto simp: never_fuel_def recv_sample_def recv_exact_def bind_p_def c_recv_def split: prod.split)

lemma never_fuel_line: "never_fuel (stream_line k line n_read ini fin inc_time tm)"
  by (induction k arbitrary: n_read tm)
    (auto simp: Let_def never_fuel_basic intro!: never_fuel_bind split: option.split)

lemma stream_lines_ends:
  assumes "0 < as_u64 interval" and "nat (n_watts - n_read) < f"
  shows "never_fuel (stream_lines f n_watts inds interval cur n_read ini fin inc_time tm)"
  using assms(2)
proof (induction f arbitrary: cur n_read tm)
  case (Suc f)
  show ?case
  proof (cases "n_read < n_watts")
    case True
    then have "nat (n_watts - (n_read + as_u64 interval)) < f" using assms(1) Suc.prems by linarith
    then show ?thesis using True Suc.IH by (auto intro!: never_fuel_bind never_fuel_line never_fuel_basic)
  qed (simp add: never_fuel_basic del: prim_p_apply)
qed simp

lemma stream_lines_hangs:
  "n_read < n_watts \<Longrightarrow> fst (stream_lines f n_watts inds 0 cur n_read ini fin inc_time tm s) = Undef ''fuel''"
proof (induction f arbitrary: cur tm s)
  case (Suc f)
  have "fst (stream_lines f n_watts inds 0 (cur + 1) n_read ini fin inc_time l_zero s) = Undef ''fuel''" using Suc by blast
  then show ?case using Suc.prems
    by (cases "stream_lines f n_watts inds 0 (cur + 1) n_read ini fin inc_time l_zero s") (simp add: as_u64_def bind_p_def)
qed simp

end
