(* ===== verification/Client_Tools.thy ===== *)
theory Client_Tools
  imports Client_Plugin Client_Traces
begin

text \<open>
  What the plugins give the tracing tool: the counter an event's name describes, and the samples the server
  recorded for it, with times of the tool's clock.
\<close>

section \<open>From a name to a counter\<close>

fun event_text :: "string list \<Rightarrow> string" where
  "event_text [] = []"
| "event_text [p] = p"
| "event_text (p # ps) = p @ CHR ''_'' # event_text ps"

lemma parts_of_text:
  assumes "ps \<noteq> []" and "\<forall>p \<in> set ps. CHR ''_'' \<notin> set p"
  shows "parts_loop 1 (Suc (length acc)) acc (event_text ps) = Ok (acc @ ps)"
  using assms
proof (induction ps arbitrary: acc rule: event_text.induct)
  case (2 p)
  then have t: "takeWhile (\<lambda>c. c \<noteq> CHR ''_'') p = p" "dropWhile (\<lambda>c. c \<noteq> CHR ''_'') p = []" by (auto simp: takeWhile_eq_all_conv)
  show ?case by (subst parts_loop.simps) (simp add: Let_def t del: dropWhile_eq_Nil_conv)
next
  case (3 p q qs)
  then have all: "c \<noteq> CHR ''_''" if "c \<in> set p" for c using that by auto
  have "takeWhile (\<lambda>c. c \<noteq> CHR ''_'') (p @ CHR ''_'' # event_text (q # qs)) = p"
    "dropWhile (\<lambda>c. c \<noteq> CHR ''_'') (p @ CHR ''_'' # event_text (q # qs)) = CHR ''_'' # event_text (q # qs)"
    using all by (simp_all add: takeWhile_append2 dropWhile_append2)
  then show ?case using 3 by (subst parts_loop.simps) (simp add: Let_def 3(1) [of "acc @ [p]", simplified])
qed simp

text \<open>The earlier VampirTrace plugin and the one for Score-P have no room for a second part.\<close>

lemma parts_overflow: "CHR ''_'' \<in> set name \<Longrightarrow> parts_loop 0 1 [] name = Undef ''parts overflow''"
proof -
  assume "CHR ''_'' \<in> set name"
  then obtain c rest where "dropWhile (\<lambda>c. c \<noteq> CHR ''_'') name = c # rest" by (cases "dropWhile (\<lambda>c. c \<noteq> CHR ''_'') name") auto
  then show ?thesis by (simp add: parts_loop.simps)
qed

lemma find_counter_last:
  assumes "\<forall>c \<in> set cs. \<exists>e. c = Some e \<and> pc_name e \<noteq> name" and "pc_name e = name"
  shows "find_counter (cs @ [Some e]) name i = Ok (Some (i + length cs, e))"
  using assms(1) by (induction cs arbitrary: i) (use assms(2) in auto)

text \<open>A name and the label that may follow it.\<close>

definition shown_name :: "string list \<Rightarrow> string" where
  "shown_name params = (if length params = 4 then params ! 3 else event_text params)"

definition listed :: "string \<Rightarrow> string list \<Rightarrow> pm_counter" where
  "listed address params = \<lparr>pc_address = address, pc_port = 6526, pc_device = params ! 1, pc_lines = params ! 2,
     pc_name = shown_name params, pc_timer_start = None, pc_timer_stop = None, pc_lines_mask = None, pc_counter = None\<rparr>"

text \<open>The connections of a creation, to a server that then agrees to \<open>n\<close> requests.\<close>

definition answering :: "nat \<Rightarrow> device \<Rightarrow> (nat \<Rightarrow> csock option) \<Rightarrow> bool" where
  "answering n d connect \<longleftrightarrow> (\<exists>s0 s1. connect 0 = Some s0 \<and> cs_room s0 = None \<and> cs_sent s0 = [] \<and>
     delivers (replicate (Suc n) (int_bytes (retval_code SUCCESS))) (cs_segments s0) \<and>
     connect 1 = Some s1 \<and> cs_room s1 = None \<and> delivers (info_writes d) (cs_segments s1))"

definition presentable :: "device \<Rightarrow> bool" where
  "presentable d \<longleftrightarrow> is_i32 (d_max_frequency d) \<and> 0 \<le> d_max_frequency d \<and> is_i32 (d_n_lines d) \<and> 0 \<le> d_n_lines d \<and>
     nameable (d_name d)"

lemma created:
  assumes "answering n d connect" and "presentable d" and "nameable dev" and "length dev \<le> 900" and "line_ok m"
  obtains cl where "pm_create_counter connect dev m 1 0 = Ok cl" and "agreeing n cl" and "measures_of cl = no_measures"
    and "cs_sent (cl_sock cl) = int_bytes (op_code CREATE) @ create_request dev 0 True (string_of_bytes m)"
proof -
  obtain s0 s1 where s: "connect 0 = Some s0" "cs_room s0 = None" "cs_sent s0 = []"
      "delivers (int_bytes 0 # replicate n (int_bytes 0)) (cs_segments s0)"
      "connect 1 = Some s1" "cs_room s1 = None" "delivers (info_writes d @ []) (cs_segments s1)"
    using assms(1) by (auto simp: answering_def)
  obtain t0 where t0: "delivers (replicate n (int_bytes 0)) t0" "request_counter dev m 1 0 s0 = (Ok 0, s0\<lparr>cs_sent := cs_sent s0 @
      int_bytes (op_code CREATE) @ create_request dev 0 (1 = (1::int)) (string_of_bytes m), cs_segments := t0\<rparr>)"
    by (rule request_run [OF s(2,4), of dev m 1 0]) (use assms(4,5) in \<open>simp_all add: is_i32_def\<close>)
  have l: "length dev \<le> 1000" using assms(4) by simp
  obtain r1 where r1: "pm_get_device_info dev s1 =
      (Ok \<lparr>dt_name = d_name d, dt_max_frecuency = d_max_frequency d, dt_n_lines = d_n_lines d\<rparr>, r1)"
    using device_question [OF s(6) assms(3) l s(7)] assms(2) unfolding presentable_def by metis
  let ?cl = "\<lparr>cl_sock = s0\<lparr>cs_sent := int_bytes (op_code CREATE) @ create_request dev 0 True (string_of_bytes m), cs_segments := t0\<rparr>,
    cl_counter = \<lparr>cc_aggregate = 1, cc_lines = m, cc_num_lines = d_n_lines d, cc_interval = 0, cc_measures = no_measures\<rparr>\<rparr>"
  have "pm_create_counter connect dev m 1 0 = Ok ?cl"
    using s(3) by (simp add: pm_create_counter_def open_connection_def s(1) s(5) [unfolded One_nat_def] t0(2) r1 del: op_code.simps)
  moreover have "agreeing n ?cl" using s(2) t0(1) by (auto simp: agreeing_def intro!: exI [of _ "[]"])
  ultimately show ?thesis using that by simp
qed

lemma finished:
  assumes "agreeing (Suc n) cl"
  shows "fst (pm_finalize_counter True cl) = Ok 0"
proof -
  obtain s where s: "via_sock (simple_request FINALIZE ''Mismatch in number of sent bytes in destroy counter''
       ''Failed to receive bytes from server destroy counter'' ''PM sever unable destroy counter'') cl = (Ok 0, cl\<lparr>cl_sock := s\<rparr>)"
    using request_agreed [OF assms] by metis
  show ?thesis by (simp add: pm_finalize_counter_def then_p_def bind_p_def s upd_measures_def)
qed

text \<open>
  C20: A name \<open>host_device_lines\<close>, with a label or without, is listed by the VampirTrace plugin when the server lets
  it create and finish the counter; adding the listed name then creates and starts a counter on that device, with
  the mask of exactly the lines named, and its start is noted by the tool's clock.
\<close>

theorem event_added:
  assumes "params \<in> {[host, dev, lines_text items], [host, dev, lines_text items, label]}"
    and "\<forall>p \<in> set params. CHR ''_'' \<notin> set p" and "nameable dev" and "length dev \<le> 900"
    and "items \<noteq> []" and "list_all item_ok items" and "length (concat (map item_lines items)) \<le> 128"
    and "ou_resolve ou1 host = Some address" and "server = pm_set_server address 6526" and "presentable d"
    and "answering 1 d (ou_connect ou1 server)" and "ou_close_ok ou1" and "answering 1 d (ou_connect ou2 server)"
    and "\<forall>c \<in> set (pl_counters pl). \<exists>e. c = Some e \<and> pc_name e \<noteq> shown_name params" and "pl_timer_function pl"
  shows "\<exists>pl1 pl2 m cl. get_event_info vt_variant ou1 (event_text params) pl = (Ok [\<lparr>mi_name = shown_name params, mi_unit = []\<rparr>], pl1) \<and>
    add_counter True ou2 (shown_name params) pl1 = (Ok (int (length (pl_counters pl))), pl2) \<and>
    pl_counters pl2 = pl_counters pl @ [Some ((listed address params)
      \<lparr>pc_lines_mask := Some m, pc_counter := Some cl, pc_timer_start := Some (ou_tick ou2)\<rparr>)] \<and>
    (\<forall>l. LINE_ISSET l m \<longleftrightarrow> (\<exists>it \<in> set items. l \<in> set (item_lines it))) \<and>
    cs_sent (cl_sock cl) = int_bytes (op_code CREATE) @ create_request dev 0 True (string_of_bytes m) @ int_bytes (op_code START) \<and>
    stamped (cc_measures (cl_counter cl)) [] (Some (time_of (ou_now ou2)))"
proof -
  let ?m = "items_mask items"
  have m: "pm_set_lines (lines_text items) m0 = Ok (0, ?m)" for m0 by (rule set_lines_items [OF assms(5-7)])
  have one: "1 = Suc 0" by simp
  obtain cl1 where c1: "pm_create_counter (ou_connect ou1 server) dev ?m 1 0 = Ok cl1" "agreeing (Suc 0) cl1"
    using created [OF assms(11,10,3,4) items_mask_ok] unfolding one by metis
  obtain cl2 where c2: "pm_create_counter (ou_connect ou2 server) dev ?m 1 0 = Ok cl2" "agreeing (Suc 0) cl2"
      "measures_of cl2 = no_measures"
      "cs_sent (cl_sock cl2) = int_bytes (op_code CREATE) @ create_request dev 0 True (string_of_bytes ?m)"
    using created [OF assms(13,10,3,4) items_mask_ok] unfolding one by metis
  have tl: "length (timing (measures_of cl2)) = TIMELEN" by (simp only: c2(3)) (simp add: no_measures_def)
  obtain cl3 where c3: "pm_start_counter (ou_now ou2) cl2 = (Ok 0, cl3)" "cs_sent (cl_sock cl3) = cs_sent (cl_sock cl2) @ int_bytes (op_code START)"
      "stamped (measures_of cl3) [] (Some (time_of (ou_now ou2)))"
    using start_agreed [OF c2(2) tl, of "ou_now ou2"] by metis
  have p: "params ! 0 = host" "params ! 1 = dev" "params ! 2 = lines_text items" "params \<noteq> []" "length params \<in> {3, 4}"
    using assms(1) by auto
  have s: "strwldcmp vt_variant (event_text params) = Ok (Some params)"
    using parts_of_text [OF p(4) assms(2), of "[]"] p(5) by (auto simp: strwldcmp_def vt_variant_def)
  have a: "address_of vt_variant ou1 host = Ok address"
    using assms(8) by (simp add: address_of_def vt_variant_def get_ip_from_hostname_def)
  have t: "try_counter vt_variant ou1 params = Ok 0"
    using p a m c1(1) finished [OF c1(2)] assms(12) by (simp add: try_counter_def assms(9) DEFAULT_PM_PORT_def)
  have u: "va_unit vt_variant = []" by (simp add: vt_variant_def)
  let ?pl1 = "pl\<lparr>pl_counters := pl_counters pl @ [Some (listed address params)]\<rparr>"
  have g: "get_event_info vt_variant ou1 (event_text params) pl = (Ok [\<lparr>mi_name = shown_name params, mi_unit = []\<rparr>], ?pl1)"
    using p a by (simp add: get_event_info_def s lift_p_Ok t bind_p_def lift_p_def Let_def listed_def shown_name_def u DEFAULT_PM_PORT_def)
  let ?e = "(listed address params)\<lparr>pc_lines_mask := Some ?m, pc_counter := Some cl3\<rparr>"
  have f: "find_counter (pl_counters pl @ [Some (listed address params)]) (shown_name params) 0 =
      Ok (Some (length (pl_counters pl), listed address params))"
    using find_counter_last [OF assms(14), of "listed address params" 0] by (simp add: listed_def)
  have o: "open_counter ou2 (listed address params) = Ok ?e"
    using p m c2(1) c3(1) by (simp add: open_counter_def listed_def assms(9))
  let ?pl2 = "?pl1\<lparr>pl_counters := pl_counters pl @ [Some (?e\<lparr>pc_timer_start := Some (ou_tick ou2)\<rparr>)]\<rparr>"
  have n: "add_counter True ou2 (shown_name params) ?pl1 = (Ok (int (length (pl_counters pl))), ?pl2)"
    by (simp add: add_counter_def f o assms(15))
  have q: "pl_counters ?pl2 = pl_counters pl @ [Some ((listed address params)
      \<lparr>pc_lines_mask := Some ?m, pc_counter := Some cl3, pc_timer_start := Some (ou_tick ou2)\<rparr>)]"
    by simp
  have l: "\<forall>l. LINE_ISSET l ?m \<longleftrightarrow> (\<exists>it \<in> set items. l \<in> set (item_lines it))" by (intro allI items_mask_member assms(6))
  show ?thesis
    by (rule exI [of _ ?pl1], rule exI [of _ ?pl2], rule exI [of _ ?m], rule exI [of _ cl3],
      rule conjI [OF g conjI [OF n conjI [OF q conjI [OF l conjI [OF c3(2) [unfolded c2(4) append_assoc] c3(3)]]]]])
qed

text \<open>A concrete tool: it asks a server at one address about line 0 of the device W, under a label.\<close>

definition demo_outside :: "nat \<Rightarrow> tick \<Rightarrow> outside" where
  "demo_outside k tick = \<lparr>ou_resolve = (\<lambda>h. Some ''10.0.0.9''), ou_connect = (\<lambda>s i. Some
     \<lparr>cs_segments = (if i = 0 then replicate (Suc k) (int_bytes (retval_code SUCCESS)) else info_writes demo_device), cs_sent = [], cs_room = None\<rparr>),
     ou_now = (5, 0), ou_tick = tick, ou_close_ok = True, ou_junk = []\<rparr>"

definition demo_loaded :: plugin where
  "demo_loaded = snd (vt_init (set_timer_function True plugin_loaded))"

lemma demo_tool:
  "presentable demo_device" "answering k demo_device (ou_connect (demo_outside k t) server)"
  "pl_counters demo_loaded = []" "pl_timer_function demo_loaded" "nameable ''W''"
  by (simp_all add: presentable_def demo_device_def Device_new_def Let_def is_i32_def nameable_def BUFFSIZE_def
      answering_def demo_outside_def delivers_writes demo_loaded_def vt_init_def set_timer_function_def plugin_loaded_def)

theorem event_added_witness:
  "\<exists>pl1 pl2. get_event_info vt_variant (demo_outside 1 0) ''meter_W_0_watts'' demo_loaded =
     (Ok [\<lparr>mi_name = ''watts'', mi_unit = []\<rparr>], pl1) \<and> add_counter True (demo_outside 1 100) ''watts'' pl1 = (Ok 0, pl2) \<and>
   map (map_option pc_timer_start) (pl_counters pl2) = [Some (Some 100)]"
proof -
  let ?ps = "[''meter'', ''W'', lines_text [One 0], ''watts'']"
  have t: "lines_text [One 0] = ''0''" by code_simp
  have e: "event_text ?ps = ''meter_W_0_watts''" "shown_name ?ps = ''watts''" by (simp_all add: t shown_name_def)
  have a: "?ps \<in> {[''meter'', ''W'', lines_text [One 0]], [''meter'', ''W'', lines_text [One 0], ''watts'']}"
      "\<forall>p \<in> set ?ps. CHR ''_'' \<notin> set p" "length ''W'' \<le> 900"
      "[One 0] \<noteq> []" "list_all item_ok [One 0]" "length (concat (map item_lines [One 0])) \<le> 128"
      "ou_resolve (demo_outside 1 0) ''meter'' = Some ''10.0.0.9''" "ou_close_ok (demo_outside 1 0)"
      "\<forall>c \<in> set (pl_counters demo_loaded). \<exists>e. c = Some e \<and> pc_name e \<noteq> shown_name ?ps"
    by (simp_all add: t demo_tool) (simp_all add: demo_outside_def)
  from event_added [OF a(1,2) demo_tool(5) a(3-7) HOL.refl demo_tool(1) demo_tool(2) a(8) demo_tool(2) a(9) demo_tool(4)]
  obtain pl1 pl2 m cl where w: "get_event_info vt_variant (demo_outside 1 0) ''meter_W_0_watts'' demo_loaded =
        (Ok [\<lparr>mi_name = ''watts'', mi_unit = []\<rparr>], pl1)"
      "add_counter True (demo_outside 1 100) ''watts'' pl1 = (Ok (int (length (pl_counters demo_loaded))), pl2)"
      "pl_counters pl2 = pl_counters demo_loaded @ [Some ((listed ''10.0.0.9'' ?ps)
        \<lparr>pc_lines_mask := Some m, pc_counter := Some cl, pc_timer_start := Some (ou_tick (demo_outside 1 100))\<rparr>)]"
    unfolding e by blast
  have "map (map_option pc_timer_start) (pl_counters pl2) = [Some (Some 100)]" by (simp add: w(3) demo_tool(3)) (simp add: demo_outside_def)
  moreover have "add_counter True (demo_outside 1 100) ''watts'' pl1 = (Ok 0, pl2)" using w(2) by (simp add: demo_tool(3))
  ultimately show ?thesis by (intro exI conjI) (rule w(1))
qed

section \<open>Values\<close>

text \<open>The times of a lap, and the samples of one set at them.\<close>

definition tick_at :: "tick \<Rightarrow> tick \<Rightarrow> nat \<Rightarrow> nat \<Rightarrow> tick" where
  "tick_at t0 t1 n j = t0 + ((t1 - t0) div of_nat n) * of_nat j"

lemma unat_tick_at:
  assumes "t0 \<le> t1" and "0 < n" and "n < 2147483648" and "j < n"
  shows "unat (tick_at t0 t1 n j) = unat t0 + j * ((unat t1 - unat t0) div n)"
proof -
  let ?q = "(unat t1 - unat t0) div n"
  have n: "unat (of_nat n :: tick) = n" "unat (of_nat j :: tick) = j" using assms by (simp_all add: unat_of_nat)
  have q: "unat ((t1 - t0) div of_nat n) = ?q" using assms(1) n by (simp add: unat_div unat_sub)
  have le: "j * ?q \<le> unat t1 - unat t0"
    using mult_le_mono1 [of j n ?q] assms(4) times_div_less_eq_dividend [of n "unat t1 - unat t0"] by linarith
  have b: "unat t1 < 18446744073709551616" using unsigned_less [of t1] by simp
  have t: "unat t0 \<le> unat t1" using assms(1) by (simp add: word_le_nat_alt)
  have m: "unat (((t1 - t0) div of_nat n) * of_nat j) = j * ?q"
    using le b by (simp add: unat_word_ariths(2) q n mult.commute)
  show ?thesis unfolding tick_at_def using le b t by (simp add: unat_word_ariths(1) m)
qed

lemma fill_set_rest:
  assumes "length ws = n" and "k \<le> n"
  shows "fill_set t inc 0 ws [int k..int n - 1] (map (\<lambda>i. Some (t + inc * of_nat i, ws ! i)) [0..<k] @ replicate (n - k) None @ [z]) =
    Ok (map (\<lambda>i. Some (t + inc * of_nat i, ws ! i)) [0..<n] @ [z])"
  using assms(2)
proof (induction "n - k" arbitrary: k)
  case 0
  then show ?case by simp
next
  case (Suc m)
  then have k: "k < n" by simp
  have "[int k..int n - 1] = int k # [int (Suc k)..int n - 1]"
    using k by (subst upto_rec1) (simp_all add: algebra_simps)
  moreover have "(map (\<lambda>i. Some (t + inc * of_nat i, ws ! i)) [0..<k] @ replicate (n - k) None @ [z])[k := Some (t + inc * of_nat k, ws ! k)] =
      map (\<lambda>i. Some (t + inc * of_nat i, ws ! i)) [0..<Suc k] @ replicate (n - Suc k) None @ [z]"
    using k by (cases "n - k") (simp_all add: list_update_append Suc_diff_Suc [symmetric])
  moreover have "rd ws (int k) = Ok (ws ! k)" using k assms(1) by (simp add: rd_def)
  ultimately show ?case using Suc.hyps(1) [of "Suc k"] Suc.hyps(2) k by simp
qed

lemma values_one_set:
  assumes "ws \<noteq> []" and "length ws < 2147483648"
  shows "time_values_of t0 t1 \<lparr>watts_size = int (length ws), watts_sets_size = 2, watts_sets = [0, int (length ws)], watts = ws, lines_len = nl\<rparr> =
    Ok (of_nat (length ws), map (\<lambda>i. Some (tick_at t0 t1 (length ws) i, ws ! i)) [0..<length ws] @ [Some (0, 0)])"
proof -
  have "fill_set t0 inc 0 ws [0..int (length ws) - 1] (replicate (length ws) None @ [Some (0, 0)]) =
      Ok (map (\<lambda>i. Some (t0 + inc * of_nat i, ws ! i)) [0..<length ws] @ [Some (0, 0)])" for inc
    using fill_set_rest [of ws "length ws" 0 t0 inc] by simp
  then show ?thesis
    using assms by (simp add: time_values_of_def Let_def rd_def int_sub_def is_i32_def tick_at_def)
qed

text \<open>Stopping a counter and fetching its data.\<close>

lemma stop_and_fetch:
  assumes "cs_room (cl_sock cl) = None" and "delivers (int_bytes 0 # get_writes n_lines ns ws @ rest) (cs_segments (cl_sock cl))"
    and "stamped (measures_of cl) tms (Some b)"
    and "ns \<noteq> []" and "\<forall>n \<in> set ns. is_i32 n" and "is_i32 n_lines" and "int (4 * length ns + 8 * length ws) < 2147483648"
  obtains cl' where "then_p (pm_stop_counter now) pm_get_counter_data cl = (Ok 1, cl')"
    and "energy (measures_of cl') = \<lparr>watts_size = int (length ws), watts_sets_size = int (length ns), watts_sets = ns, watts = ws,
      lines_len = n_lines\<rparr>" and "delivers rest (cs_segments (cl_sock cl'))" and "cs_room (cl_sock cl') = None"
proof -
  let ?stop = "simple_request STOP ''Mismatch in number of sent bytes in stop counter''
       ''Failed to receive bytes from server in stop counter'' ''PM sever unable stop counter''"
  let ?m = "(measures_of cl)\<lparr>timing := (timing (measures_of cl))[nat (next_timing (measures_of cl) * 2 + 1) := Some (time_of now)],
    next_timing := next_timing (measures_of cl) + 1\<rparr>"
  let ?cl = "cl\<lparr>cl_counter := (cl_counter cl)\<lparr>cc_measures := ?m\<rparr>\<rparr>"
  have "even TIMELEN" by (simp add: TIMELEN_def)
  then have l: "2 * length tms + 1 < TIMELEN" using assms(3) by (auto simp: stamped_def) (metis Suc_lessI dvd_triv_left even_Suc)
  have u: "upd_measures (\<lambda>m. bind_r (set_timing (next_timing m * 2 + 1) (time_of now) m) (\<lambda>m'.
       Ok (m'\<lparr>next_timing := next_timing m' + 1\<rparr>))) cl = (Ok (), ?cl)"
    using assms(3) l by (auto simp: upd_measures_def set_timing_def stamped_def)
  have g: "gets [int_bytes 0] (recv_natural e1 e2) 0" for e1 e2 by (rule gets_natural) (simp_all add: is_i32_def)
  obtain segs where s: "?stop (cl_sock cl) =
      (Ok 0, (cl_sock cl)\<lparr>cs_sent := cs_sent (cl_sock cl) @ int_bytes (op_code STOP), cs_segments := segs\<rparr>)"
      "delivers (get_writes n_lines ns ws @ rest) segs"
    unfolding simple_request_def by (rule asks [OF assms(1) g, where rest = "get_writes n_lines ns ws @ rest"]) (use assms(2) in auto)
  let ?cl2 = "?cl\<lparr>cl_sock := (cl_sock cl)\<lparr>cs_sent := cs_sent (cl_sock cl) @ int_bytes (op_code STOP), cs_segments := segs\<rparr>\<rparr>"
  have p: "pm_stop_counter now cl = (Ok 0, ?cl2)"
    by (simp add: pm_stop_counter_def then_p_def bind_p_def u via_sock_def s(1) del: op_code.simps)
  have d: "cs_room (cl_sock ?cl2) = None" "delivers (get_writes n_lines ns ws @ rest) (cs_segments (cl_sock ?cl2))"
    using assms(1) s(2) by simp_all
  show ?thesis
  proof (rule fetch_get [OF d assms(4-7)], goal_cases)
    case (1 segs')
    from 1(2) p show ?case
      by (intro that) (simp add: then_p_def bind_p_def, use 1(1) assms(1) in simp_all)
  qed
qed

text \<open>
  C19: From the device to the tracing tool: a counter the VampirTrace plugin started records, summed over its lines,
  the samples the device delivered meanwhile, whatever other clients did; asked for all values, the server replies
  with these sums, and the plugin hands exactly them to the tool, in order and ended by an empty pair, with times of
  the tool's clock spread evenly from the start, none of them after the end.
\<close>

theorem tool_gets_samples:
  assumes "inv s" and "measurement s v xs v' s'"
    and "amap_get (sv_devices (sy_server s')) (ct_dev (lv_counter v)) = Some d"
    and "ct_lines (lv_counter v) = ls" and "ls \<noteq> []" and "ct_interval (lv_counter v) = 1" and "ct_aggregate (lv_counter v)"
    and "data = map (\<lambda>x. fold (\<lambda>l acc. d_add acc (x ! nat l)) ls d_zero) xs"
    and "xs \<noteq> []" and "8 + 8 * length xs < 2147483648" and "length ls < 2147483648"
    and "pl_init_failed pl = 0" and "pl_timer_function pl" and "i < length (pl_counters pl)" and "pl_counters pl ! i = Some e"
    and "pc_counter e = Some cl" and "pc_timer_start e = Some t0" and "t0 \<le> ou_tick ou"
    and "stamped (cc_measures (cl_counter cl)) [] (Some a)" and "cs_room (cl_sock cl) = None"
    and "delivers (int_bytes (retval_code SUCCESS) # get_writes (int (length ls)) [0, int (length xs)] data) (cs_segments (cl_sock cl))"
  shows "get_reply (lv_counter v') d = Ok ([0, int (length xs)], data) \<and>
    (\<exists>pl'. vt_get_all_values ou (int i) pl = (Ok (of_nat (length xs),
      Some (map (\<lambda>j. Some (tick_at t0 (ou_tick ou) (length xs) j, data ! j)) [0..<length xs] @ [Some (0, 0)])), pl')) \<and>
    (\<forall>j < length xs. unat (tick_at t0 (ou_tick ou) (length xs) j) =
      unat t0 + j * ((unat (ou_tick ou) - unat t0) div length xs))"
proof -
  note m = measurement_took [OF assms(1-3)]
  obtain se where se: "ct_sets (lv_counter v') = [se]" "took (lv_counter v') d xs se" using m(6) by blast
  have r: "get_reply (lv_counter v') d = Ok ([0, int (length xs)], data)"
    using took_reply_sums [OF se(2,1)] m(1-5,7) assms(4-8) by simp
  have b: "[0, int (length xs)] \<noteq> []" "\<forall>n \<in> set [0, int (length xs)]. is_i32 n" "is_i32 (int (length ls))"
      "int (4 * length [0, int (length xs)] + 8 * length data) < 2147483648" "data \<noteq> []" "length data < 2147483648"
      "length data = length xs"
    using assms(8-11) by (auto simp: is_i32_def)
  have dl: "delivers (int_bytes 0 # get_writes (int (length ls)) [0, int (length xs)] data @ []) (cs_segments (cl_sock cl))"
    using assms(21) by simp
  obtain cl' where c: "then_p (pm_stop_counter (ou_now ou)) pm_get_counter_data cl = (Ok 1, cl')"
      "energy (cc_measures (cl_counter cl')) = \<lparr>watts_size = int (length data), watts_sets_size = int (length [0, int (length xs)]),
        watts_sets = [0, int (length xs)], watts = data, lines_len = int (length ls)\<rparr>"
    by (rule stop_and_fetch [OF assms(20) dl assms(19) b(1-4)])
  have e: "counter_of pl (int i) = Ok (e, cl)" using assms(14-16) by (simp add: counter_of_def rd_def)
  have v: "time_values_of t0 (ou_tick ou) (energy (cc_measures (cl_counter cl'))) =
      Ok (of_nat (length xs), map (\<lambda>j. Some (tick_at t0 (ou_tick ou) (length xs) j, data ! j)) [0..<length xs] @ [Some (0, 0)])"
    using values_one_set [OF b(5,6)] c(2) b(7) by simp
  have "\<exists>pl'. vt_get_all_values ou (int i) pl = (Ok (of_nat (length xs),
      Some (map (\<lambda>j. Some (tick_at t0 (ou_tick ou) (length xs) j, data ! j)) [0..<length xs] @ [Some (0, 0)])), pl')"
    by (simp add: vt_get_all_values_def PL_SUCCESS_def assms(12,13,17) e c(1) v)
  moreover have "0 < length xs" "length xs < 2147483648" using assms(9,10) by simp_all
  ultimately show ?thesis using r unat_tick_at [OF assms(18)] by blast
qed

text \<open>The concrete server, and a tool that added its counter at 1000 and asks at 1031.\<close>

definition demo_tracer :: plugin where
  "demo_tracer = demo_loaded\<lparr>pl_counters := [Some ((listed ''10.0.0.9'' [''meter'', ''W'', ''0''])\<lparr>pc_timer_start := Some 1000,
     pc_counter := Some \<lparr>cl_sock = \<lparr>cs_segments = int_bytes (retval_code SUCCESS) # get_writes 1 [0, 2] [d_add d_zero 7, d_add d_zero 9],
         cs_sent = [], cs_room = None\<rparr>,
       cl_counter = \<lparr>cc_aggregate = 1, cc_lines = demo_mask, cc_num_lines = 1, cc_interval = 0,
         cc_measures = no_measures\<lparr>timing := (replicate TIMELEN None)[0 := Some 1]\<rparr>\<rparr>\<rparr>\<rparr>)]\<rparr>"

theorem tool_gets_samples_witness:
  "\<exists>pl'. vt_get_all_values (demo_outside 0 1031) 0 demo_tracer =
    (Ok (2, Some [Some (1000, d_add d_zero 7), Some (1015, d_add d_zero 9), Some (0, 0)]), pl')"
proof -
  let ?v = "demo_live True" and ?e = "the (pl_counters demo_tracer ! 0)"
  let ?s' = "\<lparr>sy_server = demo_srv True 0 [7, 9], sy_live = [demo_final True [7, 9]]\<rparr>" and ?d = "[d_add d_zero 7, d_add d_zero 9]"
  let ?cl = "the (pc_counter ?e)"
  have f: "ct_lines (lv_counter ?v) = [0]" "ct_interval (lv_counter ?v) = 1" "ct_aggregate (lv_counter ?v)"
    by (simp_all add: demo_conn_fields demo_counter_def)
  have d: "amap_get (sv_devices (sy_server ?s')) (ct_dev (lv_counter ?v)) = Some (demo_dev True 0 [7, 9])"
    by (simp add: demo_conn_fields demo_counter_def demo_srv_def)
  have x: "?d = map (\<lambda>x. fold (\<lambda>l acc. d_add acc (x ! nat l)) [0] d_zero) [[7], [9]]" "[[7], [9::double]] \<noteq> []"
      "8 + 8 * length [[7], [9::double]] < 2147483648" "length [0::int] < 2147483648" "[0::int] \<noteq> []"
    by simp_all
  have p: "pl_init_failed demo_tracer = 0" "pl_timer_function demo_tracer" "0 < length (pl_counters demo_tracer)"
    by (simp_all add: demo_tracer_def demo_loaded_def vt_init_def set_timer_function_def plugin_loaded_def PL_SUCCESS_def)
  have e: "pl_counters demo_tracer ! 0 = Some ?e" "pc_counter ?e = Some ?cl" "pc_timer_start ?e = Some 1000"
    by (simp_all add: demo_tracer_def)
  have o: "ou_tick (demo_outside 0 1031) = 1031" by (simp add: demo_outside_def)
  have t: "1000 \<le> ou_tick (demo_outside 0 1031)" unfolding o by simp
  have c: "stamped (cc_measures (cl_counter ?cl)) [] (Some 1)" "cs_room (cl_sock ?cl) = None"
    by (simp_all add: demo_tracer_def no_measures_def stamped_def TIMELEN_def)
  have w: "delivers (int_bytes (retval_code SUCCESS) # get_writes (int (length [0::int])) [0, int (length [[7], [9::double]])] ?d)
      (cs_segments (cl_sock ?cl))"
    by (simp add: demo_tracer_def delivers_writes del: retval_code.simps)
  have n: "tick_at 1000 1031 (Suc (Suc 0)) 0 = 1000" "tick_at 1000 1031 (Suc (Suc 0)) (Suc 0) = 1015"
    by (simp_all add: tick_at_def)
  show ?thesis
    using tool_gets_samples [OF demo_inv demo_measurement d f(1) x(5) f(2,3) x(1-4) p e t c w] by (simp add: o n)
qed

end
