(* ===== verification/Client_Otf.thy ===== *)
theory Client_Otf
  imports Client_Traces
begin

text \<open>
  Traces in the Open Trace Format (\<open>client/pm_print_data_otf.c\<close>), as the sequence of calls made to the OTF library with
  the arguments they are given. The counter properties, constants of that library, are left out.
\<close>

section \<open>Calls of the library\<close>

datatype otf_call =
    writeEnter int int int int
  | writeLeave int int int int
  | writeCounter int int int int
  | writeDefTimerResolution int int
  | writeDefProcess int int string int
  | writeDefCounterGroup int int string
  | writeDefCounter int int string int string
  | Writer_close
  | FileManager_close

text \<open>Conversions to \<open>uint64_t\<close> are defined only for values that fit.\<close>

definition fits_u64 :: "int option \<Rightarrow> int res" where
  "fits_u64 r = (case r of None \<Rightarrow> Undef ''conversion out of range''
     | Some i \<Rightarrow> if 0 \<le> i \<and> i < 18446744073709551616 then Ok i else Undef ''conversion out of range'')"

definition micros :: "ldouble \<Rightarrow> int res" where
  "micros t = fits_u64 (fp_trunc (l_val (l_mul t (l_of_int 1000000))))"

definition milliwatts :: "double \<Rightarrow> int res" where
  "milliwatts w = fits_u64 (fp_round_away (d_val (d_mul w (d_of_int 1000))))"

definition otf_counter :: "ldouble \<Rightarrow> int \<Rightarrow> double \<Rightarrow> otf_call res" where
  "otf_counter tm counter w = bind_r (micros tm) (\<lambda>t. bind_r (milliwatts w) (\<lambda>v. Ok (writeCounter t 0 counter v)))"

section \<open>The trace\<close>

fun otf_sums :: "double list \<Rightarrow> ldouble \<Rightarrow> int list \<Rightarrow> ldouble \<Rightarrow> otf_call list res" where
  "otf_sums ws inc_time [] tm = Ok []"
| "otf_sums ws inc_time (i # is) tm =
     bind_r (rd ws i) (\<lambda>w.
     bind_r (otf_counter tm 0 w) (\<lambda>c.
     bind_r (otf_sums ws inc_time is (l_add tm inc_time)) (\<lambda>cs. Ok (c # cs))))"

text \<open>One sample of each chosen line, numbered from 1, and their sum as counter 0.\<close>

fun otf_sample :: "double list \<Rightarrow> int \<Rightarrow> int \<Rightarrow> ldouble \<Rightarrow> int \<Rightarrow> (int \<times> int) list \<Rightarrow> double \<Rightarrow> otf_call list res" where
  "otf_sample ws i interval tm j [] sm = bind_r (otf_counter tm 0 sm) (\<lambda>c. Ok [c])"
| "otf_sample ws i interval tm j ((ip, l) # inds) sm =
     bind_r (rd ws (i + interval * ip)) (\<lambda>w.
     bind_r (otf_counter tm (j + 1) w) (\<lambda>c.
     bind_r (otf_sample ws i interval tm (j + 1) inds (d_add sm w)) (\<lambda>cs. Ok (c # cs))))"

fun otf_samples :: "double list \<Rightarrow> int \<Rightarrow> (int \<times> int) list \<Rightarrow> ldouble \<Rightarrow> int list \<Rightarrow> ldouble \<Rightarrow> otf_call list res" where
  "otf_samples ws interval inds inc_time [] tm = Ok []"
| "otf_samples ws interval inds inc_time (i # is) tm =
     bind_r (otf_sample ws i interval tm 0 inds d_zero) (\<lambda>cs.
     bind_r (otf_samples ws interval inds inc_time is (l_add tm inc_time)) (\<lambda>rest. Ok (cs @ rest)))"

fun line_counters :: "int \<Rightarrow> (int \<times> int) list \<Rightarrow> otf_call list" where
  "line_counters j [] = []"
| "line_counters j ((ip, l) # inds) = writeDefCounter 0 j (''Line '' @ to_string l) 63 ''Watts'' # line_counters (j + 1) inds"

definition otf_end :: "int \<Rightarrow> (int \<times> int) list \<Rightarrow> otf_call list" where
  "otf_end total_us inds = [writeLeave total_us 1 0 0, writeDefTimerResolution 0 1000000, writeDefProcess 0 0 ''Power'' 0,
     writeDefCounterGroup 0 63 ''Power''] @
     writeDefCounter 0 0 ''Sum'' 63 ''Watts'' # line_counters 1 inds @ [Writer_close, FileManager_close]"

definition pm_print_data_otf :: "bool \<Rightarrow> counter_t \<Rightarrow> line_t \<Rightarrow> int \<Rightarrow> (int \<times> otf_call list) res" where
  "pm_print_data_otf opened ctr lines which =
     (let m = cc_measures ctr; e = energy m; begin_calls = [writeEnter 0 1 0 0] in
      if \<not> opened then Throw (Runtime_error ''assertion failed'')
      else bind_r (if which = - 1 then all_time m else set_time m which) (\<lambda>(tot_time, watts_size).
      bind_r (time_step tot_time watts_size) (\<lambda>inc_time.
        case sets_range which e of
          None \<Rightarrow> Ok (- 1, begin_calls)
        | Some (init, stop) \<Rightarrow>
            bind_r (if cc_aggregate ctr \<noteq> 0
              then bind_r (first_time m which) (\<lambda>tm.
                   bind_r (set_indices e [init..stop - 1]) (\<lambda>is.
                   bind_r (otf_sums (watts e) inc_time is tm) (\<lambda>cs. Ok ([], cs))))
              else bind_r (chosen_lines lines ctr) (\<lambda>(inds, n_counter).
                   bind_r (total_interval e) (\<lambda>interval.
                   bind_r (first_time m which) (\<lambda>tm.
                   bind_r (set_indices e [init..stop - 1]) (\<lambda>is.
                   bind_r (otf_samples (watts e) interval inds inc_time is tm) (\<lambda>cs. Ok (inds, cs))))))) (\<lambda>(inds, cs).
            bind_r (micros tot_time) (\<lambda>total_us. Ok (0, begin_calls @ cs @ otf_end total_us inds))))))"

section \<open>A measurement with one set\<close>

text \<open>Where the conversions are defined, the calls of one sample, and of a set.\<close>

fun numbered_counters :: "int \<Rightarrow> int \<Rightarrow> int list \<Rightarrow> otf_call list" where
  "numbered_counters t j [] = []"
| "numbered_counters t j (v # vs) = writeCounter t 0 (j + 1) v # numbered_counters t (j + 1) vs"

lemma otf_sample_block:
  assumes "block_at ws off n blk" and "i < n" and "\<forall>(k, l) \<in> set cols. 0 \<le> k \<and> k < int (length blk)"
    and "micros tm = Ok t" and "\<forall>c \<in> set cols. milliwatts (blk ! nat (fst c) ! i) = Ok (val c)"
    and "milliwatts (fold (\<lambda>c acc. d_add acc (blk ! nat (fst c) ! i)) cols sm) = Ok total_us"
  shows "otf_sample ws (int off + int i) (int n) tm j cols sm =
    Ok (numbered_counters t j (map val cols) @ [writeCounter t 0 0 total_us])"
  using assms(3,5,6)
proof (induction cols arbitrary: j sm)
  case Nil
  then show ?case using assms(4) by (simp add: otf_counter_def)
next
  case (Cons c cols)
  obtain k l where c: "c = (k, l)" by force
  have "rd ws (int off + int i + int n * k) = Ok (blk ! nat k ! i)"
    using block_rd [OF assms(1) _ assms(2), of "nat k"] Cons.prems(1) c by (simp add: nat_less_iff)
  then show ?case using Cons c assms(4) by (simp add: otf_counter_def)
qed

text \<open>Every counter that is written is defined at the end, and only those.\<close>

definition defined_counters :: "otf_call list \<Rightarrow> int set" where
  "defined_counters cs = {j. \<exists>t nm g u. writeDefCounter t j nm g u \<in> set cs}"

definition written_counters :: "otf_call list \<Rightarrow> int set" where
  "written_counters cs = {j. \<exists>t p v. writeCounter t p j v \<in> set cs}"

lemma written_append: "written_counters (xs @ ys) = written_counters xs \<union> written_counters ys"
  by (auto simp: written_counters_def)

lemma defined_append: "defined_counters (xs @ ys) = defined_counters xs \<union> defined_counters ys"
  by (auto simp: defined_counters_def)

lemma otf_counter_calls: "otf_counter tm j w = Ok c \<Longrightarrow> \<exists>t v. c = writeCounter t 0 j v"
  by (auto simp: otf_counter_def bind_r_Ok_iff)

lemma written_one: "written_counters (writeCounter t p j v # cs) = insert j (written_counters cs)"
  and defined_one: "defined_counters (writeCounter t p j v # cs) = defined_counters cs"
  by (auto simp: written_counters_def defined_counters_def)

lemma otf_sample_counters:
  "otf_sample ws i interval tm j inds sm = Ok cs \<Longrightarrow>
    written_counters cs = insert 0 {j + 1..j + int (length inds)} \<and> defined_counters cs = {}"
proof (induction inds arbitrary: j sm cs)
  case Nil
  then show ?case using otf_counter_calls by (fastforce simp: bind_r_Ok_iff written_counters_def defined_counters_def)
next
  case (Cons a inds)
  obtain ip l where a: "a = (ip, l)" by force
  with Cons.prems obtain w c cs' where c: "otf_counter tm (j + 1) w = Ok c" "cs = c # cs'"
      "otf_sample ws i interval tm (j + 1) inds (d_add sm w) = Ok cs'"
    by (auto simp: bind_r_Ok_iff)
  obtain t v where "c = writeCounter t 0 (j + 1) v" using otf_counter_calls [OF c(1)] by blast
  moreover have "insert (j + 1) {j + 1 + 1..j + 1 + int (length inds)} = {j + 1..j + int (length (a # inds))}" by auto
  ultimately show ?case using Cons.IH [OF c(3)] c(2) by (simp add: written_one defined_one insert_commute)
qed

lemma otf_samples_counters:
  "otf_samples ws interval inds inc_time is tm = Ok cs \<Longrightarrow>
    written_counters cs = (if is = [] then {} else {0..int (length inds)}) \<and> defined_counters cs = {}"
proof (induction "is" arbitrary: tm cs)
  case Nil
  then show ?case by (simp add: written_counters_def defined_counters_def)
next
  case (Cons i "is")
  then obtain xs ys where x: "otf_sample ws i interval tm 0 inds d_zero = Ok xs" "cs = xs @ ys"
      "otf_samples ws interval inds inc_time is (l_add tm inc_time) = Ok ys"
    by (auto simp: bind_r_Ok_iff)
  have "insert 0 {0 + 1..0 + int (length inds)} = {0..int (length inds)}" by auto
  then show ?case using otf_sample_counters [OF x(1)] Cons.IH [OF x(3)] x(2) by (auto simp: written_append defined_append)
qed

lemma counters_Cons:
  "defined_counters (writeDefCounter t j nm g u # cs) = insert j (defined_counters cs)"
  "written_counters (writeDefCounter t j nm g u # cs) = written_counters cs"
  "defined_counters [] = {}" "written_counters [] = {}"
  by (auto simp: written_counters_def defined_counters_def)

lemma defined_lines: "defined_counters (line_counters j inds) = {j..<j + int (length inds)}"
proof (induction j inds rule: line_counters.induct)
  case (2 j ip l inds)
  have "insert j {j + 1..<j + 1 + int (length inds)} = {j..<j + int (length ((ip, l) # inds))}" by auto
  then show ?case using 2 by (simp add: counters_Cons)
qed (simp add: counters_Cons)

lemma written_lines: "written_counters (line_counters j inds) = {}"
  by (induction j inds rule: line_counters.induct) (simp_all add: counters_Cons)

lemma otf_end_counters:
  "defined_counters (otf_end t inds) = {0..int (length inds)}" "written_counters (otf_end t inds) = {}"
proof -
  let ?h = "[writeLeave t 1 0 0, writeDefTimerResolution 0 1000000, writeDefProcess 0 0 ''Power'' 0, writeDefCounterGroup 0 63 ''Power'']"
    and ?c = "[Writer_close, FileManager_close]"
  have h: "defined_counters ?h = {}" "written_counters ?h = {}" "defined_counters ?c = {}" "written_counters ?c = {}"
    by (auto simp: defined_counters_def written_counters_def)
  have "insert 0 {1..<1 + int (length inds)} = {0..int (length inds)}" by auto
  then show "defined_counters (otf_end t inds) = {0..int (length inds)}" "written_counters (otf_end t inds) = {}"
    unfolding otf_end_def defined_append written_append h by (simp_all only: counters_Cons defined_lines written_lines defined_append written_append h) auto
qed

lemma otf_sums_counters:
  "otf_sums ws inc_time is tm = Ok cs \<Longrightarrow> written_counters cs = (if is = [] then {} else {0}) \<and> defined_counters cs = {}"
proof (induction "is" arbitrary: tm cs)
  case Nil
  then show ?case by (simp add: written_counters_def defined_counters_def)
next
  case (Cons i "is")
  then obtain w c cs' where c: "otf_counter tm 0 w = Ok c" "cs = c # cs'" "otf_sums ws inc_time is (l_add tm inc_time) = Ok cs'"
    by (auto simp: bind_r_Ok_iff)
  obtain t v where "c = writeCounter t 0 0 v" using otf_counter_calls [OF c(1)] by blast
  then show ?case using Cons.IH [OF c(3)] c(2) by (auto simp: written_one defined_one)
qed

lemma otf_counters_defined:
  assumes "pm_print_data_otf True ctr lines which = Ok (0, calls)"
  shows "written_counters calls \<subseteq> defined_counters calls"
proof -
  obtain inds cs t where c: "calls = [writeEnter 0 1 0 0] @ cs @ otf_end t inds"
      "(\<exists>ws inc is tm. inds = [] \<and> otf_sums ws inc is tm = Ok cs) \<or> (\<exists>ws k inc is tm. otf_samples ws k inds inc is tm = Ok cs)"
    using assms by (auto simp: pm_print_data_otf_def Let_def bind_r_Ok_iff split: option.splits if_splits prod.splits) blast+
  have "written_counters cs \<subseteq> {0..int (length inds)}"
    using c(2) by (auto dest!: otf_sums_counters otf_samples_counters split: if_splits)
  moreover have "written_counters [writeEnter 0 1 0 0] = {}" by (simp add: written_counters_def)
  ultimately show ?thesis unfolding c(1) written_append defined_append otf_end_counters by blast
qed

end
