(* ===== verification/Json_Styled.thy ===== *)
theory Json_Styled
  imports Json_Reader Json_Writer
begin

text \<open>
  The writers that lay a value out over several lines (\<open>server/utils/jsoncpp.cpp\<close>): \<open>StyledWriter\<close>,
  which looks at the document written so far to see whether it is indented, \<open>StyledStreamWriter\<close> and the
  \<open>BuiltStyledStreamWriter\<close> of \<open>StreamWriterBuilder\<close>, which keep a flag for that. The three share their code
  but for a few lines, and so do their models. Values carry no comments here, so the tests for comments
  are false, and a string value without characters of its own is not told apart from an empty one.
\<close>

section \<open>State\<close>

datatype writer_class = StyledWriter | StyledStreamWriter | BuiltStyledStreamWriter

record styled_writer =
  sw_class :: writer_class
  sw_indentation :: string
  commentsAll :: bool
  colonSymbol :: string
  nullSymbol :: string
  endingLineFeedSymbol :: string
  sw_useSpecialFloats :: bool
  sw_precision :: nat

text \<open>What a writer has at hand while it writes.\<close>

record writing =
  document :: string
  childValues :: "string list"
  indentString :: string
  addChildValues :: bool
  indented :: bool

definition rightMargin :: int where "rightMargin = 74"

text \<open>Names are written as C strings by two of the writers.\<close>

definition c_str :: "string \<Rightarrow> string" where
  "c_str s = takeWhile (\<lambda>c. c \<noteq> CHR 0x00) s"

definition containsControlCharacter :: "string \<Rightarrow> bool" where
  "containsControlCharacter s \<longleftrightarrow> list_ex isControlCharacter s"

definition valueToQuotedString :: "string \<Rightarrow> string" where
  "valueToQuotedString value = (let s = c_str value in
     if \<not> strnpbrk s escaped_specials \<and> \<not> containsControlCharacter s
     then [CHR 0x22] @ s @ [CHR 0x22]
     else [CHR 0x22] @ concat (map escape_char s) @ [CHR 0x22])"

section \<open>Pieces of text\<close>

definition emit :: "string \<Rightarrow> writing \<Rightarrow> writing" where
  "emit t s = s\<lparr>document := document s @ t\<rparr>"

definition pushValue :: "string \<Rightarrow> writing \<Rightarrow> writing" where
  "pushValue t s = (if addChildValues s then s\<lparr>childValues := childValues s @ [t]\<rparr> else emit t s)"

definition StyledWriter_writeIndent :: "writing \<Rightarrow> writing" where
  "StyledWriter_writeIndent s =
     (if document s = [] then emit (indentString s) s
      else if last (document s) = CHR '' '' then s
      else if last (document s) \<noteq> CHR 0x0A then emit (CHR 0x0A # indentString s) s
      else emit (indentString s) s)"

definition StyledStreamWriter_writeIndent :: "writing \<Rightarrow> writing" where
  "StyledStreamWriter_writeIndent s = emit (CHR 0x0A # indentString s) s"

definition BuiltStyledStreamWriter_writeIndent :: "styled_writer \<Rightarrow> writing \<Rightarrow> writing" where
  "BuiltStyledStreamWriter_writeIndent w s =
     (if sw_indentation w \<noteq> [] then emit (CHR 0x0A # indentString s) s else s)"

text \<open>The indentation when there is none yet: the stream writers ask their flag first.\<close>

definition ensure_indent :: "styled_writer \<Rightarrow> writing \<Rightarrow> writing" where
  "ensure_indent w s = (case sw_class w of
     StyledWriter \<Rightarrow> StyledWriter_writeIndent s
   | StyledStreamWriter \<Rightarrow> (if indented s then s else StyledStreamWriter_writeIndent s)
   | BuiltStyledStreamWriter \<Rightarrow> (if indented s then s else BuiltStyledStreamWriter_writeIndent w s))"

definition writeWithIndent :: "styled_writer \<Rightarrow> string \<Rightarrow> writing \<Rightarrow> writing" where
  "writeWithIndent w t s = (emit t (ensure_indent w s))\<lparr>indented := False\<rparr>"

definition indent :: "styled_writer \<Rightarrow> writing \<Rightarrow> writing" where
  "indent w s = s\<lparr>indentString := indentString s @ sw_indentation w\<rparr>"

definition unindent :: "styled_writer \<Rightarrow> writing \<Rightarrow> writing" where
  "unindent w s = s\<lparr>indentString := take (length (indentString s) - length (sw_indentation w)) (indentString s)\<rparr>"

text \<open>Without a comment to write, \<open>StyledStreamWriter\<close> still clears its flag after a value.\<close>

definition writeCommentAfterValueOnSameLine :: "styled_writer \<Rightarrow> writing \<Rightarrow> writing" where
  "writeCommentAfterValueOnSameLine w s = (if sw_class w = StyledStreamWriter then s\<lparr>indented := False\<rparr> else s)"

section \<open>Arrays\<close>

text \<open>
  Each item is given by the steps that write it, and by whether it is an array or object with something in it.
  Items are first written into the child values, to see whether they fit on a line.
\<close>

definition isMultineArray :: "bool list \<Rightarrow> (writing \<Rightarrow> writing) list \<Rightarrow> writing \<Rightarrow> bool \<times> writing" where
  "isMultineArray nested acts s =
     (let s1 = s\<lparr>childValues := []\<rparr>; n = length acts in
      if rightMargin \<le> (int n * 3) mod 2 ^ 32 \<or> list_ex (\<lambda>b. b) nested then (True, s1)
      else let (s2, lineLength) = fold (\<lambda>(index, a) (s, len). let s' = a s in
                 (s', (len + int (length (childValues s' ! index))) mod 2 ^ 32))
               (zip [0..<n] acts) (s1\<lparr>addChildValues := True\<rparr>, (4 + (int n - 1) * 2) mod 2 ^ 32)
           in (rightMargin \<le> lineLength, s2\<lparr>addChildValues := False\<rparr>))"

definition write_item :: "styled_writer \<Rightarrow> (writing \<Rightarrow> writing) \<Rightarrow> writing \<Rightarrow> writing" where
  "write_item w a s = (if sw_class w = StyledWriter then a (ensure_indent w s)
     else (a ((ensure_indent w s)\<lparr>indented := True\<rparr>))\<lparr>indented := False\<rparr>)"

fun write_items :: "styled_writer \<Rightarrow> bool \<Rightarrow> nat \<Rightarrow> (writing \<Rightarrow> writing) list \<Rightarrow> writing \<Rightarrow> writing" where
  "write_items w hasChildValue index [] s = s"
| "write_items w hasChildValue index (a # as) s =
     (let s1 = (if hasChildValue then writeWithIndent w (childValues s ! index) s else write_item w a s) in
      if as = [] then writeCommentAfterValueOnSameLine w s1
      else write_items w hasChildValue (index + 1) as (writeCommentAfterValueOnSameLine w (emit '','' s1)))"

text \<open>The spaces inside the brackets of an array on one line.\<close>

definition bracket_gap :: "styled_writer \<Rightarrow> string" where
  "bracket_gap w = (if sw_class w = BuiltStyledStreamWriter \<and> sw_indentation w = [] then [] else '' '')"

fun one_line :: "string list \<Rightarrow> string" where
  "one_line [] = []"
| "one_line [t] = t"
| "one_line (t # u # ts) = t @ '', '' @ one_line (u # ts)"

definition writeArrayValue :: "styled_writer \<Rightarrow> bool list \<Rightarrow> (writing \<Rightarrow> writing) list \<Rightarrow> writing \<Rightarrow> writing" where
  "writeArrayValue w nested acts s =
     (if acts = [] then pushValue ''[]'' s
      else let (isMultiLine, s1) = (if sw_class w = BuiltStyledStreamWriter \<and> commentsAll w then (True, s)
                                    else isMultineArray nested acts s) in
           if isMultiLine
           then let s2 = indent w (writeWithIndent w ''['' s1);
                    s3 = write_items w (childValues s2 \<noteq> []) 0 acts s2
                in writeWithIndent w '']'' (unindent w s3)
           else emit (''['' @ bracket_gap w @ one_line (childValues s1) @ bracket_gap w @ '']'') s1)"

section \<open>Objects and values\<close>

definition quoted_name :: "styled_writer \<Rightarrow> string \<Rightarrow> string" where
  "quoted_name w k = (if sw_class w = BuiltStyledStreamWriter then valueToQuotedStringN k else valueToQuotedString k)"

fun write_members :: "styled_writer \<Rightarrow> (string \<times> (writing \<Rightarrow> writing)) list \<Rightarrow> writing \<Rightarrow> writing" where
  "write_members w [] s = s"
| "write_members w ((k, a) # ms) s =
     (let s1 = a (emit (colonSymbol w) (writeWithIndent w (quoted_name w k) s)) in
      if ms = [] then writeCommentAfterValueOnSameLine w s1
      else write_members w ms (writeCommentAfterValueOnSameLine w (emit '','' s1)))"

definition writeObjectValue :: "styled_writer \<Rightarrow> (string \<times> (writing \<Rightarrow> writing)) list \<Rightarrow> writing \<Rightarrow> writing" where
  "writeObjectValue w ms s =
     (if ms = [] then pushValue ''{}'' s
      else writeWithIndent w ''}'' (unindent w (write_members w ms (indent w (writeWithIndent w ''{'' s)))))"

text \<open>A nested array or object that is not empty.\<close>

definition nested_value :: "jvalue \<Rightarrow> bool" where
  "nested_value v \<longleftrightarrow> (jtype_of v = arrayValue \<or> jtype_of v = objectValue) \<and> 0 < j_size v"

function styled_value :: "styled_writer \<Rightarrow> jvalue \<Rightarrow> writing \<Rightarrow> writing" where
  "styled_value w v = (case v of
     JNull \<Rightarrow> pushValue (nullSymbol w)
   | JInt i \<Rightarrow> pushValue (int_to_string i)
   | JUInt u \<Rightarrow> pushValue (uintToString (nat u) [])
   | JReal d \<Rightarrow> pushValue (double_to_string d (sw_useSpecialFloats w) (sw_precision w))
   | JString str \<Rightarrow> pushValue (valueToQuotedStringN str)
   | JBool b \<Rightarrow> pushValue (bool_to_string b)
   | JArray xs \<Rightarrow> writeArrayValue w
       (map (\<lambda>i. case amap_get xs i of Some e \<Rightarrow> nested_value e | None \<Rightarrow> False) [0..<j_size v])
       (map (\<lambda>i. case amap_get xs i of Some e \<Rightarrow> styled_value w e | None \<Rightarrow> pushValue (nullSymbol w)) [0..<j_size v])
   | JObject xs \<Rightarrow> writeObjectValue w (map (\<lambda>(k, e). (k, styled_value w e)) xs))"
  by pat_completeness auto
termination
  by (relation "measure (\<lambda>(_, v). size v)") (auto dest!: amap_get_in size_elem)

declare styled_value.simps [simp del]

section \<open>The writers\<close>

text \<open>Two of the writers have their style built in.\<close>

definition new_StyledWriter :: styled_writer where
  "new_StyledWriter = \<lparr> sw_class = StyledWriter, sw_indentation = replicate 3 (CHR '' ''), commentsAll = True,
     colonSymbol = '' : '', nullSymbol = ''null'', endingLineFeedSymbol = [CHR 0x0A],
     sw_useSpecialFloats = False, sw_precision = 17 \<rparr>"

definition new_StyledStreamWriter :: "string \<Rightarrow> styled_writer" where
  "new_StyledStreamWriter indentation = \<lparr> sw_class = StyledStreamWriter, sw_indentation = indentation, commentsAll = True,
     colonSymbol = '' : '', nullSymbol = ''null'', endingLineFeedSymbol = [CHR 0x0A],
     sw_useSpecialFloats = False, sw_precision = 17 \<rparr>"

definition new_BuiltStyledStreamWriter ::
    "string \<Rightarrow> bool \<Rightarrow> string \<Rightarrow> string \<Rightarrow> string \<Rightarrow> bool \<Rightarrow> nat \<Rightarrow> styled_writer" where
  "new_BuiltStyledStreamWriter indentation allComments colon nulls ending special precision =
     \<lparr> sw_class = BuiltStyledStreamWriter, sw_indentation = indentation, commentsAll = allComments,
       colonSymbol = colon, nullSymbol = nulls, endingLineFeedSymbol = ending,
       sw_useSpecialFloats = special, sw_precision = precision \<rparr>"

text \<open>The child values stay from one call to the next; every other field starts afresh.\<close>

definition writing_start :: "string list \<Rightarrow> writing" where
  "writing_start children =
     \<lparr> document = [], childValues = children, indentString = [], addChildValues = False, indented = True \<rparr>"

text \<open>\<open>StyledWriter\<close> and \<open>StyledStreamWriter\<close> are the shared code with these styles.\<close>

definition StyledWriter_writeArrayValue :: "bool list \<Rightarrow> (writing \<Rightarrow> writing) list \<Rightarrow> writing \<Rightarrow> writing" where
  "StyledWriter_writeArrayValue = writeArrayValue new_StyledWriter"

definition StyledWriter_writeValue :: "jvalue \<Rightarrow> writing \<Rightarrow> writing" where
  "StyledWriter_writeValue = styled_value new_StyledWriter"

definition StyledWriter_write :: "jvalue \<Rightarrow> string" where
  "StyledWriter_write v = document (emit [CHR 0x0A] (StyledWriter_writeValue v (writing_start [])))"

definition StyledStreamWriter_writeArrayValue ::
    "string \<Rightarrow> bool list \<Rightarrow> (writing \<Rightarrow> writing) list \<Rightarrow> writing \<Rightarrow> writing" where
  "StyledStreamWriter_writeArrayValue indentation = writeArrayValue (new_StyledStreamWriter indentation)"

definition StyledStreamWriter_writeValue :: "string \<Rightarrow> jvalue \<Rightarrow> writing \<Rightarrow> writing" where
  "StyledStreamWriter_writeValue indentation = styled_value (new_StyledStreamWriter indentation)"

definition StyledStreamWriter_write :: "string \<Rightarrow> jvalue \<Rightarrow> string" where
  "StyledStreamWriter_write indentation v =
     document (emit [CHR 0x0A] ((StyledStreamWriter_writeValue indentation v (writing_start []))\<lparr>indented := False\<rparr>))"

definition BuiltStyledStreamWriter_write :: "styled_writer \<Rightarrow> jvalue \<Rightarrow> string" where
  "BuiltStyledStreamWriter_write w v =
     document (emit (endingLineFeedSymbol w) (writeCommentAfterValueOnSameLine w (styled_value w v (writing_start []))))"

text \<open>\<open>Value::toStyledString\<close>.\<close>

definition toStyledString :: "jvalue \<Rightarrow> string" where
  "toStyledString v = StyledWriter_write v"

section \<open>The builder\<close>

definition writer_defaults :: "jvalue \<Rightarrow> jvalue res" where
  "writer_defaults settings = set_all
     [(''commentStyle'', JString ''All''), (''indentation'', JString [CHR 0x09]),
      (''enableYAMLCompatibility'', JBool False), (''dropNullPlaceholders'', JBool False),
      (''useSpecialFloats'', JBool False), (''precision'', JInt 17)] settings"

definition newStreamWriter :: "jvalue \<Rightarrow> styled_writer res" where
  "newStreamWriter settings =
     bind_r (bind_r (member_get ''indentation'' settings) asString) (\<lambda>indentation.
     bind_r (bind_r (member_get ''commentStyle'' settings) asString) (\<lambda>cs_str.
     bind_r (get_bool ''enableYAMLCompatibility'' settings) (\<lambda>eyc.
     bind_r (get_bool ''dropNullPlaceholders'' settings) (\<lambda>dnp.
     bind_r (get_bool ''useSpecialFloats'' settings) (\<lambda>usf.
     bind_r (bind_r (member_get ''precision'' settings) asUInt) (\<lambda>pre.
     bind_r (if cs_str = ''All'' then Ok True else if cs_str = ''None'' then Ok False
             else json_error (''commentStyle must be '' @ [CHR 0x27] @ ''All'' @ [CHR 0x27] @ '' or '' @ [CHR 0x27] @ ''None'' @ [CHR 0x27])) (\<lambda>cs.
     let colon = (if eyc then '': '' else if indentation = [] then '':'' else '' : '');
         nulls = (if dnp then [] else ''null'');
         pre = (if 17 < pre then 17 else pre)
     in Ok (new_BuiltStyledStreamWriter indentation cs colon nulls [] usf (nat pre)))))))))"

definition getValidWriterKeys :: "string set" where
  "getValidWriterKeys = {''indentation'', ''commentStyle'', ''enableYAMLCompatibility'', ''dropNullPlaceholders'',
     ''useSpecialFloats'', ''precision''}"

definition validate_writer :: "jvalue \<Rightarrow> jvalue \<Rightarrow> (bool \<times> jvalue) res" where
  "validate_writer settings invalid = bind_r (getMemberNames settings) (\<lambda>keys.
     bind_r (fold_r (\<lambda>key inv. if key \<in> getValidWriterKeys then Ok inv
         else bind_r (member_get key settings) (\<lambda>v. member_set key v inv)) keys invalid) (\<lambda>inv.
     Ok (j_size inv = 0, inv)))"

definition writeString :: "jvalue \<Rightarrow> jvalue \<Rightarrow> string res" where
  "writeString settings v = bind_r (newStreamWriter settings) (\<lambda>w. Ok (BuiltStyledStreamWriter_write w v))"

text \<open>\<open>operator<<\<close>, with the settings every builder starts from.\<close>

definition write_stream :: "jvalue \<Rightarrow> string res" where
  "write_stream v = bind_r (writer_defaults JNull) (\<lambda>settings. writeString settings v)"

end
