(* ===== verification/Json_Layout.thy ===== *)
theory Json_Layout
  imports Json_Styled Json_Reads
begin

text \<open>
  The texts of the styled writers are spellings of the value written, so the reader gives that value back,
  whichever the writer, its indentation and the way its arrays were laid out.
\<close>

section \<open>Names\<close>

fun nul_free :: "jvalue \<Rightarrow> bool" where
  "nul_free (JArray xs) = (\<forall>(_, e) \<in> set xs. nul_free e)"
| "nul_free (JObject xs) = (\<forall>(k, e) \<in> set xs. CHR 0x00 \<notin> set k \<and> nul_free e)"
| "nul_free _ = True"

lemma c_str_nul_free: "CHR 0x00 \<notin> set k \<Longrightarrow> c_str k = k"
  by (induction k) (auto simp: c_str_def)

lemma c_str_no_nul: "CHR 0x00 \<notin> set (c_str k)"
  by (auto simp: c_str_def dest: set_takeWhileD)

lemma valueToQuotedString_c_str: "valueToQuotedString k = valueToQuotedStringN (c_str k)"
proof -
  have "containsControlCharacter0 (c_str k) = containsControlCharacter (c_str k)"
    using c_str_no_nul [of k] by (auto simp: containsControlCharacter0_def containsControlCharacter_def list_ex_iff)
  then show ?thesis by (simp add: valueToQuotedString_def valueToQuotedStringN_def Let_def)
qed

lemma quoted_name_nul_free: "CHR 0x00 \<notin> set k \<Longrightarrow> quoted_name w k = valueToQuotedStringN k"
  by (simp add: quoted_name_def valueToQuotedString_c_str c_str_nul_free)

section \<open>Growing documents\<close>

text \<open>A writer whose texts the reader understands: its indentation is white space and its nulls are written.\<close>

definition style_ok :: "styled_writer \<Rightarrow> bool" where
  "style_ok w \<longleftrightarrow> spaces (sw_indentation w) \<and> nullSymbol w = ''null'' \<and> spaces (endingLineFeedSymbol w) \<and>
     colonSymbol w \<in> {'' : '', '': '', '':''}"

text \<open>
  A writer that lays every array out over several lines never fills its child values, and relies on that: it takes
  any it finds for the items of the array.
\<close>

definition ready :: "styled_writer \<Rightarrow> writing \<Rightarrow> bool" where
  "ready w s \<longleftrightarrow> \<not> addChildValues s \<and> spaces (indentString s) \<and>
     (sw_class w = BuiltStyledStreamWriter \<and> commentsAll w \<longrightarrow> childValues s = [])"

definition grows :: "styled_writer \<Rightarrow> writing \<Rightarrow> string \<Rightarrow> writing \<Rightarrow> bool" where
  "grows w s t s' \<longleftrightarrow> document s' = document s @ t \<and> indentString s' = indentString s \<and> ready w s'"

lemma growsD: "grows w s t s' \<Longrightarrow> ready w s'" "grows w s t s' \<Longrightarrow> document s' = document s @ t"
  by (simp_all add: grows_def)

lemma grows_trans: "grows w s t s' \<Longrightarrow> grows w s' u s'' \<Longrightarrow> grows w s (t @ u) s''"
  by (simp add: grows_def)

lemma grows_emit: "ready w s \<Longrightarrow> grows w s t (emit t s)"
  by (simp add: grows_def emit_def ready_def)

lemma grows_flag: "grows w s t s' \<Longrightarrow> grows w s t (s'\<lparr>indented := b\<rparr>)"
  by (auto simp: grows_def ready_def)

lemma grows_after: "grows w s t s' \<Longrightarrow> grows w s t (writeCommentAfterValueOnSameLine w s')"
  by (simp add: writeCommentAfterValueOnSameLine_def grows_flag)

lemma grows_push: "ready w s \<Longrightarrow> grows w s t (pushValue t s)"
  using grows_emit [of w s t] by (simp add: pushValue_def ready_def)

lemma ensure_indent_emits:
  assumes "ready w s"
  shows "\<exists>p. spaces p \<and> ensure_indent w s = emit p s"
proof -
  have n: "spaces (CHR 0x0A # indentString s)" "spaces (indentString s)"
    using assms by (simp_all add: ready_def is_json_space_def)
  have e: "emit [] s = s" by (simp add: emit_def)
  have "ensure_indent w s \<in> {emit (CHR 0x0A # indentString s) s, emit (indentString s) s, emit [] s}"
    by (simp add: ensure_indent_def StyledWriter_writeIndent_def StyledStreamWriter_writeIndent_def
        BuiltStyledStreamWriter_writeIndent_def e split: writer_class.split)
  then show ?thesis using n spaces_simps(1) by blast
qed

lemma grows_indent: "ready w s \<Longrightarrow> \<exists>p. spaces p \<and> grows w s p (ensure_indent w s)"
  using ensure_indent_emits [of w s] grows_emit [of w s] by metis

lemma writeWithIndent_emits:
  assumes "ready w s"
  shows "\<exists>p. spaces p \<and> writeWithIndent w t s = (emit (p @ t) s)\<lparr>indented := False\<rparr>"
  using ensure_indent_emits [OF assms] by (auto simp: writeWithIndent_def emit_def)

lemma grows_with_indent: "ready w s \<Longrightarrow> \<exists>p. spaces p \<and> grows w s (p @ t) (writeWithIndent w t s)"
  using writeWithIndent_emits [of w s t] grows_emit [of w s] grows_flag by metis

text \<open>Between an indentation and its end the indentation string is longer.\<close>

lemma grows_indented:
  assumes "ready w s" and "spaces (sw_indentation w)" and "grows w (indent w s) t s'"
  shows "grows w s t (unindent w s')"
  using assms by (simp add: grows_def indent_def unindent_def ready_def)

lemma ready_indent: "ready w s \<Longrightarrow> spaces (sw_indentation w) \<Longrightarrow> ready w (indent w s)"
  by (simp add: ready_def indent_def)

section \<open>Items and members\<close>

text \<open>The steps that write a value, and those that only push a text for it.\<close>

definition writes :: "styled_writer \<Rightarrow> jvalue \<Rightarrow> (writing \<Rightarrow> writing) \<Rightarrow> bool" where
  "writes w e a \<longleftrightarrow> (\<forall>s. ready w s \<longrightarrow> (\<exists>p u. spaces p \<and> spelled e u \<and> grows w s (p @ u) (a s)))"

lemma writes_push: "spelled e t \<Longrightarrow> writes w e (pushValue t)"
  unfolding writes_def using grows_push [of w _ t] by (metis append_Nil spaces_simps(1))

lemma write_item_grows:
  assumes "writes w e a" and "ready w s"
  shows "\<exists>p u. spaces p \<and> spelled e u \<and> grows w s (p @ u) (write_item w a s)"
proof -
  obtain q where q: "spaces q" "grows w s q (ensure_indent w s)" using grows_indent [OF assms(2)] by blast
  define s0 where "s0 = (if sw_class w = StyledWriter then ensure_indent w s else (ensure_indent w s)\<lparr>indented := True\<rparr>)"
  have s0: "grows w s q s0" using q(2) by (simp add: s0_def grows_flag)
  obtain p u where u: "spaces p" "spelled e u" "grows w s0 (p @ u) (a s0)"
    using assms(1) growsD(1) [OF s0] unfolding writes_def by blast
  have "grows w s ((q @ p) @ u) (write_item w a s)"
    using grows_trans [OF s0 u(3)] by (auto simp: write_item_def s0_def grows_flag)
  then show ?thesis using q(1) u(1,2) spaces_simps(3) by blast
qed

lemma write_items_grows:
  assumes "list_all2 (writes w) es acts" and "es \<noteq> []" and "ready w s"
    and "has \<longrightarrow> (\<forall>i < length es. spelled (es ! i) (childValues s ! (index + i)))"
  shows "\<exists>ts. list_all2 (\<lambda>e. padded (spelled e)) es ts \<and> grows w s (commas ts) (write_items w has index acts s)"
  using assms
proof (induction es acts arbitrary: s index rule: list_all2_induct)
  case (Cons e es a as)
  define s1 where "s1 = (if has then writeWithIndent w (childValues s ! index) s else write_item w a s)"
  have kept: "childValues s1 = childValues s" if has
    using writeWithIndent_emits [OF Cons.prems(2), of "childValues s ! index"] that by (auto simp: s1_def emit_def)
  obtain p u where u: "spaces p" "spelled e u" "grows w s (p @ u) s1"
  proof (cases has)
    case True
    then have "spelled e (childValues s ! index)" using Cons.prems(3) by force
    then show ?thesis using that grows_with_indent [OF Cons.prems(2), of "childValues s ! index"] True by (auto simp: s1_def)
  next
    case False
    then show ?thesis using that write_item_grows [OF Cons.hyps(1) Cons.prems(2)] by (auto simp: s1_def)
  qed
  have pu: "padded (spelled e) (p @ u)"
    unfolding padded_def using u(1,2) by (intro exI [of _ p] exI [of _ u] exI [of _ "[]"]) simp
  have nil: "as = [] \<longleftrightarrow> es = []" using list_all2_lengthD [OF Cons.hyps(2)] by auto
  show ?case
  proof (cases "es = []")
    case True
    then show ?thesis using grows_after [OF u(3)] pu nil
      by (intro exI [of _ "[p @ u]"]) (simp add: s1_def)
  next
    case False
    define s2 where "s2 = writeCommentAfterValueOnSameLine w (emit '','' s1)"
    have s2: "grows w s ((p @ u) @ '','') s2"
      unfolding s2_def using grows_trans [OF u(3) grows_emit [OF growsD(1) [OF u(3)]]] by (rule grows_after)
    have "childValues s2 = childValues s1"
      by (simp add: s2_def writeCommentAfterValueOnSameLine_def emit_def)
    then have "has \<longrightarrow> (\<forall>i < length es. spelled (es ! i) (childValues s2 ! (index + 1 + i)))"
      using Cons.prems(3) kept by force
    from Cons.IH [OF False growsD(1) [OF s2] this]
    obtain ts where ts: "list_all2 (\<lambda>e. padded (spelled e)) es ts" "grows w s2 (commas ts) (write_items w has (index + 1) as s2)"
      by blast
    obtain t ts' where tt: "ts = t # ts'" using ts(1) False by (cases ts) auto
    have "grows w s (commas ((p @ u) # ts)) (write_items w has index (a # as) s)"
      using grows_trans [OF s2 ts(2)] nil False by (simp add: tt s1_def s2_def Let_def)
    then show ?thesis using ts(1) pu by (intro exI [of _ "(p @ u) # ts"]) simp
  qed
qed simp

lemma colon_spaces:
  assumes "style_ok w"
  obtains b c where "colonSymbol w = b @ CHR '':'' # c" "spaces b" "spaces c"
proof -
  have "spaces '' ''" by (simp add: is_json_space_def)
  moreover have "colonSymbol w = '' '' @ CHR '':'' # '' '' \<or> colonSymbol w = [] @ CHR '':'' # '' '' \<or> colonSymbol w = [] @ CHR '':'' # []"
    using assms by (auto simp: style_ok_def)
  ultimately show ?thesis using that spaces_simps(1) by blast
qed

lemma write_members_grows:
  assumes "list_all2 (\<lambda>m a. fst a = fst m \<and> quoted_name w (fst m) = valueToQuotedStringN (fst m) \<and> writes w (snd m) (snd a)) ms acts"
    and "ms \<noteq> []" and "ready w s" and "style_ok w"
  shows "\<exists>ts. list_all2 (\<lambda>m. member_spelled (fst m) (spelled (snd m))) ms ts \<and> grows w s (commas ts) (write_members w acts s)"
  using assms(1-3)
proof (induction ms acts arbitrary: s rule: list_all2_induct)
  case (Cons m ms ka as)
  obtain a where ka: "ka = (fst m, a)" and q: "quoted_name w (fst m) = valueToQuotedStringN (fst m)" and a: "writes w (snd m) a"
    using Cons.hyps(1) by (cases ka) auto
  obtain b c where bc: "colonSymbol w = b @ CHR '':'' # c" "spaces b" "spaces c" using colon_spaces [OF assms(4)] .
  let ?n = "writeWithIndent w (quoted_name w (fst m)) s"
  obtain p where p: "spaces p" "grows w s (p @ valueToQuotedStringN (fst m)) ?n"
    using grows_with_indent [OF Cons.prems(2)] unfolding q by blast
  let ?c = "emit (colonSymbol w) ?n"
  note c = grows_trans [OF p(2) grows_emit [OF growsD(1) [OF p(2)]], of "colonSymbol w"]
  obtain r u where u: "spaces r" "spelled (snd m) u" "grows w ?c (r @ u) (a ?c)"
    using a growsD(1) [OF c] unfolding writes_def by blast
  let ?t = "p @ valueToQuotedStringN (fst m) @ b @ CHR '':'' # c @ r @ u"
  have t: "grows w s ?t (a ?c)" using grows_trans [OF c u(3)] by (simp add: bc(1))
  have "padded (spelled (snd m)) (c @ r @ u)"
    unfolding padded_def using u(1,2) bc(3) by (intro exI [of _ "c @ r"] exI [of _ u] exI [of _ "[]"]) simp
  then have mt: "member_spelled (fst m) (spelled (snd m)) ?t"
    unfolding member_spelled_def using p(1) bc(2) by blast
  have nil: "as = [] \<longleftrightarrow> ms = []" using list_all2_lengthD [OF Cons.hyps(2)] by auto
  show ?case
  proof (cases "ms = []")
    case True
    then show ?thesis using grows_after [OF t] mt nil by (intro exI [of _ "[?t]"]) (simp add: ka Let_def)
  next
    case False
    define s2 where "s2 = writeCommentAfterValueOnSameLine w (emit '','' (a ?c))"
    have s2: "grows w s (?t @ '','') s2"
      unfolding s2_def using grows_trans [OF t grows_emit [OF growsD(1) [OF t]]] by (rule grows_after)
    from Cons.IH [OF False growsD(1) [OF s2]]
    obtain ts where ts: "list_all2 (\<lambda>m. member_spelled (fst m) (spelled (snd m))) ms ts"
        "grows w s2 (commas ts) (write_members w as s2)"
      by blast
    obtain t' ts' where tt: "ts = t' # ts'" using ts(1) False by (cases ts) auto
    have "grows w s (commas (?t # ts)) (write_members w (ka # as) s)"
      using grows_trans [OF s2 ts(2)] nil False by (simp add: tt s2_def ka Let_def)
    then show ?thesis using ts(1) mt by (intro exI [of _ "?t # ts"]) simp
  qed
qed simp

text \<open>White space in front of a closing bracket belongs to the last item.\<close>

lemma close_items:
  assumes "list_all2 R xs ts" and "ts \<noteq> []" and "\<And>x t. R x t \<Longrightarrow> R x (t @ p)"
  shows "\<exists>ts'. list_all2 R xs ts' \<and> ts' \<noteq> [] \<and> commas ts @ p = commas ts'"
  using assms(1,2)
proof (induction rule: list_all2_induct)
  case (Cons x xs t ts)
  show ?case
  proof (cases ts)
    case Nil
    then show ?thesis using Cons.hyps by (intro exI [of _ "[t @ p]"]) (simp add: assms(3))
  next
    case (Cons t2 ts2)
    then obtain ts' where ts': "list_all2 R xs ts'" "ts' \<noteq> []" "commas ts @ p = commas ts'"
      using Cons.IH by blast
    then obtain t' ts'' where "ts' = t' # ts''" by (cases ts') auto
    then show ?thesis using ts' Cons.hyps(1) Cons by (intro exI [of _ "t # ts'"]) simp
  qed
qed simp

lemma padded_end: "padded P t \<Longrightarrow> spaces p \<Longrightarrow> padded P (t @ p)"
  unfolding padded_def by (metis append.assoc spaces_simps(3))

lemma member_spelled_end: "member_spelled k P t \<Longrightarrow> spaces p \<Longrightarrow> member_spelled k P (t @ p)"
  unfolding member_spelled_def using padded_end [of P _ p] by fastforce

section \<open>Values\<close>

text \<open>Opening, contents and closing of an array or object over several lines.\<close>

lemma enclosed:
  assumes "ready w s" and "spaces (sw_indentation w)" and "\<And>s. ready w s \<Longrightarrow> P s \<Longrightarrow> \<exists>t. Q t \<and> grows w s t (f s)"
    and "\<And>p. P (indent w ((emit p s)\<lparr>indented := False\<rparr>))"
  shows "\<exists>p t q. spaces p \<and> Q t \<and> spaces q \<and> grows w s (p @ lb @ t @ q @ rb)
      (writeWithIndent w rb (unindent w (f (indent w (writeWithIndent w lb s)))))"
proof -
  obtain p where p: "spaces p" "writeWithIndent w lb s = (emit (p @ lb) s)\<lparr>indented := False\<rparr>"
    using writeWithIndent_emits [OF assms(1)] by blast
  let ?s1 = "writeWithIndent w lb s"
  have s1: "grows w s (p @ lb) ?s1" unfolding p(2) using grows_emit [OF assms(1)] by (rule grows_flag)
  obtain t where t: "Q t" "grows w (indent w ?s1) t (f (indent w ?s1))"
    using assms(3) [OF ready_indent [OF growsD(1) [OF s1] assms(2)]] assms(4) [of "p @ lb"] unfolding p(2) by blast
  have s2: "grows w ?s1 t (unindent w (f (indent w ?s1)))"
    by (rule grows_indented [OF growsD(1) [OF s1] assms(2) t(2)])
  obtain q where q: "spaces q" "grows w (unindent w (f (indent w ?s1))) (q @ rb)
      (writeWithIndent w rb (unindent w (f (indent w ?s1))))"
    using grows_with_indent [OF growsD(1) [OF s2]] by blast
  have "grows w s (p @ lb @ t @ q @ rb) (writeWithIndent w rb (unindent w (f (indent w ?s1))))"
    using grows_trans [OF grows_trans [OF s1 s2] q(2)] by simp
  then show ?thesis using p(1) t(1) q(1) by blast
qed

text \<open>Trying an array out on one line fills the child values with the texts of its items.\<close>

lemma try_items:
  "addChildValues s \<Longrightarrow> length (childValues s) = k \<Longrightarrow>
   fold (\<lambda>(index, a) (s, len). let s' = a s in (s', (len + int (length (childValues s' ! index))) mod 2 ^ 32))
     (zip [k..<k + length ts] (map pushValue ts)) (s, len mod 2 ^ 32) =
   (s\<lparr>childValues := childValues s @ ts\<rparr>, (len + int (sum_list (map length ts))) mod 2 ^ 32)"
proof (induction ts arbitrary: k s len)
  case (Cons t ts)
  let ?s = "s\<lparr>childValues := childValues s @ [t]\<rparr>"
  have u: "[k..<k + length (t # ts)] = k # [Suc k..<Suc k + length ts]" using upt_conv_Cons [of k "k + length (t # ts)"] by (simp del: upt_Suc)
  have p: "pushValue t s = ?s" "(childValues s @ [t]) ! k = t" using Cons.prems by (auto simp: pushValue_def)
  show ?case
    using Cons.IH [of ?s "Suc k" "len + int (length t)"] Cons.prems unfolding u
    by (simp add: Let_def p mod_add_left_eq add.assoc del: upt_Suc)
qed simp

definition line_width :: "string list \<Rightarrow> int" where
  "line_width ts = 4 + (int (length ts) - 1) * 2 + int (sum_list (map length ts))"

lemma isMultineArray_keeps:
  assumes "ready w s" and "\<not> (sw_class w = BuiltStyledStreamWriter \<and> commentsAll w)"
    and "isMultineArray (map nested_value es) acts s = (m, s1)"
    and "\<not> list_ex nested_value es \<Longrightarrow> acts = map pushValue ts"
  shows "grows w s [] s1" and "childValues s1 = [] \<or> \<not> list_ex nested_value es \<and> childValues s1 = ts"
    and "\<not> m \<Longrightarrow> \<not> list_ex nested_value es \<and> childValues s1 = ts \<and> line_width ts mod 2 ^ 32 < rightMargin"
proof -
  have n: "list_ex (\<lambda>b. b) (map nested_value es) = list_ex nested_value es" by (induction es) simp_all
  let ?s0 = "s\<lparr>childValues := [], addChildValues := True\<rparr>"
  have "grows w s [] s1 \<and> (childValues s1 = [] \<or> \<not> list_ex nested_value es \<and> childValues s1 = ts) \<and>
      (\<not> m \<longrightarrow> \<not> list_ex nested_value es \<and> childValues s1 = ts \<and> line_width ts mod 2 ^ 32 < rightMargin)"
  proof (cases "rightMargin \<le> (int (length acts) * 3) mod 2 ^ 32 \<or> list_ex nested_value es")
    case True
    then show ?thesis
      using assms(1-3) unfolding isMultineArray_def n by (auto simp: grows_def ready_def Let_def)
  next
    case False
    then have a: "acts = map pushValue ts" using assms(4) by blast
    have "fold (\<lambda>(index, a) (s, len). let s' = a s in (s', (len + int (length (childValues s' ! index))) mod 2 ^ 32))
        (zip [0..<length acts] acts) (?s0, (4 + (int (length acts) - 1) * 2) mod 2 ^ 32) =
        (?s0\<lparr>childValues := ts\<rparr>, line_width ts mod 2 ^ 32)"
      using try_items [of ?s0 0 ts] by (simp add: a line_width_def)
    then have "s1 = ?s0\<lparr>childValues := ts, addChildValues := False\<rparr>" and "m = (rightMargin \<le> line_width ts mod 2 ^ 32)"
      using assms(3) False unfolding isMultineArray_def n by (simp_all add: Let_def)
    then show ?thesis using assms(1,2) False by (auto simp: grows_def ready_def)
  qed
  then show "grows w s [] s1" and "childValues s1 = [] \<or> \<not> list_ex nested_value es \<and> childValues s1 = ts"
    and "\<not> m \<Longrightarrow> \<not> list_ex nested_value es \<and> childValues s1 = ts \<and> line_width ts mod 2 ^ 32 < rightMargin" by blast+
qed

text \<open>An array on one line.\<close>

lemma one_line_commas: "ts \<noteq> [] \<Longrightarrow> one_line ts = commas (hd ts # map (\<lambda>t. CHR '' '' # t) (tl ts))"
proof (induction ts rule: one_line.induct)
  case (3 t u ts)
  then show ?case by (cases ts) simp_all
qed simp_all

lemma spelled_one_line:
  assumes "list_all2 spelled (items_of xs) ts" and "ts \<noteq> []" and "spaces g"
  shows "spelled (JArray xs) (CHR ''['' # g @ one_line ts @ g @ '']'')"
proof -
  obtain t us where t: "ts = t # us" using assms(2) by (cases ts) auto
  obtain e es where e: "items_of xs = e # es" using assms(1) t by (cases "items_of xs") auto
  have pad: "padded P (p @ u)" if "P u" "spaces p" for P p u
    unfolding padded_def using that by (intro exI [of _ p] exI [of _ u] exI [of _ "[]"]) simp
  let ?ts = "(g @ t) # map (\<lambda>t. CHR '' '' # t) us"
  have "padded (spelled e) (CHR '' '' # u)" if "spelled e u" for e u
    using pad [of "spelled e" u "'' ''"] that by (simp add: is_json_space_def)
  then have "list_all2 (\<lambda>e. padded (spelled e)) es (map (\<lambda>t. CHR '' '' # t) us)"
    using assms(1) t e by (auto simp: list_all2_map2 elim!: list_all2_mono)
  then have "list_all2 (\<lambda>e. padded (spelled e)) (items_of xs) ?ts"
    using assms(1,3) t e pad by simp
  from close_items [where p = g, OF this] obtain ts' where
    c: "list_all2 (\<lambda>e. padded (spelled e)) (items_of xs) ts'" "ts' \<noteq> []" "commas ?ts @ g = commas ts'"
    using padded_end assms(3) by blast
  have "CHR ''['' # g @ one_line ts @ g @ '']'' = CHR ''['' # (commas ?ts @ g) @ '']''"
    by (simp add: t one_line_commas commas_pad)
  then show ?thesis unfolding c(3) using spelled.items [OF c(1,2)] by metis
qed

text \<open>Every value without real numbers is written as a spelling of itself; what is not nested is only pushed.\<close>

definition pushes :: "jvalue \<Rightarrow> (writing \<Rightarrow> writing) \<Rightarrow> bool" where
  "pushes e a \<longleftrightarrow> (\<exists>t. spelled e t \<and> a = pushValue t)"

lemma pushed_texts:
  assumes "\<forall>e \<in> set es. pushes e (f e)"
  obtains ts where "list_all2 spelled es ts" "map f es = map pushValue ts"
proof -
  have "\<exists>ts. list_all2 spelled es ts \<and> map f es = map pushValue ts"
    using assms
  proof (induction es)
    case (Cons e es)
    then obtain ts t where "list_all2 spelled es ts" "map f es = map pushValue ts" "spelled e t" "f e = pushValue t"
      by (auto simp: pushes_def)
    then show ?case by (intro exI [of _ "t # ts"]) simp
  qed simp
  then show thesis using that by blast
qed

lemma several_lines:
  assumes "spaces (sw_indentation w)" and "items_of xs = es" and "es \<noteq> []" and "list_all2 (writes w) es acts"
    and "ready w s" and "childValues s = [] \<or> list_all2 spelled es (childValues s)"
  shows "\<exists>p u. spaces p \<and> spelled (JArray xs) u \<and> grows w s (p @ u)
    (let s2 = indent w (writeWithIndent w ''['' s); s3 = write_items w (childValues s2 \<noteq> []) 0 acts s2
     in writeWithIndent w '']'' (unindent w s3))" (is "\<exists>p u. _ \<and> _ \<and> grows w s (p @ u) ?a")
proof -
  let ?f = "\<lambda>s. write_items w (childValues s \<noteq> []) 0 acts s"
  let ?P = "\<lambda>s. childValues s \<noteq> [] \<longrightarrow> list_all2 spelled es (childValues s)"
  let ?Q = "\<lambda>t. \<exists>ts. list_all2 (\<lambda>e. padded (spelled e)) es ts \<and> t = commas ts"
  have "\<exists>p t q. spaces p \<and> ?Q t \<and> spaces q \<and> grows w s (p @ ''['' @ t @ q @ '']'') ?a"
    unfolding Let_def
  proof (rule enclosed [where P = ?P, OF assms(5,1)])
    fix s assume s: "ready w s" "?P s"
    have "childValues s \<noteq> [] \<longrightarrow> (\<forall>i < length es. spelled (es ! i) (childValues s ! (0 + i)))"
      using s(2) by (auto simp: list_all2_conv_all_nth)
    from write_items_grows [OF assms(4,3) s(1) this]
    show "\<exists>t. ?Q t \<and> grows w s t (?f s)" by blast
  qed (use assms(6) in \<open>auto simp: indent_def emit_def\<close>)
  then obtain p q us where u: "spaces p" "spaces q" "list_all2 (\<lambda>e. padded (spelled e)) es us"
      "grows w s (p @ ''['' @ commas us @ q @ '']'') ?a" by blast
  have "us \<noteq> []" using u(3) assms(3) by auto
  from close_items [OF u(3) this padded_end [OF _ u(2)]] obtain us' where
    us': "list_all2 (\<lambda>e. padded (spelled e)) es us'" "us' \<noteq> []" "commas us @ q = commas us'" by blast
  have e: "p @ ''['' @ commas us @ q @ '']'' = p @ (CHR ''['' # commas us' @ '']'')" unfolding us'(3) [symmetric] by simp
  show ?thesis using spelled.items [of xs us'] us'(1,2) assms(2) u(1) u(4) [unfolded e] by blast
qed

lemma writeArrayValue_writes:
  assumes w: "style_ok w" and es: "items_of xs = es" "es \<noteq> []"
    and written: "\<forall>e \<in> set es. writes w e (f e)" and pushed: "\<forall>e \<in> set es. \<not> nested_value e \<longrightarrow> pushes e (f e)"
  shows "writes w (JArray xs) (writeArrayValue w (map nested_value es) (map f es))"
  unfolding writes_def
proof (intro allI impI)
  fix s assume s: "ready w s"
  obtain ts where ts: "\<not> list_ex nested_value es \<longrightarrow> list_all2 spelled es ts \<and> map f es = map pushValue ts"
    using pushed_texts [of es f] pushed by (metis list_ex_iff)
  define every where "every = (sw_class w = BuiltStyledStreamWriter \<and> commentsAll w)"
  obtain m s1 where m: "(if every then (True, s) else isMultineArray (map nested_value es) (map f es) s) = (m, s1)"
    by (cases "if every then (True, s) else isMultineArray (map nested_value es) (map f es) s")
  have k: "grows w s [] s1" "childValues s1 = [] \<or> list_all2 spelled es (childValues s1)"
    "m \<or> list_all2 spelled es (childValues s1)"
  proof -
    have all: "m \<and> s1 = s \<and> childValues s = []" if every using m s that by (simp add: ready_def every_def)
    note keeps = isMultineArray_keeps [OF s, of es "map f es" m s1 ts, folded every_def]
    have rest: "isMultineArray (map nested_value es) (map f es) s = (m, s1)" if "\<not> every" using m that by simp
    have acts: "\<not> list_ex nested_value es \<Longrightarrow> map f es = map pushValue ts" using ts by blast
    show "grows w s [] s1" using all keeps(1) [OF _ rest acts] s by (cases every) (simp_all add: grows_def)
    show "childValues s1 = [] \<or> list_all2 spelled es (childValues s1)"
      using all keeps(2) [OF _ rest acts] ts by (cases every) auto
    show "m \<or> list_all2 spelled es (childValues s1)"
      using all keeps(3) [OF _ rest acts] ts by (cases every) auto
  qed
  let ?a = "writeArrayValue w (map nested_value es) (map f es) s"
  show "\<exists>p u. spaces p \<and> spelled (JArray xs) u \<and> grows w s (p @ u) ?a"
  proof (cases m)
    case True
    have "list_all2 (writes w) es (map f es)" using written by (simp add: list_all2_map2 list_all2_same)
    from several_lines [OF _ es this growsD(1) [OF k(1)] k(2)]
    obtain p u where u: "spaces p" "spelled (JArray xs) u" "grows w s1 (p @ u) ?a"
      using m True es(2) w by (auto simp: writeArrayValue_def every_def style_ok_def)
    show ?thesis using grows_trans [OF k(1) u(3)] u(1,2) by auto
  next
    case False
    let ?t = "CHR ''['' # bracket_gap w @ one_line (childValues s1) @ bracket_gap w @ '']''"
    have "childValues s1 \<noteq> []" using k(3) False es(2) by auto
    then have "spelled (JArray xs) ?t"
      using spelled_one_line [of xs "childValues s1" "bracket_gap w"] k(3) False es
      by (auto simp: bracket_gap_def is_json_space_def)
    moreover have "?a = emit ?t s1"
      using m False es(2) by (simp add: writeArrayValue_def every_def)
    ultimately show ?thesis
      using grows_trans [OF k(1) grows_emit [OF growsD(1) [OF k(1)]], of ?t] by (intro exI [of _ "[]"] exI [of _ ?t]) simp
  qed
qed

lemma writeObjectValue_writes:
  assumes w: "style_ok w" and ms: "ms \<noteq> []" and written: "\<forall>(k, e) \<in> set ms. writes w e (f e)"
    and names: "\<forall>(k, e) \<in> set ms. quoted_name w k = valueToQuotedStringN k"
  shows "writes w (JObject ms) (writeObjectValue w (map (\<lambda>(k, e). (k, f e)) ms))"
  unfolding writes_def
proof (intro allI impI)
  fix s assume s: "ready w s"
  let ?acts = "map (\<lambda>(k, e). (k, f e)) ms"
  let ?Q = "\<lambda>t. \<exists>ts. list_all2 (\<lambda>m. member_spelled (fst m) (spelled (snd m))) ms ts \<and> t = commas ts"
  have acts: "list_all2 (\<lambda>m a. fst a = fst m \<and> quoted_name w (fst m) = valueToQuotedStringN (fst m) \<and> writes w (snd m) (snd a)) ms ?acts"
    using written names by (auto simp: list_all2_map2 list_all2_same)
  have sp: "spaces (sw_indentation w)" using w by (simp add: style_ok_def)
  have o: "writeObjectValue w ?acts s =
      writeWithIndent w ''}'' (unindent w (write_members w ?acts (indent w (writeWithIndent w ''{'' s))))"
    using ms by (simp add: writeObjectValue_def)
  have "\<exists>p t q. spaces p \<and> ?Q t \<and> spaces q \<and> grows w s (p @ ''{'' @ t @ q @ ''}'') (writeObjectValue w ?acts s)"
    unfolding o
  proof (rule enclosed [where P = "\<lambda>_. True", OF s sp])
    fix s assume "ready w s"
    from write_members_grows [OF acts ms this w]
    show "\<exists>t. ?Q t \<and> grows w s t (write_members w ?acts s)" by blast
  qed simp
  then obtain p q us where u: "spaces p" "spaces q" "list_all2 (\<lambda>m. member_spelled (fst m) (spelled (snd m))) ms us"
      "grows w s (p @ ''{'' @ commas us @ q @ ''}'') (writeObjectValue w ?acts s)" by blast
  have "us \<noteq> []" using u(3) ms by auto
  from close_items [OF u(3) this member_spelled_end [OF _ u(2)]] obtain us' where
    us': "list_all2 (\<lambda>m. member_spelled (fst m) (spelled (snd m))) ms us'" "us' \<noteq> []" "commas us @ q = commas us'" by blast
  have e: "p @ ''{'' @ commas us @ q @ ''}'' = p @ (CHR ''{'' # commas us' @ ''}'')" unfolding us'(3) [symmetric] by simp
  show "\<exists>p u. spaces p \<and> spelled (JObject ms) u \<and> grows w s (p @ u) (writeObjectValue w ?acts s)"
    using spelled.members [OF us'(1,2)] u(1) u(4) [unfolded e] by blast
qed

lemma styled_array:
  "styled_value w (JArray xs) = writeArrayValue w (map nested_value (items_of xs)) (map (styled_value w) (items_of xs))"
proof -
  have n: "styled_value w JNull = pushValue (nullSymbol w)" "\<not> nested_value JNull"
    by (subst styled_value.simps, simp) (simp add: nested_value_def)
  show ?thesis
    by (subst styled_value.simps) (simp add: items_of_def n comp_def option.case_distrib cong: option.case_cong)
qed

lemma styled_object: "styled_value w (JObject xs) = writeObjectValue w (map (\<lambda>(k, e). (k, styled_value w e)) xs)"
  by (subst styled_value.simps) simp

lemma styled_scalar:
  assumes "scalar v" and "style_ok w"
  shows "styled_value w v = pushValue (wr v)"
  using assms by (subst styled_value.simps) (cases v; simp add: scalar_def style_ok_def wr_scalars uintToString_digits)

lemma styled_empty: "writeArrayValue w [] [] = pushValue ''[]''" "writeObjectValue w [] = pushValue ''{}''"
  by (rule ext, simp add: writeArrayValue_def, rule ext, simp add: writeObjectValue_def)

lemma pushes_writes: "pushes e a \<Longrightarrow> writes w e a"
  using writes_push by (auto simp: pushes_def)

lemma j_size_items: "j_size (JArray xs) = length (items_of xs)"
  by (simp add: items_of_def)

lemma not_nested_pushes:
  assumes "style_ok w" and "textual v" and "\<not> nested_value v"
  shows "pushes v (styled_value w v)"
proof (cases v)
  case (JArray xs)
  then have "items_of xs = []" using assms(3) j_size_items [of xs] by (simp add: nested_value_def)
  then show ?thesis using spelled.no_items [of xs "[]"] JArray
    by (auto simp: styled_array styled_empty pushes_def)
next
  case (JObject xs)
  then have "xs = []" using assms(3) by (simp add: nested_value_def)
  then show ?thesis using spelled.no_members [of "[]"] JObject
    by (auto simp: styled_object styled_empty pushes_def)
qed (use assms(1,2) spelled.scalar [of v] in \<open>auto simp: pushes_def styled_scalar scalar_def\<close>)

definition names_ok :: "styled_writer \<Rightarrow> jvalue \<Rightarrow> bool" where
  "names_ok w v \<longleftrightarrow> sw_class w = BuiltStyledStreamWriter \<or> nul_free v"

lemma names_ok_item: "e \<in> set (items_of xs) \<Longrightarrow> names_ok w (JArray xs) \<Longrightarrow> names_ok w e"
  using items_of_set [of e xs] by (auto simp: names_ok_def)

lemma names_ok_member:
  assumes "(k, e) \<in> set ms" and "names_ok w (JObject ms)"
  shows "names_ok w e" and "quoted_name w k = valueToQuotedStringN k"
  using assms by (auto simp: names_ok_def quoted_name_nul_free) (auto simp: quoted_name_def)

lemma styled_value_writes:
  assumes "style_ok w"
  shows "textual v \<Longrightarrow> names_ok w v \<Longrightarrow> writes w v (styled_value w v)"
proof (induction v)
  case (JArray xs)
  let ?es = "items_of xs"
  show ?case
  proof (cases "?es = []")
    case True
    then show ?thesis using not_nested_pushes [OF assms JArray.prems(1)] pushes_writes j_size_items [of xs]
      by (simp add: nested_value_def)
  next
    case False
    have "textual e \<and> writes w e (styled_value w e)" if e: "e \<in> set ?es" for e
      using items_of_set [OF e]
    proof
      assume "e = JNull"
      then show ?thesis using not_nested_pushes [OF assms, of JNull] pushes_writes by (simp add: nested_value_def)
    next
      assume "\<exists>k. (k, e) \<in> set xs"
      then obtain k where k: "(k, e) \<in> set xs" by blast
      have "e \<in> Basic_BNFs.snds (k, e)" using snds.intros [of "(k, e)"] by simp
      then show ?thesis using JArray.IH [OF k] JArray.prems k names_ok_item [OF e] by auto
    qed
    then show ?thesis unfolding styled_array
      using not_nested_pushes [OF assms] by (intro writeArrayValue_writes [OF assms HOL.refl False]) auto
  qed
next
  case (JObject ms)
  show ?case
  proof (cases "ms = []")
    case True
    then show ?thesis using not_nested_pushes [OF assms JObject.prems(1)] pushes_writes by (simp add: nested_value_def)
  next
    case False
    have "writes w e (styled_value w e)" if m: "(k, e) \<in> set ms" for k e
    proof -
      have "e \<in> Basic_BNFs.snds (k, e)" using snds.intros [of "(k, e)"] by simp
      then show ?thesis using JObject.IH [OF m] JObject.prems m names_ok_member(1) [OF m] by auto
    qed
    then show ?thesis unfolding styled_object
      using names_ok_member(2) JObject.prems(2) by (intro writeObjectValue_writes [OF assms False]) auto
  qed
qed (use assms in \<open>auto intro!: pushes_writes not_nested_pushes simp: nested_value_def\<close>)

section \<open>Reading back\<close>

lemma styled_write_read:
  assumes "style_ok w" and "wf_value v" and "textual v" and "jdepth v \<le> 1000" and "names_ok w v"
    and "doc = document (styled_value w v (writing_start [])) @ ending" and "spaces ending"
  shows "read_stream doc rootv = Ok (canon v)"
proof -
  have "ready w (writing_start [])" by (simp add: ready_def writing_start_def)
  then obtain p u where u: "spaces p" "spelled v u" "grows w (writing_start []) (p @ u) (styled_value w v (writing_start []))"
    using styled_value_writes [OF assms(1,3,5)] unfolding writes_def by blast
  have "doc = p @ u @ ending" using growsD(2) [OF u(3)] by (simp add: assms(6) writing_start_def)
  then show ?thesis using read_stream_spelled [OF u(2,1) assms(7,2-4)] by simp
qed

lemma built_styles:
  "style_ok new_StyledWriter" "spaces indentation \<Longrightarrow> style_ok (new_StyledStreamWriter indentation)"
  by (simp_all add: style_ok_def new_StyledWriter_def new_StyledStreamWriter_def is_json_space_def eval_nat_numeral)

text \<open>The settings of a writer that the reader understands.\<close>

lemma newStreamWriter_style:
  assumes "newStreamWriter settings = Ok w" and "get_bool ''dropNullPlaceholders'' settings = Ok False"
    and "bind_r (member_get ''indentation'' settings) asString = Ok indentation" and "spaces indentation"
  shows "style_ok w \<and> sw_class w = BuiltStyledStreamWriter"
  using assms
  by (auto simp: newStreamWriter_def bind_r_Ok_iff new_BuiltStyledStreamWriter_def style_ok_def Let_def split: if_splits)

lemma writer_default_settings:
  "bind_r (writer_defaults JNull) newStreamWriter =
     Ok (new_BuiltStyledStreamWriter [CHR 0x09] True '' : '' ''null'' [] False 17)"
  by code_simp


text \<open>A document of nested containers, on one line, on several, and without any indentation.\<close>

definition demo_styled :: jvalue where
  "demo_styled = JObject [(''a'', JArray [(0, JInt 1), (2, JArray [])]), (''b'', JArray [(0, JObject [(''c'', JBool True)])])]"

definition demo_settings :: jvalue where
  "demo_settings = JObject [(''commentStyle'', JString ''None''), (''dropNullPlaceholders'', JBool False), (''precision'', JInt 3)]"


section \<open>The right margin\<close>

lemma one_line_length: "ts \<noteq> [] \<Longrightarrow> int (length (one_line ts)) + 4 = line_width ts"
  by (induction ts rule: one_line.induct) (simp_all add: line_width_def)

text \<open>
  C40: An array is put on one line only when that line stays below the right margin of 74 characters, brackets
  and spaces included, unless its length wraps round in the 32 bits it is counted in.
\<close>

theorem one_line_fits:
  assumes "style_ok w" and "textual (JArray xs)" and "items_of xs \<noteq> []" and "ready w s"
    and "\<not> (sw_class w = BuiltStyledStreamWriter \<and> commentsAll w)"
    and "\<not> fst (isMultineArray (map nested_value (items_of xs)) (map (styled_value w) (items_of xs)) s)"
  shows "\<exists>t. document (styled_value w (JArray xs) s) = document s @ t \<and> (int (length t) < 74 \<or> 2 ^ 32 \<le> int (length t) + 2)"
proof -
  let ?es = "items_of xs"
  have tx: "textual e" if "e \<in> set ?es" for e using items_of_set [OF that] assms(2) by auto
  obtain ts where ts: "\<not> list_ex nested_value ?es \<longrightarrow> list_all2 spelled ?es ts \<and> map (styled_value w) ?es = map pushValue ts"
    using pushed_texts [of ?es "styled_value w"] not_nested_pushes [OF assms(1) tx] by (metis list_ex_iff)
  obtain s1 where m: "isMultineArray (map nested_value ?es) (map (styled_value w) ?es) s = (False, s1)"
    using assms(6) by (metis eq_fst_iff)
  have k: "grows w s [] s1" "list_all2 spelled ?es ts" "childValues s1 = ts" "line_width ts mod 2 ^ 32 < rightMargin"
    using isMultineArray_keeps(1,3) [OF assms(4,5) m, of ts] ts by blast+
  have ne: "ts \<noteq> []" using k(2) assms(3) by auto
  let ?t = "''['' @ bracket_gap w @ one_line ts @ bracket_gap w @ '']''"
  have "styled_value w (JArray xs) s = emit ?t s1"
    unfolding styled_array writeArrayValue_def using m assms(3,5) k(3) by auto
  then have "document (styled_value w (JArray xs) s) = document s @ ?t"
    using growsD(2) [OF k(1)] by (simp add: emit_def)
  moreover have "int (length ?t) \<le> line_width ts" "line_width ts \<le> int (length ?t) + 2"
    using one_line_length [OF ne] by (simp_all add: bracket_gap_def)
  moreover have "line_width ts < 74 \<or> 2 ^ 32 \<le> line_width ts"
    using k(4) one_line_length [OF ne] by (cases "line_width ts < 2 ^ 32") (simp_all add: rightMargin_def)
  ultimately show ?thesis by (intro exI [of _ ?t]) linarith
qed

theorem one_line_fits_witness:
  "\<exists>t. document (styled_value new_StyledWriter (JArray [(0, JInt 1), (2, JArray [])]) (writing_start [])) =
       document (writing_start []) @ t \<and> (int (length t) < 74 \<or> 2 ^ 32 \<le> int (length t) + 2)"
proof (rule one_line_fits [OF built_styles(1)])
  show "\<not> fst (isMultineArray (map nested_value (items_of [(0, JInt 1), (2, JArray [])]))
      (map (styled_value new_StyledWriter) (items_of [(0, JInt 1), (2, JArray [])])) (writing_start []))"
    by code_simp
qed (simp_all add: items_of_def ready_def writing_start_def new_StyledWriter_def)

end
