(* ===== verification/Spec2Isabelle.thy ===== *)
theory Spec2Isabelle
  imports Startup Cape Demo_Config Client_Tools Client_Otf Json_Layout
begin

text \<open>
  PMLib is a client-server library for measuring power: a server owns measuring devices (power meters on
  serial lines, an I2C board, dummies), samples each in the background, and serves clients over TCP. A
  client asks for a \<^emph>\<open>counter\<close> on some lines of one device, starts and stops it around a computation, and
  fetches the samples of the recorded intervals. This development models the server of \<open>src/server\<close>,
  the JSON library it bundles, and the C client of \<open>src/client\<close>.

  \<^bold>\<open>How the parts interact.\<close> \<open>main\<close> reads the options and builds the \<open>Server\<close>, which reads the JSON
  configuration and creates the devices. \<open>Server::run\<close> starts the devices (each with a driver thread that
  fills a bounded queue and a thread that moves samples into the lines) and accepts connections. Each
  connection has a thread: its first opcode either asks for information (\<open>Info\<close>) or creates a \<open>Counter\<close>,
  whose constructor handles the requests of the session. Counters of different connections share the
  devices: reference counts on the lines say whether samples are stored and when they may be cleared.

  \<^bold>\<open>The theories.\<close>
    \<^item> \<open>Prelude\<close>: results (\<open>Ok\<close>, \<open>Throw\<close> a C++ exception, \<open>Undef\<close> undefined behaviour), programs with state and
      exceptions and their triples, ordered maps (\<open>std::map\<close>, locale \<open>ordered_map\<close>), little-endian bytes,
      32-bit integers. \<open>Ieee\<close>: binary32 and binary64 with correct rounding, and the exactness facts the
      rates need. \<open>Numbers\<close>: \<open>strtod\<close> and friends of the C library.
    \<^item> \<open>Wire\<close>: \<open>server.hpp\<close>'s opcodes and \<open>send\<close>/\<open>receive\<close> over a socket (locale \<open>wire_type\<close>).
      \<open>Device\<close>: \<open>device.hpp\<close>, \<open>device.cpp\<close>; lines, reference counts (locale \<open>refcount\<close>), drivers' register.
      \<open>Counter\<close>: \<open>counter.hpp\<close>, \<open>counter.cpp\<close>. \<open>Info\<close>: \<open>info.cpp\<close> and \<open>Server::connection\<close>. \<open>Sampling\<close>: the
      threads of \<open>Device::run\<close>. \<open>Startup\<close>: \<open>main\<close>, \<open>Server::run\<close>, \<open>daemonize\<close>. \<open>Config\<close>:
      \<open>Server::parse_configfile\<close>. \<open>Drivers\<close>, \<open>Cape\<close>: the decoding of \<open>devices/*.hpp\<close>.
    \<^item> \<open>Json_Value\<close>, \<open>Json_Access\<close>, \<open>Json_Token\<close>, \<open>Json_Reader\<close>, \<open>Json_Writer\<close>: the parts of
      \<open>utils/jsoncpp.cpp\<close> the server uses: values, members and elements, \<open>OurReader\<close>, \<open>FastWriter\<close>.
      \<open>Json_Total\<close>: the parser returns on every text. \<open>Json_Roundtrip\<close>, \<open>Json_Reads\<close>: it reads every spelling
      of a value, with white space anywhere between tokens, as that value. \<open>Json_Styled\<close>: the writers that lay a
      value out over lines, and \<open>StreamWriterBuilder\<close>. \<open>Json_Layout\<close>: what they write is such a spelling.
    \<^item> \<open>Counter_Facts\<close>, \<open>Samples\<close>, \<open>Lifecycle\<close>: what the operations of a counter do to its device.
      \<open>System\<close>: the running server as a transition system whose steps are whole requests, creations,
      departures and stored samples of any number of sessions, in any order; its invariant.
      \<open>Measurement\<close>: what a session records while others run. \<open>Sessions\<close>: the code of a connection is a
      sequence of those steps. \<open>Demo\<close>, \<open>Demo_Config\<close>: a concrete server, session and configuration.

    \<^item> \<open>Client_Lines\<close>: the client's line masks (\<open>line.h\<close>, locale \<open>small_set\<close>) and \<open>pm_set_lines\<close>. \<open>Client\<close>: the calls
      that talk to the server (\<open>pm_create_counter.c\<close>, \<open>pm_start_counter.c\<close> and so on). \<open>Client_Server\<close>: these calls
      against the server's code, both ends of creating, listing and fetching, for every delivery in which TCP
      joins writes of the server. \<open>Client_Print\<close>, \<open>Client_Tables\<close>: tables and energies of fetched data and
      what they show. \<open>Client_Report\<close>: the time stamps of a client's laps, and the report of a measurement.
      \<open>Client_Paraver\<close>, \<open>Client_Traces\<close>: the Paraver traces (\<open>pm_print_data_paraver*.c\<close>,
      \<open>pm_get_and_print_data_paraver.c\<close>), printed from fetched data or while the samples arrive. \<open>Client_Otf\<close>: the
      calls to the OTF library. \<open>Client_Plugin\<close>, \<open>Client_Tools\<close>: the plugins for VampirTrace and Score-P, and what
      the tool gets through them.

  \<^bold>\<open>Correspondence.\<close> A class is a record with its data members (\<open>device\<close>, \<open>line\<close>, \<open>counter\<close>, \<open>server\<close>), a
  member function a definition of the same name on it (\<open>counter_start\<close> for \<open>Counter::start\<close>). What another
  thread may change is read from the state the program carries. A counter refers to its device by name, as
  the server's map does. An access the language leaves undefined (null pointer, index out of range, empty
  \<open>optional\<close>, overflowing conversion) is the result \<open>Undef\<close>, and the safety properties say that it does not
  occur.

  \<^bold>\<open>Bounds and fuel.\<close> Loops are structural recursion where they run over data. The request loop gets one round
  more than the input has bytes, and every round reads four (\<open>counter_run_returns\<close>). The live stream gets
  fuel by parameter, and ends once the peer stops accepting (\<open>stream_ends\<close>). The parser gets twice the
  document's length plus two, which suffices for every document (\<open>parse_total\<close>). Reachability is
  restricted to states in which no reference count or buffer length has reached its 32-bit limit.

  \<^bold>\<open>Not modelled.\<close> Requests are atomic steps: data races between threads on the shared maps and vectors are
  outside the model. Console and log output, sleeping, the opening of files, sockets, serial ports and the
  I2C bus are parameters or left out. STXXL's vectors are lists. Of the JSON library: comments attached to
  values, offsets, iterators, paths and the deprecated reader. The OTF library, the
  tracing tools that load the plugins, and the earlier Python daemon. On the client: memory allocation never fails, exiting the process
  is an exception nothing catches, and a write of the server is not split by TCP (the client itself treats a
  short read as an error).
\<close>

section \<open>Measurements\<close>

text \<open>
  C1: A client that starts its counter, waits while its device delivers the samples \<open>xs\<close>, and stops
  it, gets exactly \<open>xs\<close> back, line by line and in order, at the device's full rate, whatever the other
  clients do before, between and after.
\<close>

theorem measured_samples:
  assumes "inv s" and "measurement s v xs v' s'"
    and "amap_get (sv_devices (sy_server s')) (ct_dev (lv_counter v)) = Some d"
    and "ct_lines (lv_counter v) \<noteq> []" and "ct_interval (lv_counter v) = 1" and "\<not> ct_aggregate (lv_counter v)"
  shows "get_reply (lv_counter v') d =
    Ok ([0, int (length xs)], concat (map (\<lambda>l. map (\<lambda>x. x ! nat l) xs) (ct_lines (lv_counter v))))"
proof -
  note m = measurement_took [OF assms(1-3)]
  obtain se where se: "ct_sets (lv_counter v') = [se]" "took (lv_counter v') d xs se" using m(6) by blast
  show ?thesis
    using took_reply_lines [OF se(2,1)] m(1-5,7) assms(4-6) by simp
qed

text \<open>The instance on the concrete server.\<close>

theorem measured_samples_witness:
  "get_reply (lv_counter (demo_final False [7, 9])) (demo_dev False 0 [7, 9]) = Ok ([0, 2], [7, 9])"
  using measured_samples [OF demo_inv demo_measurement [of False 7 9], of "demo_dev False 0 [7, 9]"]
  by (simp add: demo_conn_fields demo_counter_def demo_srv_def)

text \<open>
  C13: With aggregation the reply is one series: sample by sample, the floating-point sum over the
  selected lines in increasing order, starting from 0.
\<close>

theorem measured_sums:
  assumes "inv s" and "measurement s v xs v' s'"
    and "amap_get (sv_devices (sy_server s')) (ct_dev (lv_counter v)) = Some d"
    and "ct_lines (lv_counter v) \<noteq> []" and "ct_interval (lv_counter v) = 1" and "ct_aggregate (lv_counter v)"
  shows "get_reply (lv_counter v') d = Ok ([0, int (length xs)],
    map (\<lambda>x. fold (\<lambda>l acc. d_add acc (x ! nat l)) (ct_lines (lv_counter v)) d_zero) xs)"
proof -
  note m = measurement_took [OF assms(1-3)]
  obtain se where se: "ct_sets (lv_counter v') = [se]" "took (lv_counter v') d xs se" using m(6) by blast
  show ?thesis
    using took_reply_sums [OF se(2,1)] m(1-5,7) assms(4-6) by simp
qed

text \<open>The instance on the concrete server.\<close>

theorem measured_sums_witness:
  "get_reply (lv_counter (demo_final True [7, 9])) (demo_dev True 0 [7, 9]) =
     Ok ([0, 2], [d_add d_zero 7, d_add d_zero 9])"
  using measured_sums [OF demo_inv demo_measurement [of True 7 9], of "demo_dev True 0 [7, 9]"]
  by (simp add: demo_conn_fields demo_counter_def demo_srv_def)





text \<open>
  C14: At a reduced rate (interval \<open>k\<close>) the announced length of the reply is the number of samples
  over \<open>k\<close>, and every line contributes the samples at the multiples of \<open>k\<close> among only the first so
  many: the tail of the measurement is left out.
\<close>

theorem measured_reduced:
  assumes "inv s" and "measurement s v xs v' s'"
    and "amap_get (sv_devices (sy_server s')) (ct_dev (lv_counter v)) = Some d"
    and "ct_lines (lv_counter v) \<noteq> []" and "ct_interval (lv_counter v) = int k" and "0 < k"
    and "\<not> ct_aggregate (lv_counter v)"
  shows "get_reply (lv_counter v') d = Ok ([0, int (length xs div k)],
    concat (map (\<lambda>l. strided k (map (\<lambda>x. x ! nat l) (take (length xs div k) xs))) (ct_lines (lv_counter v))))"
proof -
  note m = measurement_took [OF assms(1-3)]
  obtain se where se: "ct_sets (lv_counter v') = [se]" "took (lv_counter v') d xs se" using m(6) by blast
  show ?thesis
    using took_reply_strided [OF se(2,1)] m(1-5,7) assms(4-7) by simp
qed

text \<open>The instance on the concrete server.\<close>

theorem measured_reduced_witness:
  "get_reply (lv_counter (demo_final False [7, 9])) (demo_dev False 0 [7, 9]) = Ok ([0, 2], strided 1 [7, 9])"
  using measured_reduced [OF demo_inv demo_measurement [of False 7 9], of "demo_dev False 0 [7, 9]" 1]
  by (simp add: demo_conn_fields demo_counter_def demo_srv_def)

text \<open>
  C3: From the device to the printed table: a client that measured one lap while its device delivered \<open>xs\<close>
  fetches its data and prints it; the table has one row per sample, with the values of the requested lines, their
  sum, and the times of the lap spread evenly, whatever other clients did.
\<close>

theorem measured_report:
  assumes "inv s" and "measurement s v xs v' s'"
    and "amap_get (sv_devices (sy_server s')) (ct_dev (lv_counter v)) = Some d"
    and "ct_lines (lv_counter v) = ls" and "ls \<noteq> []" and "ct_interval (lv_counter v) = 1" and "\<not> ct_aggregate (lv_counter v)"
    and "s_in so = int_bytes (op_code GET)" and "s_room so = None"
    and "data = concat (map (\<lambda>l. map (\<lambda>x. x ! nat l) xs) ls)" and "8 + 8 * length data < 2147483648"
    and "length ls < 2147483648" and "cs_room (cl_sock cl) = None"
    and "delivers (get_writes (int (length ls)) [0, int (length xs)] data) (cs_segments (cl_sock cl))"
    and "stamped (cc_measures (cl_counter cl)) [(t0, t1)] None" and "cc_aggregate (cl_counter cl) = 0"
    and "line_ok lines" and "line_ok (cc_lines (cl_counter cl))" and "measured_lines (cl_counter cl) = ls"
  shows "\<exists>c' cl'. session_step (conn_of (sy_server s') (v'\<lparr>lv_sock := so\<rparr>)) = (Ok (), c') \<and>
    s_out (cn_sock c') = s_out so @ concat (get_writes (int (length ls)) [0, int (length xs)] data) \<and>
    pm_get_counter_data cl = (Ok 1, cl') \<and>
    pm_print_data_text True (cl_counter cl') lines (- 1) = Ok (1, lines_heading tab (columns lines (cl_counter cl)) @
      concat (map (\<lambda>i. table_row tab 0 (time_at (spacing (length xs) (t0, t1)) i)
        (map (\<lambda>(k, l). xs ! i ! nat l) (columns lines (cl_counter cl)))) [0..<length xs]))"
proof -
  have n: "length xs < 2147483648" using measurement_took(7) [OF assms(1-3)] assms(4,5) by simp
  have data: "data = concat (line_data ls xs)" using assms(10) by (simp add: line_data_def)
  obtain c' segs' where f: "session_step (conn_of (sy_server s') (v'\<lparr>lv_sock := so\<rparr>)) = (Ok (), c')"
      "s_out (cn_sock c') = s_out so @ concat (get_writes (int (length ls)) [0, int (length xs)] data)"
      "pm_get_counter_data cl = (Ok 1, with_data (one_set_data ls (length xs) data)
      (cl\<lparr>cl_sock := (cl_sock cl)\<lparr>cs_sent := cs_sent (cl_sock cl) @ s_in so, cs_segments := segs'\<rparr>\<rparr>))"
    using fetch_measured [where so = so and cl = cl, OF assms(1-9) data assms(11-14)] by metis
  show ?thesis
    by (rule exI, rule exI, rule conjI [OF f(1) conjI [OF f(2) conjI [OF f(3) report_of_data [OF assms(15) data n assms(16-19)]]]])
qed

text \<open>The instance on the concrete server and client.\<close>

theorem measured_report_witness:
  "\<exists>cl'. pm_get_counter_data demo_timed = (Ok 1, cl') \<and>
    pm_print_data_text True (cl_counter cl') demo_mask (- 1) = Ok (1, lines_heading tab [(0, 0)] @
      table_row tab 0 d_zero [7] @ table_row tab 0 (d_add d_zero (spacing 2 (1, 2))) [9])"
proof -
  let ?so = "\<lparr>s_in = int_bytes (op_code GET), s_out = [], s_room = None\<rparr>" and ?v = "demo_live False"
  let ?s' = "\<lparr>sy_server = demo_srv False 0 [7, 9], sy_live = [demo_final False [7, 9]]\<rparr>"
  have f: "ct_lines (lv_counter ?v) = [0]" "ct_interval (lv_counter ?v) = 1" "\<not> ct_aggregate (lv_counter ?v)"
    by (simp_all add: demo_conn_fields demo_counter_def)
  have d: "amap_get (sv_devices (sy_server ?s')) (ct_dev (lv_counter ?v)) = Some (demo_dev False 0 [7, 9])"
    by (simp add: demo_conn_fields demo_counter_def demo_srv_def)
  have o: "s_in ?so = int_bytes (op_code GET)" "s_room ?so = None" "cs_room (cl_sock demo_timed) = None"
    by (simp_all add: demo_timed_facts demo_asker_def del: op_code.simps)
  have x: "[7, 9] = concat (map (\<lambda>l. map (\<lambda>x. x ! nat l) [[7], [9::double]]) [0])" "8 + 8 * length [7, 9::double] < 2147483648"
      "length [0::int] < 2147483648" "[0::int] \<noteq> []"
    by simp_all
  have w: "delivers (get_writes (int (length [0::int])) [0, int (length [[7], [9::double]])] [7, 9]) (cs_segments (cl_sock demo_timed))"
    using demo_asker_delivers by (simp add: demo_timed_facts)
  have l: "line_ok demo_mask" by (simp add: demo_mask_def line_zero)
  show ?thesis
    using measured_report [OF demo_inv demo_measurement d f(1) x(4) f(2,3) o(1,2) x(1-3) o(3) w demo_timed_facts(1,2) l demo_timed_facts(3,4)]
    by (elim exE conjE) (rule exI, rule conjI, assumption, simp add: demo_timed_facts(5) time_at_def numeral_2_eq_2)
qed

section \<open>Sessions\<close>

text \<open>
  C24: A client that asks for a device the server has, at a rate the device can serve, is admitted: the
  whole request is read, success is reported, the counter gets the lines of its mask and the rounded
  interval, and is registered with the device.
\<close>

theorem creation:
  assumes "s_in (cn_sock c) = create_request n f a msk @ rest" and "valid_string n" and "valid_string msk"
    and "amap_get (sv_devices (cn_server c)) n = Some d" and "dev_ok d" and "d_max_frequency d < 4096"
    and "0 \<le> f" and "f \<le> d_max_frequency d" and "s_room (cn_sock c) = None" and "cn_peer c = Some p"
  shows "\<exists>c' d'. counter_create c = (Ok (), c') \<and>
    s_in (cn_sock c') = rest \<and> s_out (cn_sock c') = s_out (cn_sock c) @ int_bytes (retval_code SUCCESS) \<and>
    ct_lines (cn_counter c') = set_lines msk d \<and> ct_aggregate (cn_counter c') = a \<and> ct_registered (cn_counter c') \<and>
    ct_interval (cn_counter c') = (let g = (if f = 0 then d_max_frequency d else f) in (2 * d_max_frequency d + g) div (2 * g)) \<and>
    amap_get (sv_devices (cn_server c')) n = Some d' \<and> amap_get (d_counter_map d') (ct_id (cn_counter c')) \<noteq> None"
proof -
  let ?c = "admitted n f a msk rest d c"
  have "\<exists>d'. amap_get (sv_devices (cn_server ?c)) n = Some d' \<and> amap_get (d_counter_map d') (ct_id (cn_counter ?c)) \<noteq> None"
    by (simp add: admitted_def Let_def)
  moreover have "s_in (cn_sock ?c) = rest \<and> s_out (cn_sock ?c) = s_out (cn_sock c) @ int_bytes (retval_code SUCCESS) \<and>
      ct_lines (cn_counter ?c) = set_lines msk d \<and> ct_aggregate (cn_counter ?c) = a \<and> ct_registered (cn_counter ?c) \<and>
      ct_interval (cn_counter ?c) =
        (let g = (if f = 0 then d_max_frequency d else f) in (2 * d_max_frequency d + g) div (2 * g))"
    by (simp add: admitted_def Let_def)
  ultimately show ?thesis using counter_create_admitted [OF assms] by blast
qed

text \<open>The instance on the concrete server.\<close>

theorem creation_witness:
  "\<exists>c' d'. counter_create (conn_of demo_server (demo_client True)) = (Ok (), c') \<and> ct_lines (cn_counter c') = [0] \<and>
     ct_interval (cn_counter c') = 1 \<and> amap_get (sv_devices (cn_server c')) ''W'' = Some d' \<and>
     amap_get (d_counter_map d') (ct_id (cn_counter c')) \<noteq> None"
  using creation [of "conn_of demo_server (demo_client True)" "''W''" 1 True "[CHR 0x01]" "[]" demo_device "''10.0.0.1''"]
    demo_device_ok demo_lines
  by (auto simp: conn_of_def demo_client_def demo_server_def valid_string_def demo_device_def Device_new_def Let_def)

text \<open>
  C6: In every state reachable from a server without clients, the reference counts of a line cover
  the sessions that need it: it is enabled at least as often as sessions measure it, and active at
  least as often as sessions are measuring it now, so no session ends another's recording.
\<close>

theorem counts_cover_sessions:
  assumes "idle (sv_devices srv)" and "reaches \<lparr>sy_server = srv, sy_live = []\<rparr> s"
    and "amap_get (sv_devices (sy_server s)) n = Some d" and "amap_get (d_lines d) l = Some w"
  shows "int (length (filter (\<lambda>ct. ct_dev ct = n \<and> l \<in> set (ct_lines ct)) (map lv_counter (sy_live s)))) \<le> l_enabled w \<and>
    int (length (filter (\<lambda>ct. (ct_dev ct = n \<and> l \<in> set (ct_lines ct)) \<and> ct_status ct = ACTIVE)
      (map lv_counter (sy_live s)))) \<le> l_active w"
  using sys_inv_counts [OF inv_reaches [OF assms(2) inv_idle [OF assms(1)]] assms(3,4)]
  by (simp add: holds_def [abs_def] measures_def [abs_def])

text \<open>The instance on the concrete server.\<close>

theorem counts_cover_sessions_witness:
  "int (length (filter (\<lambda>ct. ct_dev ct = ''W'' \<and> 0 \<in> set (ct_lines ct)) (map lv_counter (sy_live (demo_state True))))) \<le> 1"
  using counts_cover_sessions [OF demo_idle demo_reached [of True], of "''W''" "demo_dev True 0 []" 0
      "demo_line\<lparr>l_enabled := 1, l_active := 0, l_data := []\<rparr>"]
  by (simp add: demo_state_def demo_conn_fields demo_srv_def demo_dev_def)

text \<open>
  C7: What the thread of a connection does, from the first byte to the destruction of its counter, is a
  sequence of the atomic steps of the transition system, so every invariant of the steps holds
  around whole connections; it leaves the other sessions alone.
\<close>

theorem connection_refines:
  assumes "cn_counter c = counter_init sid" and "connection fuel peers live c = (r, c')" and "\<forall>u. r \<noteq> Undef u"
  shows "steps \<lparr>sy_server = cn_server c, sy_live = vs\<rparr> \<lparr>sy_server = cn_server c', sy_live = vs\<rparr>"
  by (rule connection_steps [OF assms])

text \<open>A whole connection on the concrete server: the client creates a counter and hangs up.\<close>

theorem connection_refines_witness:
  "\<exists>c'. connection 1 (\<lambda>_. None) (\<lambda>_. []) (demo_hello True) = (Ok (), c') \<and>
     steps \<lparr>sy_server = demo_server, sy_live = []\<rparr> \<lparr>sy_server = cn_server c', sy_live = []\<rparr>"
proof -
  obtain c' where c': "connection 1 (\<lambda>_. None) (\<lambda>_. []) (demo_hello True) = (Ok (), c')"
    using demo_connection by blast
  have "cn_counter (demo_hello True) = counter_init 0" "cn_server (demo_hello True) = demo_server"
    by (simp_all add: demo_hello_def conn_of_def demo_client_def)
  then show ?thesis using connection_refines [OF _ c', of 0 "[]"] c' by simp
qed

section \<open>Configuration\<close>



text \<open>
  C28: A device the configuration accepts has exactly the lines \<open>0 .. n - 1\<close> of its type, in order, none of
  them enabled or active, no counter, and a positive rate.
\<close>

theorem configured_device:
  assumes "config_device b conf dn computers = Ok (d, computers')"
  shows "map fst (d_lines d) = map int [0..<nat (d_n_lines d)] \<and> d_counter_map d = [] \<and> 0 < d_max_frequency d \<and>
    list_all (\<lambda>(k, w). l_enabled w = 0 \<and> l_active w = 0) (d_lines d)"
  using config_device_ok [OF assms] by (simp add: dev_ok_def untouched_def list_all_iff)

text \<open>The instance on the concrete document.\<close>

theorem configured_device_witness: "map fst (d_lines demo_device) = [0] \<and> d_counter_map demo_device = []"
  using configured_device [OF demo_config_device] by (simp add: demo_device_def Device_new_def)



section \<open>JSON\<close>

text \<open>
  C8: What the writer writes, the reader reads: for a well-formed value without reals, nested at most as
  deep as the reader allows, reading the written text succeeds, and the value read writes the same text.
\<close>

theorem json_round_trip:
  assumes "wf_value v" and "textual v" and "jdepth v \<le> 1000"
  shows "read_stream (fast_write FastWriter_new v) rootv = Ok (canon v) \<and>
    fast_write FastWriter_new (canon v) = fast_write FastWriter_new v"
  using read_stream_written [OF assms] wr_canon [OF assms(1)] by (simp add: fast_write_def)

text \<open>The instance on a document.\<close>

theorem json_round_trip_witness:
  "read_stream (fast_write FastWriter_new (JArray [(0, JUInt 7), (2, JString ''a'')])) JNull =
     Ok (JArray [(0, JInt 7), (1, JNull), (2, JString ''a'')])"
  using json_round_trip [of "JArray [(0, JUInt 7), (2, JString ''a'')]" JNull]
  by (simp add: amap_ok_def maxUInt64_def canon_array items_of_def canon_simps canon_int_def maxInt_def upt_rec)

end
